(* ===== verification/Zcs_Prelude.thy ===== *)
theory Zcs_Prelude
  imports Main "HOL-Library.Word"
begin

text \<open>
  Shared vocabulary of the development: how a C++ call ends (a value, a thrown exception, a
  crash), decimal output of integers as \<open>std::ostream\<close> prints them, the two
  \<open>std::string\<close> searches the sources use, and the generic list lemmas the component
  theories share.
\<close>

named_theorems result_simps "evaluation of results and of their sequencing"

section \<open>How a call ends\<close>

text \<open>
  A call of the library returns a value, throws a C++ exception (the state reached so far
  survives, the catching code sees it), or ends the process: a null pointer is dereferenced, an
  assertion of \<open>macro.h\<close> aborts, the calling thread waits for a lock that it holds itself, a
  recursion exhausts the stack, or an object is used after its end.
\<close>

datatype exn =
    LogicError string       \<comment> \<open>\<open>std::logic_error\<close>\<close>
  | InvalidArgument string  \<comment> \<open>\<open>std::invalid_argument\<close>\<close>
  | YamlException string    \<comment> \<open>thrown by yaml-cpp, derived from \<open>std::runtime_error\<close>\<close>
  | BadLexicalCast string   \<comment> \<open>\<open>boost::bad_lexical_cast\<close>, derived from \<open>std::bad_cast\<close>\<close>
  | BadFunctionCall         \<comment> \<open>\<open>std::bad_function_call\<close>\<close>
  | ForeignException        \<comment> \<open>a thrown object that is no \<open>std::exception\<close>\<close>

datatype crash = NullDeref | AssertFailed string | Deadlock | StackOverflow | UndefinedBehaviour string

datatype ('a, 's) result = Ok 'a 's | Throw exn 's | Crash crash

fun is_std_exception :: "exn \<Rightarrow> bool" where
  "is_std_exception ForeignException = False"
| "is_std_exception _ = True"

fun what :: "exn \<Rightarrow> string" where
  "what (LogicError m) = m"
| "what (InvalidArgument m) = m"
| "what (YamlException m) = m"
| "what (BadLexicalCast m) = m"
| "what BadFunctionCall = ''bad_function_call''"
| "what ForeignException = []"

fun and_then :: "('a, 's) result \<Rightarrow> ('a \<Rightarrow> 's \<Rightarrow> ('b, 's) result) \<Rightarrow> ('b, 's) result" where
  "and_then (Ok a s) f = f a s"
| "and_then (Throw e s) f = Throw e s"
| "and_then (Crash c) f = Crash c"

lemmas and_then_simps [result_simps] = and_then.simps

lemma and_then_Ok_iff:
  "and_then r f = Ok b t \<longleftrightarrow> (\<exists>a s. r = Ok a s \<and> f a s = Ok b t)"
  by (cases r) auto

lemma and_then_assoc: "and_then (and_then r f) g = and_then r (\<lambda>a s. and_then (f a s) g)"
  by (cases r) auto

lemma and_then_cong [fundef_cong]:
  assumes "r = r'" and "\<And>a s. r' = Ok a s \<Longrightarrow> f a s = f' a s"
  shows "and_then r f = and_then r' f'"
  using assms by (cases r') auto

text \<open>Running an operation on every element of a list, in order, until one does not return.\<close>

fun for_each :: "('x \<Rightarrow> 's \<Rightarrow> (unit, 's) result) \<Rightarrow> 'x list \<Rightarrow> 's \<Rightarrow> (unit, 's) result" where
  "for_each f [] s = Ok () s"
| "for_each f (x # xs) s = and_then (f x s) (\<lambda>_. for_each f xs)"

lemma for_each_append:
  "for_each f (xs @ ys) s = and_then (for_each f xs s) (\<lambda>_. for_each f ys)"
proof (induction xs arbitrary: s)
  case Nil
  then show ?case by simp
next
  case (Cons x xs)
  then show ?case by (cases "f x s") auto
qed

text \<open>A loop whose body always returns and keeps \<open>P\<close> returns and keeps \<open>P\<close>.\<close>

lemma for_each_invariant:
  assumes "\<And>x t. x \<in> set xs \<Longrightarrow> P t \<Longrightarrow> \<exists>t'. f x t = Ok () t' \<and> P t'" and "P s"
  shows "\<exists>s'. for_each f xs s = Ok () s' \<and> P s'"
  using assms
proof (induction xs arbitrary: s)
  case Nil
  then show ?case by simp
next
  case (Cons x xs)
  from Cons.prems obtain t where "f x s = Ok () t" and "P t" by fastforce
  moreover from Cons.IH [of t] Cons.prems(1) \<open>P t\<close>
  obtain s' where "for_each f xs t = Ok () s'" and "P s'" by auto
  ultimately show ?case by simp
qed

section \<open>Decimal output\<close>

definition digit_char :: "nat \<Rightarrow> char" where
  "digit_char d = char_of (48 + d)"

fun dec_nat :: "nat \<Rightarrow> string" where
  "dec_nat n = (if n < 10 then [digit_char n] else dec_nat (n div 10) @ [digit_char (n mod 10)])"

declare dec_nat.simps [simp del]

definition dec_int :: "int \<Rightarrow> string" where
  "dec_int i = (if i < 0 then CHR ''-'' # dec_nat (nat (- i)) else dec_nat (nat i))"

definition undec :: "string \<Rightarrow> nat" where
  "undec cs = foldl (\<lambda>a c. 10 * a + (of_char c - 48)) 0 cs"

lemma of_digit_char: "d < 10 \<Longrightarrow> (of_char (digit_char d) :: nat) = 48 + d"
  by (simp add: digit_char_def)

lemma undec_dec_nat: "undec (dec_nat n) = n"
proof (induction n rule: dec_nat.induct)
  case (1 n)
  show ?case
  proof (cases "n < 10")
    case True
    then show ?thesis by (subst dec_nat.simps) (simp add: undec_def of_digit_char)
  next
    case False
    with 1 have "undec (dec_nat (n div 10)) = n div 10" by simp
    with False show ?thesis
      by (subst dec_nat.simps) (simp add: undec_def of_digit_char)
  qed
qed

lemma dec_nat_inject [simp]: "dec_nat m = dec_nat n \<longleftrightarrow> m = n"
  by (metis undec_dec_nat)

lemma dec_nat_not_Nil [simp]: "dec_nat n \<noteq> []"
  by (subst dec_nat.simps) simp

section \<open>Searches in strings\<close>

text \<open>\<open>s.find_first_of(c, i)\<close> with a single character \<open>c\<close>; \<open>None\<close> is \<open>npos\<close>.\<close>

definition find_first_of :: "string \<Rightarrow> char \<Rightarrow> nat \<Rightarrow> nat option" where
  "find_first_of p c i =
     (let k = i + length (takeWhile (\<lambda>x. x \<noteq> c) (drop i p))
      in if k < length p then Some k else None)"

text \<open>\<open>s.substr(i, n)\<close> for \<open>i\<close> within the string.\<close>

definition substr :: "string \<Rightarrow> nat \<Rightarrow> nat \<Rightarrow> string" where
  "substr p i n = take n (drop i p)"

text \<open>\<open>s.find_first_not_of(allowed) != npos\<close>\<close>

definition has_char_not_of :: "string \<Rightarrow> string \<Rightarrow> bool" where
  "has_char_not_of s allowed = (\<exists>c \<in> set s. c \<notin> set allowed)"

lemma find_first_of_None:
  "i \<le> length p \<Longrightarrow> find_first_of p c i = None \<longleftrightarrow> c \<notin> set (drop i p)"
proof -
  assume i: "i \<le> length p"
  have "length (takeWhile (\<lambda>x. x \<noteq> c) (drop i p)) < length (drop i p) \<longleftrightarrow> c \<in> set (drop i p)"
    by (metis (mono_tags) length_takeWhile_le nat_less_le takeWhile_eq_all_conv
        takeWhile_eq_take take_all_iff order_refl)
  with i show ?thesis by (auto simp: find_first_of_def Let_def)
qed

lemma find_first_of_Some:
  assumes "find_first_of p c i = Some k"
  shows "i \<le> k" and "k < length p" and "p ! k = c"
    and "substr p i (k - i) = takeWhile (\<lambda>x. x \<noteq> c) (drop i p)"
    and "drop (Suc k) p = tl (dropWhile (\<lambda>x. x \<noteq> c) (drop i p))"
proof -
  let ?w = "takeWhile (\<lambda>x. x \<noteq> c) (drop i p)"
  from assms have k: "k = i + length ?w" "k < length p"
    by (auto simp: find_first_of_def Let_def split: if_splits)
  then show "i \<le> k" and "k < length p" by auto
  from k have lt: "length ?w < length (drop i p)" by auto
  have "\<not> (drop i p ! length ?w \<noteq> c)" using lt by (rule nth_length_takeWhile)
  with k show "p ! k = c" by simp
  show "substr p i (k - i) = ?w"
    using k by (simp add: substr_def takeWhile_eq_take [symmetric])
  have "dropWhile (\<lambda>x. x \<noteq> c) (drop i p) = drop (length ?w) (drop i p)"
    by (rule dropWhile_eq_drop)
  then show "drop (Suc k) p = tl (dropWhile (\<lambda>x. x \<noteq> c) (drop i p))"
    using k by (simp add: drop_Suc tl_drop add.commute)
qed

lemma find_first_of_bounds: "find_first_of p c i = Some k \<Longrightarrow> i \<le> k \<and> k < length p"
  using find_first_of_Some(1,2) by blast

lemma scan_to [simp]:
  "c \<notin> set xs \<Longrightarrow> dropWhile (\<lambda>x. x \<noteq> c) (xs @ c # r) = c # r"
  "c \<notin> set xs \<Longrightarrow> takeWhile (\<lambda>x. x \<noteq> c) (xs @ c # r) = xs"
  by (induction xs) auto

lemma in_fst_image: "(a, b) \<in> S \<Longrightarrow> a \<in> fst ` S"
  by (rule image_eqI [of _ fst "(a, b)"]) simp_all

section \<open>Get-or-create registries\<close>

text \<open>
  The contract shared by \<open>LoggerManager::GetLogger\<close> and \<open>Config::LookUp\<close>: \<open>get k\<close> returns
  the object registered under the key, creating and registering it the first time. \<open>valid\<close> are
  the keys it accepts, \<open>inv\<close> what the registry keeps true.
\<close>

locale get_or_create =
  fixes get :: "'k \<Rightarrow> 's \<Rightarrow> 'v \<times> 's"
    and lookup :: "'s \<Rightarrow> 'k \<Rightarrow> 'v option"
    and valid :: "'k \<Rightarrow> bool"
    and inv :: "'s \<Rightarrow> bool"
  assumes get_inv: "inv s \<Longrightarrow> valid k \<Longrightarrow> inv (snd (get k s))"
    and get_found: "inv s \<Longrightarrow> lookup s k = Some v \<Longrightarrow> fst (get k s) = v"
    and get_stored: "inv s \<Longrightarrow> valid k \<Longrightarrow> lookup (snd (get k s)) k = Some (fst (get k s))"
    and get_other: "inv s \<Longrightarrow> valid k \<Longrightarrow> j \<noteq> k \<Longrightarrow> lookup (snd (get k s)) j = lookup s j"
    and lookup_inj: "inv s \<Longrightarrow> lookup s j = Some v \<Longrightarrow> lookup s k = Some v \<Longrightarrow> j = k"
begin

definition get_all :: "'k list \<Rightarrow> 's \<Rightarrow> 's" where
  "get_all ks s = fold (\<lambda>k s. snd (get k s)) ks s"

lemma get_twice: "inv s \<Longrightarrow> valid k \<Longrightarrow> fst (get k (snd (get k s))) = fst (get k s)"
  using get_found [OF get_inv get_stored] .

lemma lookup_kept:
  "inv s \<Longrightarrow> valid j \<Longrightarrow> lookup s k = Some v \<Longrightarrow> lookup (snd (get j s)) k = Some v"
  using get_stored [of s j] get_found [of s k v] by (cases "j = k") (auto simp: get_other)

lemma get_all_kept:
  "inv s \<Longrightarrow> list_all valid ks \<Longrightarrow> lookup s k = Some v \<Longrightarrow>
    inv (get_all ks s) \<and> lookup (get_all ks s) k = Some v"
  unfolding get_all_def
  by (induction ks arbitrary: s) (auto simp: get_inv lookup_kept)

text \<open>Whatever is requested in between, the same key yields the same object.\<close>

lemma get_stable:
  assumes "inv s" and "valid k" and "list_all valid ks"
  shows "fst (get k (get_all ks (snd (get k s)))) = fst (get k s)"
proof -
  have "inv (get_all ks (snd (get k s))) \<and>
      lookup (get_all ks (snd (get k s))) k = Some (fst (get k s))"
    using assms by (intro get_all_kept) (auto simp: get_inv get_stored)
  then show ?thesis using get_found by force
qed

text \<open>Different keys yield different objects.\<close>

lemma get_distinct:
  assumes "inv s" and "valid j" and "valid k" and "j \<noteq> k"
  shows "fst (get j (snd (get k s))) \<noteq> fst (get k s)"
proof
  let ?t = "snd (get k s)"
  assume eq: "fst (get j ?t) = fst (get k s)"
  have inv: "inv ?t" using assms by (simp add: get_inv)
  have "lookup (snd (get j ?t)) j = Some (fst (get k s))"
    using get_stored [OF inv assms(2)] eq by simp
  moreover have "lookup (snd (get j ?t)) k = Some (fst (get k s))"
    using lookup_kept [OF inv assms(2) get_stored [OF assms(1,3)]] .
  ultimately show False
    using lookup_inj [OF get_inv [OF inv assms(2)]] assms(4) by blast
qed

end

end
