(* ===== verification/Log_Format.thy ===== *)
theory Log_Format
  imports Zcs_Prelude
begin

text \<open>
  Levels, events and the pattern formatter of the logging module (\<open>src/src/log.h\<close> and
  \<open>src/src/log.cpp\<close>): \<open>LogLevel\<close>, \<open>LogEvent\<close>, the \<open>FormatItem\<close> classes and
  \<open>LogFormatter\<close>. The pattern parser \<open>LogFormatter::Init\<close> is modelled twice: as the
  index loop of the source and as a parser on the remaining text, proved to compute the same.
\<close>

section \<open>Levels\<close>

datatype level = UNKONW | DEBUG | INFO | WARN | ERROR | FATAL

fun LogLevel_ToString :: "level \<Rightarrow> string" where
  "LogLevel_ToString DEBUG = ''DEBUG''"
| "LogLevel_ToString INFO = ''INFO''"
| "LogLevel_ToString WARN = ''WARN''"
| "LogLevel_ToString ERROR = ''ERROR''"
| "LogLevel_ToString FATAL = ''FATAL''"
| "LogLevel_ToString UNKONW = ''UNKONW''"

definition LogLevel_FromString :: "string \<Rightarrow> level" where
  "LogLevel_FromString s =
     (if s = ''debug'' \<or> s = ''DEBUG'' then DEBUG
      else if s = ''info'' \<or> s = ''INFO'' then INFO
      else if s = ''warn'' \<or> s = ''WARN'' then WARN
      else if s = ''error'' \<or> s = ''ERROR'' then ERROR
      else if s = ''fatal'' \<or> s = ''FATAL'' then FATAL
      else UNKONW)"

lemma FromString_ToString [simp]: "LogLevel_FromString (LogLevel_ToString l) = l"
  by (cases l) (simp_all add: LogLevel_FromString_def)

section \<open>Events\<close>

text \<open>
  The fields of \<open>LogEvent\<close> at their widths. The logger of the event is the address of a
  logger in the store of \<open>Log_System\<close>; \<open>ev_ss\<close> is the content of the string stream.
\<close>

record log_event =
  ev_file :: string
  ev_line :: "32 word"
  ev_elapse :: "32 word"
  ev_thread_id :: "32 word"
  ev_fiber_id :: "32 word"
  ev_time :: "64 word"
  ev_thread_name :: string
  ev_logger :: nat
  ev_level :: level
  ev_ss :: string

text \<open>\<open>vasprintf\<close> either yields the formatted text or fails with \<open>-1\<close>.\<close>

definition LogEvent_Format :: "string option \<Rightarrow> log_event \<Rightarrow> log_event" where
  "LogEvent_Format buf e =
     (case buf of Some t \<Rightarrow> e\<lparr>ev_ss := ev_ss e @ t\<rparr> | None \<Rightarrow> e)"

section \<open>Format items\<close>

datatype format_item =
    MessageFormatItem
  | LevelFormatItem
  | ElapseFormatItem
  | NameFormatItem
  | ThreadIdFormatItem
  | NewLineFormatItem
  | TimeFormatItem string
  | FileNameFormatItem
  | LineFormatItem
  | TabFormatItem
  | FiberIdFormatItem
  | ThreadNameFormatItem
  | StringFormatItem string

definition default_time_format :: string where
  "default_time_format = ''%Y-%m-%d %H:%M:%S''"

definition new_TimeFormatItem :: "string \<Rightarrow> format_item" where
  "new_TimeFormatItem fmt = TimeFormatItem (if fmt = [] then default_time_format else fmt)"

text \<open>
  \<open>FormatItem::Format\<close> writes to a stream; the model returns the text written. The parameter
  \<open>time_text\<close> is what \<open>localtime_r\<close> and \<open>strftime\<close> put into the buffer for a
  format and a time, \<open>name_of\<close> reads the name of the logger at an address (\<open>None\<close>: the
  pointer is null).
\<close>

fun FormatItem_Format ::
  "(string \<Rightarrow> 64 word \<Rightarrow> string) \<Rightarrow> (nat \<Rightarrow> string option) \<Rightarrow> log_event \<Rightarrow> format_item \<Rightarrow> string option"
where
  "FormatItem_Format time_text name_of e MessageFormatItem = Some (ev_ss e)"
| "FormatItem_Format time_text name_of e LevelFormatItem = Some (LogLevel_ToString (ev_level e))"
| "FormatItem_Format time_text name_of e ElapseFormatItem = Some (dec_nat (unat (ev_elapse e)))"
| "FormatItem_Format time_text name_of e NameFormatItem = name_of (ev_logger e)"
| "FormatItem_Format time_text name_of e ThreadIdFormatItem = Some (dec_nat (unat (ev_thread_id e)))"
| "FormatItem_Format time_text name_of e NewLineFormatItem = Some [CHR 0x0A]"
| "FormatItem_Format time_text name_of e (TimeFormatItem fmt) = Some (time_text fmt (ev_time e))"
| "FormatItem_Format time_text name_of e FileNameFormatItem = Some (ev_file e)"
| "FormatItem_Format time_text name_of e LineFormatItem = Some (dec_int (sint (ev_line e)))"
| "FormatItem_Format time_text name_of e TabFormatItem = Some [CHR 0x09]"
| "FormatItem_Format time_text name_of e FiberIdFormatItem = Some (dec_nat (unat (ev_fiber_id e)))"
| "FormatItem_Format time_text name_of e ThreadNameFormatItem = Some (ev_thread_name e)"
| "FormatItem_Format time_text name_of e (StringFormatItem t) = Some t"

section \<open>The pattern parser\<close>

record log_formatter =
  fmt_pattern :: string
  fmt_error :: bool
  fmt_items :: "format_item list"

text \<open>The static table \<open>itemMap\<close> of \<open>LogFormatter::Init\<close>.\<close>

definition itemMap :: "string \<Rightarrow> (string \<Rightarrow> format_item) option" where
  "itemMap = map_of
     [(''m'', \<lambda>str. MessageFormatItem),
      (''p'', \<lambda>str. LevelFormatItem),
      (''r'', \<lambda>str. ElapseFormatItem),
      (''c'', \<lambda>str. NameFormatItem),
      (''t'', \<lambda>str. ThreadIdFormatItem),
      (''n'', \<lambda>str. NewLineFormatItem),
      (''d'', new_TimeFormatItem),
      (''f'', \<lambda>str. FileNameFormatItem),
      (''l'', \<lambda>str. LineFormatItem),
      (''T'', \<lambda>str. TabFormatItem),
      (''F'', \<lambda>str. FiberIdFormatItem),
      (''N'', \<lambda>str. ThreadNameFormatItem)]"

text \<open>The pending literal text becomes an item when a conversion follows it.\<close>

definition flush_str :: "string \<Rightarrow> format_item list \<Rightarrow> format_item list" where
  "flush_str str items = (if str \<noteq> [] then items @ [StringFormatItem str] else items)"

text \<open>
  The loop of \<open>LogFormatter::Init\<close>: \<open>i\<close> is the index, \<open>str\<close> the pending literal text,
  \<open>items\<close> and \<open>err\<close> the members \<open>items_\<close> and \<open>error_\<close>. Each recursive call is
  one pass of the loop, with the increment of the \<open>for\<close> statement done.
\<close>

function Init_loop ::
  "string \<Rightarrow> nat \<Rightarrow> string \<Rightarrow> format_item list \<Rightarrow> bool \<Rightarrow> format_item list \<times> bool"
where
  "Init_loop pat i str items err =
     (if length pat \<le> i then (items, err)
      else if pat ! i \<noteq> CHR ''%'' then Init_loop pat (i + 1) (str @ [pat ! i]) items err
      else if length pat \<le> i + 1 then
        Init_loop pat (i + 1) str (items @ [StringFormatItem ''<error format %>'']) True
      else if pat ! (i + 1) = CHR ''%'' then Init_loop pat (i + 2) (str @ ''%'') items err
      else
        let items1 = flush_str str items in
        if pat ! (i + 1) \<noteq> CHR ''d'' then
          (case itemMap [pat ! (i + 1)] of
             None \<Rightarrow> Init_loop pat (i + 2) []
                       (items1 @ [StringFormatItem (''<error format %'' @ [pat ! (i + 1)] @ ''>'')]) True
           | Some new_item \<Rightarrow> Init_loop pat (i + 2) [] (items1 @ [new_item [pat ! (i + 1)]]) err)
        else if length pat \<le> i + 2 then Init_loop pat (i + 2) [] items1 err
        else if pat ! (i + 2) \<noteq> CHR ''{'' then
          Init_loop pat (i + 2) [] (items1 @ [new_TimeFormatItem '''']) err
        else if length pat \<le> i + 3 then
          Init_loop pat (i + 3) [] (items1 @ [StringFormatItem ''<error format %d{ >'']) True
        else
          (case find_first_of pat (CHR ''}'') (i + 3) of
             None \<Rightarrow> Init_loop pat (i + 4) []
                       (items1 @ [StringFormatItem (''<error format %d{'' @ drop (i + 3) pat @ '' >'')]) True
           | Some index \<Rightarrow> Init_loop pat (index + 1) []
                       (items1 @ [new_TimeFormatItem (substr pat (i + 3) (index - (i + 3)))]) err))"
  by pat_completeness auto
termination
  by (relation "measure (\<lambda>(pat, i, str, items, err). length pat - i)")
    (auto dest!: find_first_of_bounds)

declare Init_loop.simps [simp del]

definition new_LogFormatter :: "string \<Rightarrow> log_formatter" where
  "new_LogFormatter pat =
     (let (items, err) = Init_loop pat 0 [] [] False
      in \<lparr>fmt_pattern = pat, fmt_error = err, fmt_items = items\<rparr>)"

definition default_pattern :: string where
  "default_pattern = ''%d{%Y-%m-%d %H:%M:%S}%T%t%T%N%T%F%T[%p]%T[%c]%T%f:%l%T%m%n''"

text \<open>
  \<open>LogFormatter::Format\<close>: the overload that writes to a stream, for any stream whose
  \<open>operator<<\<close> is \<open>put\<close>, and the overload that returns the text of a string stream.
\<close>

fun LogFormatter_Format_ostream ::
  "('s \<Rightarrow> string \<Rightarrow> 's) \<Rightarrow> (string \<Rightarrow> 64 word \<Rightarrow> string) \<Rightarrow> (nat \<Rightarrow> string option) \<Rightarrow> log_event
   \<Rightarrow> format_item list \<Rightarrow> 's \<Rightarrow> 's option"
where
  "LogFormatter_Format_ostream put time_text name_of e [] os = Some os"
| "LogFormatter_Format_ostream put time_text name_of e (it # its) os =
     (case FormatItem_Format time_text name_of e it of
        None \<Rightarrow> None
      | Some t \<Rightarrow> LogFormatter_Format_ostream put time_text name_of e its (put os t))"

definition LogFormatter_Format ::
  "(string \<Rightarrow> 64 word \<Rightarrow> string) \<Rightarrow> (nat \<Rightarrow> string option) \<Rightarrow> log_formatter \<Rightarrow> log_event
   \<Rightarrow> string option"
where
  "LogFormatter_Format time_text name_of f e =
     LogFormatter_Format_ostream (\<lambda>ss t. ss @ t) time_text name_of e (fmt_items f) []"

section \<open>The reference parser\<close>

text \<open>
  The same parser on the remaining text, without indices. \<open>prepend\<close> puts the items of one
  step in front of those of the rest.
\<close>

definition prepend :: "format_item list \<Rightarrow> bool \<Rightarrow> format_item list \<times> bool \<Rightarrow> format_item list \<times> bool"
where
  "prepend its e rest = (its @ fst rest, e \<or> snd rest)"

lemma fst_prepend [simp]: "fst (prepend its e rest) = its @ fst rest"
  and snd_prepend [simp]: "snd (prepend its e rest) \<longleftrightarrow> e \<or> snd rest"
  by (simp_all add: prepend_def)

function parse_pattern :: "string \<Rightarrow> string \<Rightarrow> format_item list \<times> bool" where
  "parse_pattern [] str = ([], False)"
| "parse_pattern (c # r) str =
     (if c \<noteq> CHR ''%'' then parse_pattern r (str @ [c])
      else (case r of
        [] \<Rightarrow> ([StringFormatItem ''<error format %>''], True)
      | x # r1 \<Rightarrow>
          if x = CHR ''%'' then parse_pattern r1 (str @ ''%'')
          else if x \<noteq> CHR ''d'' then
            (case itemMap [x] of
               None \<Rightarrow> prepend (flush_str str [] @ [StringFormatItem (''<error format %'' @ [x] @ ''>'')])
                         True (parse_pattern r1 [])
             | Some new_item \<Rightarrow>
                 prepend (flush_str str [] @ [new_item [x]]) False (parse_pattern r1 []))
          else (case r1 of
            [] \<Rightarrow> (flush_str str [], False)
          | y # r2 \<Rightarrow>
              if y \<noteq> CHR ''{'' then
                prepend (flush_str str [] @ [new_TimeFormatItem '''']) False (parse_pattern r1 [])
              else (case r2 of
                [] \<Rightarrow> (flush_str str [] @ [StringFormatItem ''<error format %d{ >''], True)
              | z # r3 \<Rightarrow>
                  if CHR ''}'' \<in> set r2 then
                    prepend (flush_str str [] @
                        [new_TimeFormatItem (takeWhile (\<lambda>x. x \<noteq> CHR ''}'') r2)])
                      False (parse_pattern (tl (dropWhile (\<lambda>x. x \<noteq> CHR ''}'') r2)) [])
                  else
                    prepend (flush_str str [] @
                        [StringFormatItem (''<error format %d{'' @ r2 @ '' >'')])
                      True (parse_pattern r3 [])))))"
  by pat_completeness auto
termination
  by (relation "measure (\<lambda>(p, str). length p)")
    (auto simp: less_Suc_eq_le intro!: le_SucI le_trans [OF diff_le_self] le_trans [OF length_dropWhile_le])

declare parse_pattern.simps(2) [simp del]

text \<open>What the two parsers make of a conversion, one lemma per shape of the remaining text.\<close>

lemma parse_pattern_text:
  "c \<noteq> CHR ''%'' \<Longrightarrow> parse_pattern (c # r) str = parse_pattern r (str @ [c])"
  by (subst parse_pattern.simps) simp

lemma parse_pattern_percent_end:
  "parse_pattern ''%'' str = ([StringFormatItem ''<error format %>''], True)"
  by (subst parse_pattern.simps) simp

lemma parse_pattern_percent_percent:
  "parse_pattern (CHR ''%'' # CHR ''%'' # r) str = parse_pattern r (str @ ''%'')"
  by (subst parse_pattern.simps) simp

lemma parse_pattern_unknown:
  assumes "x \<noteq> CHR ''%''" and "itemMap [x] = None"
  shows "parse_pattern (CHR ''%'' # x # r) str =
    prepend (flush_str str [] @ [StringFormatItem (''<error format %'' @ [x] @ ''>'')]) True
      (parse_pattern r [])"
proof -
  have "x \<noteq> CHR ''d''" using assms(2) by (auto simp: itemMap_def)
  with assms show ?thesis by (subst parse_pattern.simps) simp
qed

lemma parse_pattern_item:
  assumes "x \<noteq> CHR ''%''" and "x \<noteq> CHR ''d''" and "itemMap [x] = Some new_item"
  shows "parse_pattern (CHR ''%'' # x # r) str =
    prepend (flush_str str [] @ [new_item [x]]) False (parse_pattern r [])"
  using assms by (subst parse_pattern.simps) simp

lemma parse_pattern_date_end: "parse_pattern ''%d'' str = (flush_str str [], False)"
  by (subst parse_pattern.simps) simp

lemma parse_pattern_date_plain:
  "y \<noteq> CHR ''{'' \<Longrightarrow> parse_pattern (CHR ''%'' # CHR ''d'' # y # r) str =
    prepend (flush_str str [] @ [new_TimeFormatItem '''']) False (parse_pattern (y # r) [])"
  by (subst parse_pattern.simps) simp

lemma parse_pattern_date_open_end:
  "parse_pattern ''%d{'' str = (flush_str str [] @ [StringFormatItem ''<error format %d{ >''], True)"
  by (subst parse_pattern.simps) simp

lemma parse_pattern_date_braced:
  "CHR ''}'' \<in> set r \<Longrightarrow> parse_pattern (CHR ''%'' # CHR ''d'' # CHR ''{'' # r) str =
    prepend (flush_str str [] @ [new_TimeFormatItem (takeWhile (\<lambda>x. x \<noteq> CHR ''}'') r)]) False
      (parse_pattern (tl (dropWhile (\<lambda>x. x \<noteq> CHR ''}'') r)) [])"
  by (subst parse_pattern.simps) (auto split: list.splits)

lemma parse_pattern_date_unclosed:
  "CHR ''}'' \<notin> set r \<Longrightarrow> r \<noteq> [] \<Longrightarrow> parse_pattern (CHR ''%'' # CHR ''d'' # CHR ''{'' # r) str =
    prepend (flush_str str [] @ [StringFormatItem (''<error format %d{'' @ r @ '' >'')]) True
      (parse_pattern (tl r) [])"
  by (subst parse_pattern.simps) (auto split: list.splits)

lemmas parse_pattern_shapes =
  parse_pattern_text parse_pattern_percent_end parse_pattern_percent_percent
  parse_pattern_date_end parse_pattern_date_plain parse_pattern_date_open_end
  parse_pattern_date_braced parse_pattern_date_unclosed

lemma flush_str_append: "flush_str str items = items @ flush_str str []"
  by (simp add: flush_str_def)

lemma drop_step: "i < length p \<Longrightarrow> drop i p = p ! i # drop (Suc i) p"
  by (rule Cons_nth_drop_Suc [symmetric])

text \<open>The conversion \<open>%d\<close> in its five shapes.\<close>

lemma Init_loop_eq_parse_date:
  assumes "i + 1 < length pat" and "pat ! i = CHR ''%''" and "pat ! (i + 1) = CHR ''d''"
    and IH: "\<And>j str items err. i < j \<Longrightarrow>
      Init_loop pat j str items err = prepend items err (parse_pattern (drop j pat) str)"
  shows "Init_loop pat i str items err =
    prepend items err (parse_pattern (CHR ''%'' # CHR ''d'' # drop (i + 2) pat) str)"
proof -
  consider (d_end) "length pat = i + 2"
    | (plain) "i + 2 < length pat" "pat ! (i + 2) \<noteq> CHR ''{''"
    | (open_end) "length pat = i + 3" "pat ! (i + 2) = CHR ''{''"
    | (brace) "i + 3 < length pat" "pat ! (i + 2) = CHR ''{''"
    using assms(1) by linarith
  then show ?thesis
  proof cases
    case d_end
    with assms show ?thesis
      by (subst Init_loop.simps)
        (simp add: IH parse_pattern_date_end prepend_def flush_str_append [of str items])
  next
    case plain
    then have "drop (i + 2) pat = pat ! (i + 2) # drop (i + 3) pat"
      by (simp add: drop_step eval_nat_numeral)
    with plain assms show ?thesis
      by (subst Init_loop.simps)
        (simp add: IH parse_pattern_date_plain prepend_def flush_str_append [of str items])
  next
    case open_end
    then have "drop (i + 2) pat = ''{''"
      by (simp add: drop_step eval_nat_numeral)
    with open_end assms show ?thesis
      by (subst Init_loop.simps)
        (simp add: IH parse_pattern_date_open_end prepend_def flush_str_append [of str items])
  next
    case brace
    then have dr: "drop (i + 2) pat = CHR ''{'' # drop (i + 3) pat"
      by (simp add: drop_step eval_nat_numeral)
    show ?thesis
    proof (cases "find_first_of pat (CHR ''}'') (i + 3)")
      case None
      with brace have "CHR ''}'' \<notin> set (drop (i + 3) pat)" by (simp add: find_first_of_None)
      moreover have "tl (drop (i + 3) pat) = drop (i + 4) pat"
        by (simp add: tl_drop drop_Suc eval_nat_numeral)
      ultimately show ?thesis using brace assms None unfolding dr
        by (subst Init_loop.simps)
          (simp add: IH parse_pattern_date_unclosed prepend_def flush_str_append [of str items])
    next
      case (Some k)
      with brace have "CHR ''}'' \<in> set (drop (i + 3) pat)"
        using find_first_of_None [of "i + 3" pat "CHR ''}''"] by auto
      with brace assms Some find_first_of_Some [OF Some] show ?thesis unfolding dr
        by (subst Init_loop.simps)
          (simp add: IH parse_pattern_date_braced prepend_def flush_str_append [of str items])
    qed
  qed
qed

text \<open>The index loop computes what the reference parser computes on the text from \<open>i\<close> on.\<close>

lemma Init_loop_eq_parse:
  "Init_loop pat i str items err = prepend items err (parse_pattern (drop i pat) str)"
proof (induction "length pat - i" arbitrary: i str items err rule: less_induct)
  case less
  note IH = less.hyps
  consider (past) "length pat \<le> i"
    | (lit) "i < length pat" "pat ! i \<noteq> CHR ''%''"
    | (pend) "i + 1 = length pat" "pat ! i = CHR ''%''"
    | (conv) "i + 1 < length pat" "pat ! i = CHR ''%''"
    by linarith
  then show ?case
  proof cases
    case past
    then show ?thesis by (subst Init_loop.simps) (simp add: prepend_def)
  next
    case lit
    then show ?thesis
      by (subst Init_loop.simps) (simp add: drop_step parse_pattern_text IH)
  next
    case pend
    have "Init_loop pat i str items err =
        Init_loop pat (i + 1) str (items @ [StringFormatItem ''<error format %>'']) True"
      using pend by (subst Init_loop.simps) simp
    also have "\<dots> = (items @ [StringFormatItem ''<error format %>''], True)"
      using pend by (subst Init_loop.simps) simp
    finally show ?thesis
      using pend by (simp add: drop_step parse_pattern_percent_end prepend_def)
  next
    case conv
    let ?x = "pat ! (i + 1)"
    have dr: "drop i pat = CHR ''%'' # ?x # drop (i + 2) pat"
      using conv by (simp add: drop_step)
    show ?thesis
    proof (cases "?x = CHR ''d''")
      case False
      with conv show ?thesis unfolding dr
        by (subst Init_loop.simps)
          (auto simp: parse_pattern_percent_percent parse_pattern_unknown parse_pattern_item
            prepend_def flush_str_append [of str items] Let_def IH split: option.splits)
    next
      case True
      show ?thesis unfolding dr True
        by (rule Init_loop_eq_parse_date) (use conv True IH in auto)
    qed
  qed
qed

section \<open>The grammar of patterns\<close>

text \<open>
  The conversions that the comment of \<open>log.h\<close> documents, but for \<open>%d\<close>, and the grammar
  of the patterns that the parser accepts without an error.
\<close>

definition conversions :: "(char \<times> format_item) list" where
  "conversions =
     [(CHR ''m'', MessageFormatItem), (CHR ''p'', LevelFormatItem), (CHR ''r'', ElapseFormatItem),
      (CHR ''c'', NameFormatItem), (CHR ''t'', ThreadIdFormatItem), (CHR ''n'', NewLineFormatItem),
      (CHR ''f'', FileNameFormatItem), (CHR ''l'', LineFormatItem), (CHR ''T'', TabFormatItem),
      (CHR ''F'', FiberIdFormatItem), (CHR ''N'', ThreadNameFormatItem)]"

lemma itemMap_conversions:
  "x \<noteq> CHR ''d'' \<Longrightarrow> itemMap [x] = map_option (\<lambda>it str. it) (map_of conversions x)"
  by (auto simp: itemMap_def conversions_def)

lemma conversions_special [simp]:
  "map_of conversions (CHR ''%'') = None" "map_of conversions (CHR ''d'') = None"
  by (simp_all add: conversions_def)

lemma conversions_chars: "map_of conversions x = Some it \<Longrightarrow> x \<noteq> CHR ''%'' \<and> x \<noteq> CHR ''d''"
  by (auto simp: conversions_def split: if_splits)

lemma parse_pattern_conversion:
  "map_of conversions x = Some it \<Longrightarrow>
    parse_pattern (CHR ''%'' # x # r) str = prepend (flush_str str [] @ [it]) False (parse_pattern r [])"
  using conversions_chars [of x it]
  by (auto simp: itemMap_conversions parse_pattern_item)

inductive pattern_ok :: "string \<Rightarrow> bool" where
  ok_end: "pattern_ok []"
| ok_text: "c \<noteq> CHR ''%'' \<Longrightarrow> pattern_ok r \<Longrightarrow> pattern_ok (c # r)"
| ok_percent: "pattern_ok r \<Longrightarrow> pattern_ok (CHR ''%'' # CHR ''%'' # r)"
| ok_conversion: "map_of conversions x = Some it \<Longrightarrow> pattern_ok r \<Longrightarrow> pattern_ok (CHR ''%'' # x # r)"
| ok_date_end: "pattern_ok ''%d''"
| ok_date: "y \<noteq> CHR ''{'' \<Longrightarrow> pattern_ok (y # r) \<Longrightarrow> pattern_ok (CHR ''%'' # CHR ''d'' # y # r)"
| ok_date_format: "CHR ''}'' \<notin> set fmt \<Longrightarrow> pattern_ok r \<Longrightarrow>
    pattern_ok (CHR ''%'' # CHR ''d'' # CHR ''{'' # fmt @ CHR ''}'' # r)"

text \<open>Every pattern starts in exactly one of these ways.\<close>

lemma pattern_shapes:
  obtains (empty) "p = []"
  | (plain) c r where "p = c # r" "c \<noteq> CHR ''%''"
  | (percent_end) "p = ''%''"
  | (percent) r where "p = CHR ''%'' # CHR ''%'' # r"
  | (conversion) x it r where "p = CHR ''%'' # x # r" "map_of conversions x = Some it"
  | (unknown) x r where "p = CHR ''%'' # x # r" "x \<noteq> CHR ''%''" "itemMap [x] = None"
  | (date_end) "p = ''%d''"
  | (date) y r where "p = CHR ''%'' # CHR ''d'' # y # r" "y \<noteq> CHR ''{''"
  | (date_open_end) "p = ''%d{''"
  | (date_format) fmt r where "p = CHR ''%'' # CHR ''d'' # CHR ''{'' # fmt @ CHR ''}'' # r"
      "CHR ''}'' \<notin> set fmt"
  | (date_unclosed) r where "p = CHR ''%'' # CHR ''d'' # CHR ''{'' # r" "CHR ''}'' \<notin> set r" "r \<noteq> []"
proof (cases "\<exists>r. p = CHR ''%'' # CHR ''d'' # CHR ''{'' # r")
  case True
  then obtain r where p: "p = CHR ''%'' # CHR ''d'' # CHR ''{'' # r" by blast
  then show ?thesis
    using date_open_end date_format date_unclosed split_list_first [of "CHR ''}''" r] by blast
next
  case False
  show ?thesis
  proof (cases "\<exists>x r. p = CHR ''%'' # x # r")
    case True
    then obtain x r where p: "p = CHR ''%'' # x # r" by blast
    show ?thesis
    proof (cases "x = CHR ''d''")
      case True
      with p False show ?thesis using date_end date by (cases r) auto
    next
      case xd: False
      show ?thesis
        using p percent conversion unknown itemMap_conversions [OF xd]
        by (cases "map_of conversions x") auto
    qed
  next
    case nc: False
    then show ?thesis
      using empty plain percent_end by (cases p; cases "tl p") auto
  qed
qed

lemma pattern_ok_no_error: "pattern_ok p \<Longrightarrow> \<not> snd (parse_pattern p str)"
proof (induction arbitrary: str rule: pattern_ok.induct)
  case (ok_date_format fmt r)
  then show ?case by (simp add: parse_pattern_date_braced)
qed (simp_all add: parse_pattern_shapes parse_pattern_conversion)

lemma no_error_pattern_ok: "\<not> snd (parse_pattern p str) \<Longrightarrow> pattern_ok p"
proof (induction p arbitrary: str rule: length_induct)
  case (1 p)
  note IH = "1.IH" [rule_format]
  show ?case
  proof (cases p rule: pattern_shapes)
    case (date_format fmt r)
    with "1.prems" IH show ?thesis
      by (auto simp: parse_pattern_date_braced intro!: pattern_ok.ok_date_format)
  qed (use "1.prems" IH in \<open>auto simp: parse_pattern_shapes parse_pattern_conversion
        parse_pattern_unknown intro: pattern_ok.intros\<close>)
qed

section \<open>Rendering a pattern\<close>

text \<open>
  A pattern as its author means it: literal text (a percent sign is written twice), a
  conversion, or a date with or without its own format. \<open>seg_items\<close> are the items that the
  parser makes of such segments, \<open>seg_pending\<close> is the literal text that no conversion follows.
\<close>

datatype segment = Text string | Conv char | Date "string option"

fun escape_text :: "string \<Rightarrow> string" where
  "escape_text [] = []"
| "escape_text (c # cs) = (if c = CHR ''%'' then ''%%'' else [c]) @ escape_text cs"

fun render_segment :: "segment \<Rightarrow> string" where
  "render_segment (Text t) = escape_text t"
| "render_segment (Conv c) = [CHR ''%'', c]"
| "render_segment (Date None) = ''%d''"
| "render_segment (Date (Some fmt)) = ''%d{'' @ fmt @ ''}''"

fun render_segments :: "segment list \<Rightarrow> string" where
  "render_segments [] = []"
| "render_segments (sg # sgs) = render_segment sg @ render_segments sgs"

fun seg_items :: "segment list \<Rightarrow> string \<Rightarrow> format_item list" where
  "seg_items [] str = []"
| "seg_items (Text t # sgs) str = seg_items sgs (str @ t)"
| "seg_items (Conv c # sgs) str =
     flush_str str [] @ [the (map_of conversions c)] @ seg_items sgs []"
| "seg_items (Date None # sgs) str =
     flush_str str [] @ [new_TimeFormatItem []] @ seg_items sgs []"
| "seg_items (Date (Some fmt) # sgs) str =
     flush_str str [] @ [new_TimeFormatItem fmt] @ seg_items sgs []"

fun seg_pending :: "segment list \<Rightarrow> string \<Rightarrow> string" where
  "seg_pending [] str = str"
| "seg_pending (Text t # sgs) str = seg_pending sgs (str @ t)"
| "seg_pending (_ # sgs) str = seg_pending sgs []"

text \<open>
  The segments can be told apart again when \<open>q\<close> follows them: the conversions are known, a
  format has no closing brace, and a date without a format is not followed by an opening brace
  or by the end of the pattern.
\<close>

fun segs_ok :: "segment list \<Rightarrow> string \<Rightarrow> bool" where
  "segs_ok [] q = True"
| "segs_ok (Text t # sgs) q = segs_ok sgs q"
| "segs_ok (Conv c # sgs) q = (map_of conversions c \<noteq> None \<and> segs_ok sgs q)"
| "segs_ok (Date None # sgs) q =
     ((case render_segments sgs @ q of [] \<Rightarrow> False | y # _ \<Rightarrow> y \<noteq> CHR ''{'') \<and> segs_ok sgs q)"
| "segs_ok (Date (Some fmt) # sgs) q = (CHR ''}'' \<notin> set fmt \<and> segs_ok sgs q)"

lemma parse_escape_text:
  "parse_pattern (escape_text t @ q) str = parse_pattern q (str @ t)"
proof (induction t arbitrary: str)
  case Nil
  then show ?case by simp
next
  case (Cons c t)
  then show ?case by (simp add: parse_pattern_text parse_pattern_percent_percent)
qed

lemma prepend_prepend: "prepend a e (prepend b f r) = prepend (a @ b) (e \<or> f) r"
  by (simp add: prepend_def)

lemma prepend_empty [simp]: "prepend [] False r = r"
  by (simp add: prepend_def)

lemma parse_render_segments:
  "segs_ok sgs q \<Longrightarrow> parse_pattern (render_segments sgs @ q) str =
     prepend (seg_items sgs str) False (parse_pattern q (seg_pending sgs str))"
proof (induction sgs q arbitrary: str rule: segs_ok.induct)
  case (4 sgs q)
  then obtain y r where "render_segments sgs @ q = y # r" and "y \<noteq> CHR ''{''"
    by (auto split: list.splits)
  with 4 show ?case by (auto simp: parse_pattern_date_plain prepend_prepend)
qed (auto simp: parse_escape_text parse_pattern_conversion parse_pattern_date_braced prepend_prepend)

lemma segs_ok_append_text:
  "segs_ok sgs [] \<Longrightarrow> segs_ok sgs q"
  by (induction sgs q rule: segs_ok.induct) (auto split: list.splits)

section \<open>What a formatter prints\<close>

text \<open>The texts that the items write, one after the other; \<open>None\<close> if one cannot be formatted.\<close>

fun item_texts ::
  "(string \<Rightarrow> 64 word \<Rightarrow> string) \<Rightarrow> (nat \<Rightarrow> string option) \<Rightarrow> log_event \<Rightarrow> format_item list
   \<Rightarrow> string list option"
where
  "item_texts time_text name_of e [] = Some []"
| "item_texts time_text name_of e (it # its) =
     (case FormatItem_Format time_text name_of e it of
        None \<Rightarrow> None
      | Some t \<Rightarrow> map_option ((#) t) (item_texts time_text name_of e its))"

lemma Format_ostream_fold:
  "LogFormatter_Format_ostream put time_text name_of e its os =
    map_option (\<lambda>ts. fold (\<lambda>t os. put os t) ts os) (item_texts time_text name_of e its)"
  by (induction its arbitrary: os) (auto simp: option.map_comp comp_def split: option.splits)

lemma fold_append_texts: "fold (\<lambda>t os. os @ t) ts os = os @ concat ts"
  by (induction ts arbitrary: os) auto

lemma LogFormatter_Format_texts:
  "LogFormatter_Format time_text name_of f e =
    map_option concat (item_texts time_text name_of e (fmt_items f))"
  by (simp add: LogFormatter_Format_def Format_ostream_fold fold_append_texts)

lemma FormatItem_Format_None:
  "FormatItem_Format time_text name_of e it = None \<longleftrightarrow>
    it = NameFormatItem \<and> name_of (ev_logger e) = None"
  by (cases it) auto

text \<open>Formatting succeeds for every event whose logger exists.\<close>

lemma item_texts_Some:
  "name_of (ev_logger e) \<noteq> None \<Longrightarrow> \<exists>ts. item_texts time_text name_of e its = Some ts"
proof (induction its)
  case Nil
  then show ?case by simp
next
  case (Cons it its)
  then obtain ts where "item_texts time_text name_of e its = Some ts" by blast
  moreover obtain t where "FormatItem_Format time_text name_of e it = Some t"
    using Cons.prems FormatItem_Format_None [of time_text name_of e it] by fastforce
  ultimately show ?case by simp
qed

section \<open>Streams\<close>

text \<open>
  What \<open>Format\<close> relies on in a \<open>std::ostream\<close>: a good stream takes the text, or only the first
  characters of it if it fails, and a stream that has failed takes no more text. \<open>sink\<close> is what
  it has taken, \<open>good\<close> is \<open>!fail()\<close>.
\<close>

locale ostream =
  fixes put :: "'s \<Rightarrow> string \<Rightarrow> 's"
    and sink :: "'s \<Rightarrow> string"
    and good :: "'s \<Rightarrow> bool"
  assumes put_ok: "good s \<Longrightarrow> good (put s t) \<Longrightarrow> sink (put s t) = sink s @ t"
    and put_fails: "good s \<Longrightarrow> \<not> good (put s t) \<Longrightarrow> \<exists>k. sink (put s t) = sink s @ take k t"
    and put_failed: "\<not> good s \<Longrightarrow> \<not> good (put s t) \<and> sink (put s t) = sink s"
begin

lemma put_all_failed:
  "\<not> good s \<Longrightarrow> \<not> good (fold (\<lambda>t s. put s t) ts s) \<and>
    sink (fold (\<lambda>t s. put s t) ts s) = sink s"
  by (induction ts arbitrary: s) (auto simp: put_failed)

text \<open>If the stream is good in the end, every text has been taken, in order.\<close>

lemma put_all_ok:
  "good (fold (\<lambda>t s. put s t) ts s) \<Longrightarrow>
    sink (fold (\<lambda>t s. put s t) ts s) = sink s @ concat ts"
proof (induction ts arbitrary: s)
  case Nil
  then show ?case by simp
next
  case (Cons t ts)
  then have ok: "good (put s t)" using put_all_failed [of "put s t" ts] by auto
  then have "good s" using put_failed by blast
  with Cons ok show ?case by (simp add: put_ok)
qed

text \<open>In any case a prefix of the texts has been taken.\<close>

lemma put_all_prefix: "\<exists>k. sink (fold (\<lambda>t s. put s t) ts s) = sink s @ take k (concat ts)"
proof (induction ts arbitrary: s)
  case Nil
  then show ?case by simp
next
  case (Cons t ts)
  show ?case
  proof (cases "good s \<and> good (put s t)")
    case True
    from Cons [of "put s t"] obtain k where
      "sink (fold (\<lambda>t s. put s t) ts (put s t)) = sink (put s t) @ take k (concat ts)" by blast
    with True show ?thesis by (intro exI [of _ "length t + k"]) (simp add: put_ok)
  next
    case False
    have "sink (put s t) = sink s @ take 0 t" if "\<not> good s" using that put_failed by simp
    with False have "\<not> good (put s t)" and "\<exists>k. sink (put s t) = sink s @ take k t"
      using put_fails put_failed by blast+
    then obtain k where "\<not> good (put s t)" and "sink (put s t) = sink s @ take k t" by blast
    with put_all_failed [of "put s t" ts] show ?thesis
      by (intro exI [of _ "min k (length t)"]) (simp add: min_def)
  qed
qed

end

text \<open>
  A stream with a buffer: what it takes goes to the end of the buffer, what it writes to its
  device comes from the front.
\<close>

locale buffered_ostream = ostream +
  fixes device :: "'s \<Rightarrow> string"
    and buffer :: "'s \<Rightarrow> string"
  assumes put_conserves: "\<exists>x w. sink (put s t) = sink s @ x \<and> device (put s t) = device s @ w \<and>
    w @ buffer (put s t) = buffer s @ x"
begin

lemma put_all_conserves:
  "\<exists>x w. sink (fold (\<lambda>t s. put s t) ts s) = sink s @ x \<and>
    device (fold (\<lambda>t s. put s t) ts s) = device s @ w \<and>
    w @ buffer (fold (\<lambda>t s. put s t) ts s) = buffer s @ x"
proof (induction ts arbitrary: s)
  case Nil
  then show ?case by simp
next
  case (Cons t ts)
  obtain x w where put: "sink (put s t) = sink s @ x" "device (put s t) = device s @ w"
      "w @ buffer (put s t) = buffer s @ x"
    using put_conserves by blast
  from Cons.IH [of "put s t"] obtain x' w' where "sink (fold (\<lambda>t s. put s t) ts (put s t)) = sink (put s t) @ x'"
      "device (fold (\<lambda>t s. put s t) ts (put s t)) = device (put s t) @ w'"
      "w' @ buffer (fold (\<lambda>t s. put s t) ts (put s t)) = buffer (put s t) @ x'" by blast
  with put have "sink (fold (\<lambda>t s. put s t) (t # ts) s) = sink s @ x @ x'"
    "device (fold (\<lambda>t s. put s t) (t # ts) s) = device s @ w @ w'"
    "(w @ w') @ buffer (fold (\<lambda>t s. put s t) (t # ts) s) = buffer s @ x @ x'"
    by simp_all
  then show ?case by blast
qed

end

section \<open>Properties of the formatter\<close>

lemma new_LogFormatter_parse:
  "new_LogFormatter pat =
    \<lparr>fmt_pattern = pat, fmt_error = snd (parse_pattern pat []), fmt_items = fst (parse_pattern pat [])\<rparr>"
  by (simp add: new_LogFormatter_def Init_loop_eq_parse split_beta)

text \<open>The default pattern of \<open>Logger\<close> as segments.\<close>

definition default_segments :: "segment list" where
  "default_segments =
     [Date (Some ''%Y-%m-%d %H:%M:%S''), Conv (CHR ''T''), Conv (CHR ''t''), Conv (CHR ''T''),
      Conv (CHR ''N''), Conv (CHR ''T''), Conv (CHR ''F''), Conv (CHR ''T''), Text ''['',
      Conv (CHR ''p''), Text '']'', Conv (CHR ''T''), Text ''['', Conv (CHR ''c''), Text '']'',
      Conv (CHR ''T''), Conv (CHR ''f''), Text '':'', Conv (CHR ''l''), Conv (CHR ''T''),
      Conv (CHR ''m''), Conv (CHR ''n'')]"

lemma default_segments_ok: "segs_ok default_segments []"
  by (simp add: default_segments_def conversions_def)

lemma default_pattern_rendered: "default_pattern = render_segments default_segments"
  by (simp add: default_pattern_def default_segments_def)

lemma default_segments_items:
  "seg_items default_segments [] =
    [TimeFormatItem ''%Y-%m-%d %H:%M:%S'', TabFormatItem, ThreadIdFormatItem, TabFormatItem,
     ThreadNameFormatItem, TabFormatItem, FiberIdFormatItem, TabFormatItem, StringFormatItem ''['',
     LevelFormatItem, StringFormatItem '']'', TabFormatItem, StringFormatItem ''['', NameFormatItem,
     StringFormatItem '']'', TabFormatItem, FileNameFormatItem, StringFormatItem '':'',
     LineFormatItem, TabFormatItem, MessageFormatItem, NewLineFormatItem]"
  by (simp add: default_segments_def conversions_def flush_str_def new_TimeFormatItem_def)

lemma default_items: "fmt_items (new_LogFormatter default_pattern) = seg_items default_segments []"
  using parse_render_segments [OF default_segments_ok, of "[]"]
  by (simp add: new_LogFormatter_parse default_pattern_rendered)

text \<open>
  C1: The index loop of \<open>LogFormatter::Init\<close> (with its skips over the conversion letter, the
  opening brace and the date format) computes, for every pattern, the items and the error flag of
  the reference parser that consumes the pattern from the left.
\<close>

theorem Init_is_reference_parser:
  "fmt_items (new_LogFormatter pat) = fst (parse_pattern pat []) \<and>
   fmt_error (new_LogFormatter pat) = snd (parse_pattern pat []) \<and>
   fmt_pattern (new_LogFormatter pat) = pat"
  by (simp add: new_LogFormatter_parse)

text \<open>
  A formatter reports an error exactly for the patterns outside the grammar: a percent sign
  at the end, an unknown conversion letter, or a date format whose brace is not closed.
\<close>

theorem formatter_error_iff_not_ok: "fmt_error (new_LogFormatter pat) \<longleftrightarrow> \<not> pattern_ok pat"
  using pattern_ok_no_error [of pat "[]"] no_error_pattern_ok [of pat "[]"]
  by (auto simp: new_LogFormatter_parse)

text \<open>
  C17: Parsing inverts rendering: a pattern written from segments (text with its percent signs
  doubled, conversions, dates with or without a format) is accepted, and its items are those of
  the segments, with adjacent texts joined, up to the text after the last conversion.
\<close>

theorem formatter_parses_rendering:
  "segs_ok sgs [] \<Longrightarrow> new_LogFormatter (render_segments sgs) =
    \<lparr>fmt_pattern = render_segments sgs, fmt_error = False, fmt_items = seg_items sgs []\<rparr>"
  using parse_render_segments [of sgs "[]" "[]"] by (simp add: new_LogFormatter_parse)

text \<open>At the default pattern of \<open>Logger\<close>.\<close>

theorem formatter_parses_rendering_witness:
  "fmt_items (new_LogFormatter default_pattern) =
    [TimeFormatItem ''%Y-%m-%d %H:%M:%S'', TabFormatItem, ThreadIdFormatItem, TabFormatItem,
     ThreadNameFormatItem, TabFormatItem, FiberIdFormatItem, TabFormatItem, StringFormatItem ''['',
     LevelFormatItem, StringFormatItem '']'', TabFormatItem, StringFormatItem ''['', NameFormatItem,
     StringFormatItem '']'', TabFormatItem, FileNameFormatItem, StringFormatItem '':'',
     LineFormatItem, TabFormatItem, MessageFormatItem, NewLineFormatItem]
   \<and> \<not> fmt_error (new_LogFormatter default_pattern)"
  unfolding default_pattern_rendered formatter_parses_rendering [OF default_segments_ok]
  by (simp add: default_segments_items)

text \<open>
  Literal text after the last conversion is never printed: appending text (percent signs
  doubled) to an accepted pattern changes neither the items nor the error flag. The loop leaves
  the text in \<open>str\<close> and ends without flushing it.
\<close>

theorem trailing_text_is_dropped:
  assumes "segs_ok sgs []"
  shows "fmt_items (new_LogFormatter (render_segments sgs @ escape_text t)) =
      fmt_items (new_LogFormatter (render_segments sgs)) \<and>
    \<not> fmt_error (new_LogFormatter (render_segments sgs @ escape_text t))"
proof -
  have "parse_pattern (escape_text t) str = ([], False)" for str
    using parse_escape_text [of t "[]" str] by simp
  then show ?thesis
    using parse_render_segments [OF assms, of "[]"]
      parse_render_segments [OF segs_ok_append_text [OF assms, of "escape_text t"], of "[]"]
    by (simp add: new_LogFormatter_parse)
qed

theorem trailing_text_is_dropped_witness:
  "fmt_items (new_LogFormatter ''%m done'') = [MessageFormatItem]"
  using trailing_text_is_dropped [of "[Conv (CHR ''m'')]" "'' done''"]
    parse_render_segments [of "[Conv (CHR ''m'')]" "[]" "[]"]
  by (simp add: conversions_def new_LogFormatter_parse flush_str_def)

text \<open>
  A date conversion without a format at the very end of the pattern prints nothing and is no
  error: the formatter has the items of the pattern without it (the literal text before it
  becomes an item).
\<close>

theorem final_date_is_dropped:
  assumes "segs_ok sgs ''%d''"
  shows "fmt_items (new_LogFormatter (render_segments sgs @ ''%d'')) =
      flush_str (seg_pending sgs []) (seg_items sgs []) \<and>
    \<not> fmt_error (new_LogFormatter (render_segments sgs @ ''%d''))"
  using parse_render_segments [OF assms, of "[]"]
  by (simp add: new_LogFormatter_parse parse_pattern_date_end flush_str_append [of _ "seg_items _ _"])

theorem final_date_is_dropped_witness:
  "fmt_items (new_LogFormatter ''%m at %d'') = [MessageFormatItem, StringFormatItem '' at '']"
  using final_date_is_dropped [of "[Conv (CHR ''m''), Text '' at '']"]
  by (simp add: conversions_def flush_str_def)

definition lower_case :: "string \<Rightarrow> string" where
  "lower_case = map (\<lambda>c. if of_char c \<in> {65..90 :: nat} then char_of (of_char c + 32 :: nat) else c)"

text \<open>
  The names that \<open>LogLevel::FromString\<close> knows are those that \<open>ToString\<close> prints, in upper
  case or in lower case; every other string is the unknown level.
\<close>

theorem level_names:
  "LogLevel_FromString s =
     (case find (\<lambda>k. s = LogLevel_ToString k \<or> s = lower_case (LogLevel_ToString k))
        [DEBUG, INFO, WARN, ERROR, FATAL] of
        Some k \<Rightarrow> k
      | None \<Rightarrow> UNKONW) \<and>
   LogLevel_FromString (LogLevel_ToString l) = l"
proof -
  have lc: "lower_case ''DEBUG'' = ''debug''" "lower_case ''INFO'' = ''info''"
    "lower_case ''WARN'' = ''warn''" "lower_case ''ERROR'' = ''error''" "lower_case ''FATAL'' = ''fatal''"
    by code_simp+
  show ?thesis
  proof (intro conjI FromString_ToString)
    show "LogLevel_FromString s =
       (case find (\<lambda>k. s = LogLevel_ToString k \<or> s = lower_case (LogLevel_ToString k))
          [DEBUG, INFO, WARN, ERROR, FATAL] of
          Some k \<Rightarrow> k
        | None \<Rightarrow> UNKONW)"
    proof (cases "s \<in> {''debug'', ''DEBUG'', ''info'', ''INFO'', ''warn'', ''WARN'', ''error'',
        ''ERROR'', ''fatal'', ''FATAL''}")
      case True
      then show ?thesis by (auto simp: LogLevel_FromString_def lc)
    next
      case False
      then show ?thesis by (simp add: LogLevel_FromString_def lc)
    qed
  qed
qed

end
