(* ===== verification/Ordered_Containers.thy ===== *)
theory Ordered_Containers
  imports Zcs_Prelude "HOL-Library.Char_ord" "HOL-Library.List_Lexorder"
begin

text \<open>
  The ordered containers of the standard library as the sources use them: \<open>std::map\<close> and
  \<open>std::set\<close> are lists kept in the order of their comparison. Two keys are the same key when
  neither is less than the other, which for the \<open>operator<\<close> of \<open>LogDefine\<close> (it compares
  names only) is not equality. The locale \<open>strict_weak_order\<close> is the requirement that C++ puts
  on the comparison; the laws of the containers are proved once in it.
\<close>

section \<open>Operations\<close>

text \<open>\<open>find\<close>, \<open>m[k] = v\<close>, \<open>insert(make_pair(k, v))\<close> and \<open>erase(k)\<close> of a map.\<close>

fun map_find :: "('k \<Rightarrow> 'k \<Rightarrow> bool) \<Rightarrow> 'k \<Rightarrow> ('k \<times> 'v) list \<Rightarrow> 'v option" where
  "map_find lt k [] = None"
| "map_find lt k ((k', v) # m) =
     (if lt k' k then map_find lt k m else if lt k k' then None else Some v)"

fun map_set :: "('k \<Rightarrow> 'k \<Rightarrow> bool) \<Rightarrow> 'k \<Rightarrow> 'v \<Rightarrow> ('k \<times> 'v) list \<Rightarrow> ('k \<times> 'v) list" where
  "map_set lt k v [] = [(k, v)]"
| "map_set lt k v ((k', v') # m) =
     (if lt k' k then (k', v') # map_set lt k v m
      else if lt k k' then (k, v) # (k', v') # m else (k', v) # m)"

fun map_insert :: "('k \<Rightarrow> 'k \<Rightarrow> bool) \<Rightarrow> 'k \<Rightarrow> 'v \<Rightarrow> ('k \<times> 'v) list \<Rightarrow> ('k \<times> 'v) list" where
  "map_insert lt k v [] = [(k, v)]"
| "map_insert lt k v ((k', v') # m) =
     (if lt k' k then (k', v') # map_insert lt k v m
      else if lt k k' then (k, v) # (k', v') # m else (k', v') # m)"

fun map_erase :: "('k \<Rightarrow> 'k \<Rightarrow> bool) \<Rightarrow> 'k \<Rightarrow> ('k \<times> 'v) list \<Rightarrow> ('k \<times> 'v) list" where
  "map_erase lt k [] = []"
| "map_erase lt k ((k', v') # m) =
     (if lt k' k then (k', v') # map_erase lt k m else if lt k k' then (k', v') # m else m)"

definition map_sorted :: "('k \<Rightarrow> 'k \<Rightarrow> bool) \<Rightarrow> ('k \<times> 'v) list \<Rightarrow> bool" where
  "map_sorted lt m = sorted_wrt lt (map fst m)"

definition same_key :: "('k \<Rightarrow> 'k \<Rightarrow> bool) \<Rightarrow> 'k \<Rightarrow> 'k \<Rightarrow> bool" where
  "same_key lt a b \<longleftrightarrow> \<not> lt a b \<and> \<not> lt b a"

definition map_keys :: "('k \<times> 'v) list \<Rightarrow> 'k set" where
  "map_keys m = fst ` set m"

lemma map_keys_simps [simp]:
  "map_keys [] = {}"
  "map_keys (p # m) = insert (fst p) (map_keys m)"
  "map_keys (m @ n) = map_keys m \<union> map_keys n"
  by (auto simp: map_keys_def)

lemma map_sorted_simps [simp]:
  "map_sorted lt []"
  "map_sorted lt (p # m) \<longleftrightarrow> (\<forall>j \<in> map_keys m. lt (fst p) j) \<and> map_sorted lt m"
  by (auto simp: map_sorted_def map_keys_def)

lemma map_sorted_append:
  "map_sorted lt (m @ n) \<longleftrightarrow>
    map_sorted lt m \<and> map_sorted lt n \<and> (\<forall>i \<in> map_keys m. \<forall>j \<in> map_keys n. lt i j)"
  by (induction m) auto

lemma map_keys_entry: "(k, v) \<in> set m \<Longrightarrow> k \<in> map_keys m"
  unfolding map_keys_def by (rule in_fst_image)

text \<open>\<open>insert\<close> and \<open>find\<close> of a set; an element already there is kept.\<close>

fun set_insert :: "('a \<Rightarrow> 'a \<Rightarrow> bool) \<Rightarrow> 'a \<Rightarrow> 'a list \<Rightarrow> 'a list" where
  "set_insert lt x [] = [x]"
| "set_insert lt x (y # ys) =
     (if lt y x then y # set_insert lt x ys else if lt x y then x # y # ys else y # ys)"

fun set_find :: "('a \<Rightarrow> 'a \<Rightarrow> bool) \<Rightarrow> 'a \<Rightarrow> 'a list \<Rightarrow> 'a option" where
  "set_find lt x [] = None"
| "set_find lt x (y # ys) = (if lt y x then set_find lt x ys else if lt x y then None else Some y)"

section \<open>The laws of a strict weak order\<close>

locale strict_weak_order =
  fixes lt :: "'k \<Rightarrow> 'k \<Rightarrow> bool"
  assumes irrefl: "\<not> lt a a"
    and trans: "lt a b \<Longrightarrow> lt b c \<Longrightarrow> lt a c"
    and weak: "lt a c \<Longrightarrow> lt a b \<or> lt b c"
begin

lemma asym: "lt a b \<Longrightarrow> \<not> lt b a"
  using irrefl trans by blast

lemma same_key_refl [simp]: "same_key lt a a"
  by (simp add: same_key_def irrefl)

lemma same_key_lt: "same_key lt a b \<Longrightarrow> lt a c = lt b c" "same_key lt a b \<Longrightarrow> lt c a = lt c b"
  using weak unfolding same_key_def by blast+

lemma map_find_set_same: "map_find lt k (map_set lt k v m) = Some v"
  by (induction m) (auto simp: irrefl split: if_splits)

lemma map_find_set_other:
  "\<not> same_key lt j k \<Longrightarrow> map_find lt j (map_set lt k v m) = map_find lt j m"
proof (induction m)
  case Nil
  then show ?case by (auto simp: same_key_def)
next
  case (Cons p m)
  obtain k' w where p: "p = (k', w)" by (cases p)
  consider "lt k' k" | "\<not> lt k' k" "lt k k'" | "same_key lt k k'" by (auto simp: same_key_def)
  then show ?case
  proof cases
    case 1
    with Cons p show ?thesis by simp
  next
    case 2
    then have "lt j k \<Longrightarrow> lt j k' \<and> \<not> lt k' j" using trans asym by blast
    with 2 p Cons.prems show ?thesis by (auto simp: same_key_def)
  next
    case 3
    then have "\<not> same_key lt j k'"
      using Cons.prems same_key_lt [OF 3] by (auto simp: same_key_def)
    with 3 p show ?thesis by (auto simp: same_key_def)
  qed
qed

lemma map_set_keys: "map_keys (map_set lt k v m) \<subseteq> insert k (map_keys m)"
proof (induction m)
  case Nil
  then show ?case by simp
next
  case (Cons p m)
  then show ?case by (cases p; cases "lt (fst p) k"; cases "lt k (fst p)") auto
qed

lemma map_insert_keys: "map_keys (map_insert lt k v m) \<subseteq> insert k (map_keys m)"
proof (induction m)
  case Nil
  then show ?case by simp
next
  case (Cons p m)
  then show ?case by (cases p; cases "lt (fst p) k"; cases "lt k (fst p)") auto
qed

lemma map_erase_keys: "map_keys (map_erase lt k m) \<subseteq> map_keys m"
proof (induction m)
  case Nil
  then show ?case by simp
next
  case (Cons p m)
  then show ?case by (cases p; cases "lt (fst p) k"; cases "lt k (fst p)") auto
qed

lemma map_sorted_set: "map_sorted lt m \<Longrightarrow> map_sorted lt (map_set lt k v m)"
proof (induction m)
  case Nil
  then show ?case by simp
next
  case (Cons p m)
  then show ?case
    using map_set_keys [of k v m] by (cases p) (auto intro: trans)
qed

lemma map_sorted_insert: "map_sorted lt m \<Longrightarrow> map_sorted lt (map_insert lt k v m)"
proof (induction m)
  case Nil
  then show ?case by simp
next
  case (Cons p m)
  then show ?case
    using map_insert_keys [of k v m] by (cases p) (auto intro: trans)
qed

lemma map_sorted_erase: "map_sorted lt m \<Longrightarrow> map_sorted lt (map_erase lt k m)"
proof (induction m)
  case Nil
  then show ?case by simp
next
  case (Cons p m)
  then show ?case
    using map_erase_keys [of k m] by (cases p) auto
qed

lemma map_find_Some_in: "map_find lt k m = Some v \<Longrightarrow> \<exists>k'. (k', v) \<in> set m \<and> same_key lt k' k"
  by (induction m) (auto simp: same_key_def split: if_splits)

text \<open>In a sorted map every entry is found under its key, and a missing key is not stored.\<close>

lemma map_find_entry: "map_sorted lt m \<Longrightarrow> (k, v) \<in> set m \<Longrightarrow> map_find lt k m = Some v"
proof (induction m)
  case Nil
  then show ?case by simp
next
  case (Cons p m)
  show ?case
  proof (cases "p = (k, v)")
    case True
    then show ?thesis by (simp add: irrefl)
  next
    case False
    with Cons have "lt (fst p) k" by (force dest: map_keys_entry)
    with Cons False show ?thesis by (cases p) auto
  qed
qed

lemma map_find_None_iff:
  "map_sorted lt m \<Longrightarrow> map_find lt k m = None \<longleftrightarrow> (\<forall>k' \<in> map_keys m. \<not> same_key lt k' k)"
proof (induction m)
  case Nil
  then show ?case by simp
next
  case (Cons p m)
  obtain k' v where p: "p = (k', v)" by (cases p)
  have less: "lt k' j" if "j \<in> map_keys m" for j
    using Cons.prems that p by auto
  have "map_sorted lt m" using Cons.prems by simp
  note IH = Cons.IH [OF this]
  consider "lt k' k" | "lt k k'" | "same_key lt k' k" by (auto simp: same_key_def)
  then show ?case
  proof cases
    case 1
    with IH p show ?thesis using asym by (auto simp: same_key_def)
  next
    case 2
    then have "lt k j" if "j \<in> map_keys m" for j using less [OF that] trans by blast
    with 2 p show ?thesis using asym by (auto simp: same_key_def)
  next
    case 3
    with p show ?thesis by (auto simp: same_key_def)
  qed
qed

lemma map_find_erase_same: "map_sorted lt m \<Longrightarrow> map_find lt k (map_erase lt k m) = None"
proof (induction m)
  case Nil
  then show ?case by simp
next
  case (Cons p m)
  obtain k' v where p: "p = (k', v)" by (cases p)
  have less: "lt k' j" if "j \<in> map_keys m" for j
    using Cons.prems that p by auto
  have m: "map_sorted lt m" using Cons.prems by simp
  show ?case
  proof (cases "same_key lt k' k")
    case True
    then have "lt k j" if "j \<in> map_keys m" for j
      using less [OF that] same_key_lt by blast
    then have "\<forall>j \<in> map_keys m. \<not> same_key lt j k" by (auto simp: same_key_def)
    with True p show ?thesis by (simp add: same_key_def map_find_None_iff [OF m])
  next
    case False
    with Cons.IH [OF m] p asym show ?thesis by (auto simp: same_key_def)
  qed
qed

lemma map_find_erase_other:
  "map_sorted lt m \<Longrightarrow> \<not> same_key lt j k \<Longrightarrow> map_find lt j (map_erase lt k m) = map_find lt j m"
proof (induction m)
  case Nil
  then show ?case by simp
next
  case (Cons p m)
  obtain k' v where p: "p = (k', v)" by (cases p)
  have less: "lt k' i" if "i \<in> map_keys m" for i
    using Cons.prems that p by auto
  have m: "map_sorted lt m" using Cons.prems by simp
  show ?case
  proof (cases "same_key lt k' k")
    case True
    with Cons.prems(2) have "\<not> same_key lt j k'"
      using same_key_lt [of k' k j] by (auto simp: same_key_def)
    moreover have "map_find lt j m = None" if "lt j k'"
      using map_find_None_iff [OF m, of j] less trans [OF that] asym
      by (auto simp: same_key_def)
    ultimately show ?thesis
      using True p by (auto simp: same_key_def)
  next
    case False
    with Cons.IH [OF m Cons.prems(2)] p show ?thesis by (auto simp: same_key_def)
  qed
qed

lemma set_insert_keys: "set (set_insert lt x xs) \<subseteq> insert x (set xs)" "set xs \<subseteq> set (set_insert lt x xs)"
  by (induction xs) auto

lemma sorted_set_insert: "sorted_wrt lt xs \<Longrightarrow> sorted_wrt lt (set_insert lt x xs)"
proof (induction xs)
  case Nil
  then show ?case by simp
next
  case (Cons y ys)
  then show ?case using set_insert_keys(1) [of x ys] by (auto intro: trans)
qed

lemma set_find_Some: "set_find lt x xs = Some y \<Longrightarrow> y \<in> set xs \<and> same_key lt y x"
  by (induction xs) (auto simp: same_key_def split: if_splits)

lemma set_find_None_iff:
  "sorted_wrt lt xs \<Longrightarrow> set_find lt x xs = None \<longleftrightarrow> (\<forall>y \<in> set xs. \<not> same_key lt y x)"
proof (induction xs)
  case Nil
  then show ?case by simp
next
  case (Cons y ys)
  consider "lt y x" | "lt x y" | "same_key lt y x" by (auto simp: same_key_def)
  then show ?case
  proof cases
    case 1
    with Cons asym show ?thesis by (auto simp: same_key_def)
  next
    case 2
    with Cons.prems have "lt x z" if "z \<in> set ys" for z using trans that by auto
    with 2 show ?thesis using asym by (auto simp: same_key_def)
  next
    case 3
    then show ?thesis by (auto simp: same_key_def)
  qed
qed

lemma set_find_member: "sorted_wrt lt xs \<Longrightarrow> x \<in> set xs \<Longrightarrow> set_find lt x xs = Some x"
  by (induction xs) (auto simp: irrefl)

text \<open>Inserting the elements of a sorted list one after the other gives the list back.\<close>

lemma set_insert_above: "(\<And>y. y \<in> set xs \<Longrightarrow> lt y x) \<Longrightarrow> set_insert lt x xs = xs @ [x]"
  by (induction xs) auto

lemma fold_set_insert_sorted:
  "sorted_wrt lt (ys @ xs) \<Longrightarrow> fold (set_insert lt) xs ys = ys @ xs"
proof (induction xs arbitrary: ys)
  case Nil
  then show ?case by simp
next
  case (Cons x xs)
  have "set_insert lt x ys = ys @ [x]"
    using Cons.prems by (intro set_insert_above) (auto simp: sorted_wrt_append)
  with Cons show ?case by simp
qed

lemma map_insert_above: "(\<And>j. j \<in> map_keys m \<Longrightarrow> lt j k) \<Longrightarrow> map_insert lt k v m = m @ [(k, v)]"
  by (induction m) auto

lemma map_set_above: "(\<And>j. j \<in> map_keys m \<Longrightarrow> lt j k) \<Longrightarrow> map_set lt k v m = m @ [(k, v)]"
  by (induction m) auto

lemma map_erase_last: "(\<And>j. j \<in> map_keys m \<Longrightarrow> lt j k) \<Longrightarrow> map_erase lt k (m @ [(k, v)]) = m"
  by (induction m) (auto simp: irrefl)

lemma fold_map_insert_sorted:
  "map_sorted lt (m @ n) \<Longrightarrow> fold (\<lambda>(k, v). map_insert lt k v) n m = m @ n"
proof (induction n arbitrary: m)
  case Nil
  then show ?case by simp
next
  case (Cons p n)
  obtain k v where p: "p = (k, v)" by (cases p)
  have "map_insert lt k v m = m @ [(k, v)]"
    using Cons.prems p by (intro map_insert_above) (auto simp: map_sorted_append)
  with Cons p show ?case by simp
qed

end

section \<open>The orders the sources use\<close>

text \<open>
  \<open>std::string\<close> compares bytes as unsigned characters, lexicographically; \<open>std::map\<close> with
  \<open>uint64_t\<close> keys compares unsigned.
\<close>

definition string_lt :: "string \<Rightarrow> string \<Rightarrow> bool" where
  "string_lt a b = (a < b)"

definition u64_lt :: "64 word \<Rightarrow> 64 word \<Rightarrow> bool" where
  "u64_lt a b = (a < b)"

interpretation string_order: strict_weak_order string_lt
  by unfold_locales (auto simp: string_lt_def)

interpretation u64_order: strict_weak_order u64_lt
  by unfold_locales (auto simp: u64_lt_def)

lemma string_same_key [simp]: "same_key string_lt a b \<longleftrightarrow> a = b"
  by (auto simp: same_key_def string_lt_def)

lemma u64_same_key [simp]: "same_key u64_lt a b \<longleftrightarrow> a = b"
  by (auto simp: same_key_def u64_lt_def)

end
