(* ===== verification/Log_System.thy ===== *)
theory Log_System
  imports Log_Format Ordered_Containers
begin

text \<open>
  Appenders, loggers and the logger manager (\<open>src/src/log.h\<close>, \<open>src/src/log.cpp\<close>).
  Loggers and appenders are shared through \<open>std::shared_ptr\<close> and mutated in place, so they live
  in a store: an address is an index into the list of loggers or of appenders, allocation appends.
  A formatter is never changed once it is built, so a pointer to it is its value or null; that it
  can be destroyed while it is in use matters with several threads only, see \<open>Log_Threads\<close>.
\<close>

section \<open>State\<close>

text \<open>
  \<open>std::ofstream\<close>: whether its \<open>std::filebuf\<close> is open, whether \<open>fail()\<close> is set, and the characters in
  the \<open>filebuf\<close> that have not been written to the file yet.
\<close>

record ofstream =
  os_open :: bool
  os_fail :: bool
  os_buf :: string

datatype appender_class =
    StdoutLogAppender
  | FileLogAppender string ofstream "64 word" \<comment> \<open>\<open>filename_\<close>, \<open>filestream_\<close>, \<open>last_time_\<close>\<close>

record log_appender =
  ap_level :: level
  ap_has_formatter :: bool
  ap_formatter :: "log_formatter option"
  ap_class :: appender_class

record logger =
  lg_name :: string
  lg_level :: level
  lg_appenders :: "nat list"
  lg_root :: "nat option"
  lg_formatter :: "log_formatter option"

text \<open>
  The logging system: the two stores, the singleton \<open>LoggerManager\<close>, what has been written to
  standard output, for each file what the streams opened on it have taken and what of that they
  have written to it (\<open>disk\<close>; the rest is in their buffers or lost), and the number of calls made
  to the environment so far.
\<close>

record log_sys =
  loggers :: "logger list"
  appenders :: "log_appender list"
  mgr_root :: nat
  mgr_loggers :: "(string \<times> nat) list"
  cout :: string
  files :: "string \<Rightarrow> string"
  disk :: "string \<Rightarrow> string"
  ticks :: nat

text \<open>
  The environment of a thread: the text of \<open>strftime\<close>, the file system, the clock \<open>time(0)\<close> read by
  the n-th call to the environment, and the thread id, fiber id, thread name and \<open>__FILE__\<close> that the
  logging macros put into an event. Of the file system and the buffering of the library: whether
  the n-th call can open a file, take all characters of a \<open><<\<close>, or write the rest of a buffer when
  it closes a file; how many characters a \<open><<\<close> that fails has taken before; and how many
  characters from the front of the buffer a \<open><<\<close>, or a \<open>close\<close> that fails, writes to the file.
\<close>

record log_env =
  env_time_text :: "string \<Rightarrow> 64 word \<Rightarrow> string"
  env_open_ok :: "nat \<Rightarrow> string \<Rightarrow> bool"
  env_write_ok :: "nat \<Rightarrow> string \<Rightarrow> bool"
  env_close_ok :: "nat \<Rightarrow> string \<Rightarrow> bool"
  env_taken :: "nat \<Rightarrow> string \<Rightarrow> nat"
  env_written :: "nat \<Rightarrow> string \<Rightarrow> nat"
  env_clock :: "nat \<Rightarrow> 64 word"
  env_thread_id :: "32 word"
  env_fiber_id :: "32 word"
  env_thread_name :: string
  env_file :: string

definition logger_name :: "log_sys \<Rightarrow> nat \<Rightarrow> string option" where
  "logger_name s l = (if l < length (loggers s) then Some (lg_name (loggers s ! l)) else None)"

definition update_logger :: "nat \<Rightarrow> (logger \<Rightarrow> logger) \<Rightarrow> log_sys \<Rightarrow> log_sys" where
  "update_logger l f s = s\<lparr>loggers := (loggers s)[l := f (loggers s ! l)]\<rparr>"

definition update_appender :: "nat \<Rightarrow> (log_appender \<Rightarrow> log_appender) \<Rightarrow> log_sys \<Rightarrow> log_sys" where
  "update_appender a f s = s\<lparr>appenders := (appenders s)[a := f (appenders s ! a)]\<rparr>"

definition print_cout :: "log_sys \<Rightarrow> string \<Rightarrow> log_sys" where
  "print_cout s t = s\<lparr>cout := cout s @ t\<rparr>"

section \<open>File streams\<close>

text \<open>
  \<open>close()\<close> writes the buffer, all of it if \<open>ok\<close> and its first \<open>k\<close> characters otherwise; the file is
  closed and the buffer is gone in any case. The text that reaches the file, and the stream.
\<close>

definition ofstream_close :: "bool \<Rightarrow> nat \<Rightarrow> ofstream \<Rightarrow> string \<times> ofstream" where
  "ofstream_close ok k st =
     (if \<not> os_open st then ([], st\<lparr>os_fail := True\<rparr>)
      else if ok then (os_buf st, st\<lparr>os_open := False, os_buf := []\<rparr>)
      else (take k (os_buf st), st\<lparr>os_open := False, os_fail := True, os_buf := []\<rparr>))"

text \<open>\<open>open()\<close> fails on a stream that is open, and clears the state when it succeeds.\<close>

definition ofstream_open :: "bool \<Rightarrow> ofstream \<Rightarrow> ofstream" where
  "ofstream_open ok st =
     (if os_open st then st\<lparr>os_fail := True\<rparr>
      else if ok then st\<lparr>os_open := True, os_fail := False\<rparr>
      else st\<lparr>os_fail := True\<rparr>)"

definition write_disk :: "string \<Rightarrow> string \<Rightarrow> log_sys \<Rightarrow> log_sys" where
  "write_disk fn t s = s\<lparr>disk := (disk s)(fn := disk s fn @ t)\<rparr>"

text \<open>
  \<open>filestream_ << t\<close> for the appender at address \<open>a\<close>: the \<open>filebuf\<close> takes the characters of \<open>t\<close>, or
  some of them and the stream fails, and writes what it likes from the front of its buffer.
\<close>

definition file_put :: "log_env \<Rightarrow> nat \<Rightarrow> log_sys \<Rightarrow> string \<Rightarrow> log_sys" where
  "file_put env a s t =
     (case ap_class (appenders s ! a) of
        StdoutLogAppender \<Rightarrow> s
      | FileLogAppender fn st lt \<Rightarrow>
          if os_fail st then s
          else if t = [] then s
          else
            let n = ticks s;
                ok = (os_open st \<and> env_write_ok env n fn);
                taken = (if ok then t else if os_open st then take (env_taken env n fn) (butlast t) else []);
                buf = os_buf st @ taken;
                k = env_written env n fn;
                st1 = st\<lparr>os_fail := \<not> ok, os_buf := drop k buf\<rparr>
            in (write_disk fn (take k buf)
                  (update_appender a (\<lambda>ap. ap\<lparr>ap_class := FileLogAppender fn st1 lt\<rparr>) s))
                 \<lparr>files := (files s)(fn := files s fn @ taken), ticks := Suc n\<rparr>)"

definition file_good :: "nat \<Rightarrow> log_sys \<Rightarrow> bool" where
  "file_good a s =
     (case ap_class (appenders s ! a) of
        StdoutLogAppender \<Rightarrow> False
      | FileLogAppender fn st lt \<Rightarrow> \<not> os_fail st)"

section \<open>Appenders\<close>

definition new_StdoutLogAppender :: log_appender where
  "new_StdoutLogAppender =
     \<lparr>ap_level = DEBUG, ap_has_formatter = False, ap_formatter = None, ap_class = StdoutLogAppender\<rparr>"

definition FileLogAppender_Reopen :: "log_env \<Rightarrow> nat \<Rightarrow> log_sys \<Rightarrow> bool \<times> log_sys" where
  "FileLogAppender_Reopen env a s =
     (case ap_class (appenders s ! a) of
        StdoutLogAppender \<Rightarrow> (False, s)
      | FileLogAppender fn st lt \<Rightarrow>
          let n = ticks s;
              (out, st1) = (if \<not> os_fail st then ofstream_close (env_close_ok env n fn) (env_written env n fn) st
                            else ([], st));
              st2 = ofstream_open (env_open_ok env n fn) st1
          in (os_open st2,
              (write_disk fn out
                 (update_appender a (\<lambda>ap. ap\<lparr>ap_class := FileLogAppender fn st2 lt\<rparr>) s))
                \<lparr>ticks := Suc n\<rparr>))"

text \<open>Constructors allocate: the address of the new object and the new state.\<close>

definition alloc_appender :: "log_appender \<Rightarrow> log_sys \<Rightarrow> nat \<times> log_sys" where
  "alloc_appender ap s = (length (appenders s), s\<lparr>appenders := appenders s @ [ap]\<rparr>)"

definition new_FileLogAppender :: "log_env \<Rightarrow> string \<Rightarrow> log_sys \<Rightarrow> nat \<times> log_sys" where
  "new_FileLogAppender env filename s =
     (let (a, s1) = alloc_appender
            \<lparr>ap_level = DEBUG, ap_has_formatter = False, ap_formatter = None,
             ap_class = FileLogAppender filename \<lparr>os_open = False, os_fail = False, os_buf = []\<rparr> 0\<rparr> s
      in (a, snd (FileLogAppender_Reopen env a s1)))"

definition LogAppender_SetFormatter :: "nat \<Rightarrow> log_formatter option \<Rightarrow> log_sys \<Rightarrow> log_sys" where
  "LogAppender_SetFormatter a f s =
     update_appender a (\<lambda>ap. ap\<lparr>ap_formatter := f, ap_has_formatter := (f \<noteq> None)\<rparr>) s"

definition LogAppender_GetFormatter :: "nat \<Rightarrow> log_sys \<Rightarrow> log_formatter option" where
  "LogAppender_GetFormatter a s = ap_formatter (appenders s ! a)"

definition LogAppender_GetLevel :: "nat \<Rightarrow> log_sys \<Rightarrow> level" where
  "LogAppender_GetLevel a s = ap_level (appenders s ! a)"

definition LogAppender_SetLevel :: "nat \<Rightarrow> level \<Rightarrow> log_sys \<Rightarrow> log_sys" where
  "LogAppender_SetLevel a lvl s = update_appender a (\<lambda>ap. ap\<lparr>ap_level := lvl\<rparr>) s"

definition StdoutLogAppender_Log ::
  "log_env \<Rightarrow> nat \<Rightarrow> level \<Rightarrow> log_event \<Rightarrow> log_sys \<Rightarrow> (unit, log_sys) result"
where
  "StdoutLogAppender_Log env a lvl e s =
     (case ap_formatter (appenders s ! a) of
        None \<Rightarrow> Crash NullDeref
      | Some f \<Rightarrow>
          (case LogFormatter_Format_ostream print_cout (env_time_text env) (logger_name s) e
                  (fmt_items f) s of
             None \<Rightarrow> Crash NullDeref
           | Some s1 \<Rightarrow> Ok () s1))"

definition FileLogAppender_Log ::
  "log_env \<Rightarrow> nat \<Rightarrow> level \<Rightarrow> log_event \<Rightarrow> log_sys \<Rightarrow> (unit, log_sys) result"
where
  "FileLogAppender_Log env a lvl e s =
     (case ap_class (appenders s ! a) of
        StdoutLogAppender \<Rightarrow> Ok () s
      | FileLogAppender fn st lt \<Rightarrow>
          let now = ev_time e;
              s1 = (if lt + 3 \<le> now then
                      update_appender a
                        (\<lambda>ap. case ap_class ap of
                           FileLogAppender fn' st' lt' \<Rightarrow> ap\<lparr>ap_class := FileLogAppender fn' st' now\<rparr>
                         | StdoutLogAppender \<Rightarrow> ap)
                        (snd (FileLogAppender_Reopen env a s))
                    else s)
          in (case ap_formatter (appenders s1 ! a) of
                None \<Rightarrow> Crash NullDeref
              | Some f \<Rightarrow>
                  (case LogFormatter_Format_ostream (file_put env a) (env_time_text env)
                          (logger_name s1) e (fmt_items f) s1 of
                     None \<Rightarrow> Crash NullDeref
                   | Some s2 \<Rightarrow>
                       Ok () (if file_good a s2 then s2 else print_cout s2 (''error'' @ [CHR 0x0A])))))"

text \<open>The virtual call \<open>iter->Log(self, level, event)\<close>.\<close>

definition LogAppender_Log ::
  "log_env \<Rightarrow> nat \<Rightarrow> level \<Rightarrow> log_event \<Rightarrow> log_sys \<Rightarrow> (unit, log_sys) result"
where
  "LogAppender_Log env a lvl e s =
     (if length (appenders s) \<le> a then Crash NullDeref
      else case ap_class (appenders s ! a) of
        StdoutLogAppender \<Rightarrow> StdoutLogAppender_Log env a lvl e s
      | FileLogAppender fn st lt \<Rightarrow> FileLogAppender_Log env a lvl e s)"

section \<open>Loggers\<close>

definition new_Logger :: "string \<Rightarrow> logger" where
  "new_Logger name =
     \<lparr>lg_name = name, lg_level = DEBUG, lg_appenders = [], lg_root = None,
      lg_formatter = Some (new_LogFormatter default_pattern)\<rparr>"

definition alloc_logger :: "logger \<Rightarrow> log_sys \<Rightarrow> nat \<times> log_sys" where
  "alloc_logger lg s = (length (loggers s), s\<lparr>loggers := loggers s @ [lg]\<rparr>)"

text \<open>
  \<open>Logger::Log\<close>. The mutex of the logger is held while the appenders run or while the root
  logger logs; \<open>held\<close> lists the loggers whose spin lock the calling thread holds. Taking one of
  them again never returns.
\<close>

function Logger_Log ::
  "log_env \<Rightarrow> nat list \<Rightarrow> nat \<Rightarrow> level \<Rightarrow> log_event \<Rightarrow> log_sys \<Rightarrow> (unit, log_sys) result"
where
  "Logger_Log env held l lvl e s =
     (if length (loggers s) \<le> l then Crash NullDeref
      else if l \<in> set held then Crash Deadlock
      else if lg_appenders (loggers s ! l) \<noteq> [] then
        for_each (\<lambda>a. LogAppender_Log env a lvl e) (lg_appenders (loggers s ! l)) s
      else
        (case lg_root (loggers s ! l) of
           None \<Rightarrow> Crash NullDeref
         | Some r \<Rightarrow> Logger_Log env (l # held) r lvl e s))"
  by pat_completeness auto
termination
proof (relation "measure (\<lambda>(env, held, l, lvl, e, s).
    card ({..<length (loggers s)} - set held))")
  fix env held l lvl e r and s :: log_sys
  assume "\<not> length (loggers s) \<le> l" and "l \<notin> set held"
  then have "l \<in> {..<length (loggers s)} - set held" by simp
  then have "card ({..<length (loggers s)} - set held - {l}) < card ({..<length (loggers s)} - set held)"
    by (intro card_Diff1_less) simp_all
  moreover have "{..<length (loggers s)} - set (l # held) = {..<length (loggers s)} - set held - {l}"
    by (simp only: list.set) (rule Diff_insert)
  ultimately show "((env, l # held, r, lvl, e, s), (env, held, l, lvl, e, s))
      \<in> measure (\<lambda>(env, held, l, lvl, e, s). card ({..<length (loggers s)} - set held))"
    by (simp only: in_measure split)
qed (rule wf_measure)

declare Logger_Log.simps [simp del]

definition Logger_AddAppender :: "nat \<Rightarrow> nat \<Rightarrow> log_sys \<Rightarrow> (unit, log_sys) result" where
  "Logger_AddAppender l a s =
     (if length (loggers s) \<le> l \<or> length (appenders s) \<le> a then Crash NullDeref
      else
        let s1 = (if ap_formatter (appenders s ! a) = None
                  then update_appender a (\<lambda>ap. ap\<lparr>ap_formatter := lg_formatter (loggers s ! l)\<rparr>) s
                  else s)
        in Ok () (update_logger l (\<lambda>lg. lg\<lparr>lg_appenders := lg_appenders lg @ [a]\<rparr>) s1))"

text \<open>The iterator loop of \<open>DelAppender\<close>: the first equal pointer is erased.\<close>

fun erase_first :: "nat \<Rightarrow> nat list \<Rightarrow> nat list" where
  "erase_first a [] = []"
| "erase_first a (b # bs) = (if b = a then bs else b # erase_first a bs)"

definition Logger_DelAppender :: "nat \<Rightarrow> nat \<Rightarrow> log_sys \<Rightarrow> (unit, log_sys) result" where
  "Logger_DelAppender l a s =
     (if length (loggers s) \<le> l then Crash NullDeref
      else Ok () (update_logger l (\<lambda>lg. lg\<lparr>lg_appenders := erase_first a (lg_appenders lg)\<rparr>) s))"

definition Logger_ClearAppender :: "nat \<Rightarrow> log_sys \<Rightarrow> (unit, log_sys) result" where
  "Logger_ClearAppender l s =
     (if length (loggers s) \<le> l then Crash NullDeref
      else Ok () (update_logger l (\<lambda>lg. lg\<lparr>lg_appenders := []\<rparr>) s))"

text \<open>\<open>SetFormatter(LogFormatter::ptr)\<close> and \<open>SetFormatter(const std::string&)\<close>.\<close>

fun inherit_formatter :: "log_formatter option \<Rightarrow> nat list \<Rightarrow> log_sys \<Rightarrow> log_sys" where
  "inherit_formatter f [] s = s"
| "inherit_formatter f (a # as) s =
     inherit_formatter f as
       (if \<not> ap_has_formatter (appenders s ! a)
        then update_appender a (\<lambda>ap. ap\<lparr>ap_formatter := f\<rparr>) s else s)"

definition Logger_SetFormatter_ptr :: "nat \<Rightarrow> log_formatter option \<Rightarrow> log_sys \<Rightarrow> (unit, log_sys) result"
where
  "Logger_SetFormatter_ptr l f s =
     (if length (loggers s) \<le> l then Crash NullDeref
      else
        let s1 = update_logger l (\<lambda>lg. lg\<lparr>lg_formatter := f\<rparr>) s
        in Ok () (inherit_formatter f (lg_appenders (loggers s1 ! l)) s1))"

definition Logger_SetFormatter :: "nat \<Rightarrow> string \<Rightarrow> log_sys \<Rightarrow> (unit, log_sys) result" where
  "Logger_SetFormatter l format s =
     (if length (loggers s) \<le> l then Crash NullDeref
      else
        let new_format = new_LogFormatter format
        in if fmt_error new_format then
             Ok () (print_cout s (''Logger SetFormatter name='' @ lg_name (loggers s ! l) @
                       '' value='' @ format @ '' invalid formatter'' @ [CHR 0x0A]))
           else Logger_SetFormatter_ptr l (Some new_format) s)"

definition Logger_GetFormatter :: "nat \<Rightarrow> log_sys \<Rightarrow> (log_formatter option, log_sys) result" where
  "Logger_GetFormatter l s =
     (if length (loggers s) \<le> l then Crash NullDeref else Ok (lg_formatter (loggers s ! l)) s)"

definition Logger_GetLevel :: "nat \<Rightarrow> log_sys \<Rightarrow> (level, log_sys) result" where
  "Logger_GetLevel l s =
     (if length (loggers s) \<le> l then Crash NullDeref else Ok (lg_level (loggers s ! l)) s)"

definition Logger_GetName :: "nat \<Rightarrow> log_sys \<Rightarrow> (string, log_sys) result" where
  "Logger_GetName l s =
     (if length (loggers s) \<le> l then Crash NullDeref else Ok (lg_name (loggers s ! l)) s)"

definition Logger_SetLevel :: "nat \<Rightarrow> level \<Rightarrow> log_sys \<Rightarrow> (unit, log_sys) result" where
  "Logger_SetLevel l lvl s =
     (if length (loggers s) \<le> l then Crash NullDeref
      else Ok () (update_logger l (\<lambda>lg. lg\<lparr>lg_level := lvl\<rparr>) s))"

section \<open>The logger manager\<close>

text \<open>The constructor of \<open>LoggerManager\<close>, run by the first \<open>LoggerMgr::GetInstance()\<close>.\<close>

definition new_LoggerManager :: "(unit, log_sys) result" where
  "new_LoggerManager =
     (let s0 = \<lparr>loggers = [], appenders = [], mgr_root = 0, mgr_loggers = [], cout = [],
                files = (\<lambda>_. []), disk = (\<lambda>_. []), ticks = 0\<rparr>;
          (r, s1) = alloc_logger (new_Logger ''root'') s0;
          (a, s2) = alloc_appender new_StdoutLogAppender (s1\<lparr>mgr_root := r\<rparr>)
      in and_then (Logger_AddAppender r a s2)
           (\<lambda>_ s3. Ok () (s3\<lparr>mgr_loggers :=
              map_set string_lt (lg_name (loggers s3 ! r)) r (mgr_loggers s3)\<rparr>)))"

definition LoggerManager_GetLogger :: "string \<Rightarrow> log_sys \<Rightarrow> nat \<times> log_sys" where
  "LoggerManager_GetLogger name s =
     (case map_find string_lt name (mgr_loggers s) of
        Some l \<Rightarrow> (l, s)
      | None \<Rightarrow>
          let (l, s1) = alloc_logger ((new_Logger name)\<lparr>lg_root := Some (mgr_root s)\<rparr>) s
          in (l, s1\<lparr>mgr_loggers := map_set string_lt name l (mgr_loggers s1)\<rparr>))"

definition LoggerManager_GetRoot :: "log_sys \<Rightarrow> nat" where
  "LoggerManager_GetRoot s = mgr_root s"

text \<open>
  \<open>Singleton<T>::GetInstance\<close>: the static object is built by the first call, with the constructor
  \<open>new\<close>, and is the same object for all calls. \<open>None\<close> is the state before that.
\<close>

definition Singleton_GetInstance :: "(unit, 't) result \<Rightarrow> 't option \<Rightarrow> (unit, 't) result" where
  "Singleton_GetInstance new v = (case v of None \<Rightarrow> new | Some x \<Rightarrow> Ok () x)"

definition LoggerMgr_GetInstance :: "log_sys option \<Rightarrow> (unit, log_sys) result" where
  "LoggerMgr_GetInstance = Singleton_GetInstance new_LoggerManager"

definition ZCS_LOG_ROOT :: "log_sys option \<Rightarrow> (nat, log_sys) result" where
  "ZCS_LOG_ROOT v = and_then (LoggerMgr_GetInstance v) (\<lambda>_ s. Ok (LoggerManager_GetRoot s) s)"

definition ZCS_LOG_NAME :: "string \<Rightarrow> log_sys option \<Rightarrow> (nat, log_sys) result" where
  "ZCS_LOG_NAME name v =
     and_then (LoggerMgr_GetInstance v)
       (\<lambda>_ s. let (l, s1) = LoggerManager_GetLogger name s in Ok l s1)"

section \<open>The logging macros\<close>

text \<open>
  \<open>ZCS_LEVEL(logger, level) << msg\<close>: the event is built, the message streamed into it, and the
  destructor of \<open>LogEventWrap\<close> logs it. \<open>ZCS_FMT_LEVEL\<close> builds the event at level
  \<open>DEBUG\<close> whatever level it is given.
\<close>

definition new_LogEvent :: "log_env \<Rightarrow> nat \<Rightarrow> level \<Rightarrow> 32 word \<Rightarrow> 64 word \<Rightarrow> log_event" where
  "new_LogEvent env l lvl line now =
     \<lparr>ev_file = env_file env, ev_line = line, ev_elapse = 0, ev_thread_id = env_thread_id env,
      ev_fiber_id = env_fiber_id env, ev_time = now, ev_thread_name = env_thread_name env,
      ev_logger = l, ev_level = lvl, ev_ss = []\<rparr>"

definition destroy_LogEventWrap :: "log_env \<Rightarrow> log_event \<Rightarrow> log_sys \<Rightarrow> (unit, log_sys) result" where
  "destroy_LogEventWrap env e s = Logger_Log env [] (ev_logger e) (ev_level e) e s"

definition ZCS_LEVEL ::
  "log_env \<Rightarrow> nat \<Rightarrow> level \<Rightarrow> 32 word \<Rightarrow> string \<Rightarrow> log_sys \<Rightarrow> (unit, log_sys) result"
where
  "ZCS_LEVEL env l lvl line msg s =
     (let e = new_LogEvent env l lvl line (env_clock env (ticks s))
      in destroy_LogEventWrap env (e\<lparr>ev_ss := ev_ss e @ msg\<rparr>) (s\<lparr>ticks := Suc (ticks s)\<rparr>))"

definition ZCS_FMT_LEVEL ::
  "log_env \<Rightarrow> nat \<Rightarrow> level \<Rightarrow> 32 word \<Rightarrow> string option \<Rightarrow> log_sys \<Rightarrow> (unit, log_sys) result"
where
  "ZCS_FMT_LEVEL env l lvl line buf s =
     (let e = new_LogEvent env l DEBUG line (env_clock env (ticks s))
      in destroy_LogEventWrap env (LogEvent_Format buf e) (s\<lparr>ticks := Suc (ticks s)\<rparr>))"

end
