(* ===== verification/Log_Facts.thy ===== *)
theory Log_Facts
  imports Log_System
begin

text \<open>
  The invariant of the logging system and the facts about its operations: which parts of the
  state an operation leaves alone, that every operation keeps the invariant, when logging
  crashes, and what arrives at the devices.
\<close>

named_theorems sys_simps "how the store accessors act on updated states"

section \<open>Accessors of the store\<close>

lemma update_logger_simps [sys_simps]:
  "appenders (update_logger l f s) = appenders s"
  "mgr_root (update_logger l f s) = mgr_root s"
  "mgr_loggers (update_logger l f s) = mgr_loggers s"
  "cout (update_logger l f s) = cout s"
  "files (update_logger l f s) = files s"
  "disk (update_logger l f s) = disk s"
  "ticks (update_logger l f s) = ticks s"
  "length (loggers (update_logger l f s)) = length (loggers s)"
  by (simp_all add: update_logger_def)

lemma update_appender_simps [sys_simps]:
  "loggers (update_appender a g s) = loggers s"
  "mgr_root (update_appender a g s) = mgr_root s"
  "mgr_loggers (update_appender a g s) = mgr_loggers s"
  "cout (update_appender a g s) = cout s"
  "files (update_appender a g s) = files s"
  "disk (update_appender a g s) = disk s"
  "ticks (update_appender a g s) = ticks s"
  "length (appenders (update_appender a g s)) = length (appenders s)"
  by (simp_all add: update_appender_def)

lemma nth_update_logger [sys_simps]:
  "m < length (loggers s) \<Longrightarrow>
    loggers (update_logger l f s) ! m = (if m = l then f (loggers s ! m) else loggers s ! m)"
  by (simp add: update_logger_def)

lemma nth_update_appender [sys_simps]:
  "b < length (appenders s) \<Longrightarrow>
    appenders (update_appender a g s) ! b = (if b = a then g (appenders s ! b) else appenders s ! b)"
  by (simp add: update_appender_def)

lemma print_cout_simps [sys_simps]:
  "loggers (print_cout s t) = loggers s"
  "appenders (print_cout s t) = appenders s"
  "mgr_root (print_cout s t) = mgr_root s"
  "mgr_loggers (print_cout s t) = mgr_loggers s"
  "cout (print_cout s t) = cout s @ t"
  "files (print_cout s t) = files s"
  "disk (print_cout s t) = disk s"
  "ticks (print_cout s t) = ticks s"
  by (simp_all add: print_cout_def)

lemma write_disk_simps [sys_simps]:
  "loggers (write_disk fn t s) = loggers s"
  "appenders (write_disk fn t s) = appenders s"
  "mgr_root (write_disk fn t s) = mgr_root s"
  "mgr_loggers (write_disk fn t s) = mgr_loggers s"
  "cout (write_disk fn t s) = cout s"
  "files (write_disk fn t s) = files s"
  "disk (write_disk fn t s) = (disk s)(fn := disk s fn @ t)"
  "ticks (write_disk fn t s) = ticks s"
  by (simp_all add: write_disk_def)

lemma logger_name_cong: "loggers s = loggers t \<Longrightarrow> logger_name s = logger_name t"
  by (simp add: logger_name_def fun_eq_iff)

section \<open>What logging leaves alone\<close>

text \<open>
  Writing a record changes the stream and the reopening time of a file appender and what the
  devices hold, nothing else.
\<close>

fun class_frame :: "appender_class \<Rightarrow> appender_class \<Rightarrow> bool" where
  "class_frame StdoutLogAppender StdoutLogAppender = True"
| "class_frame (FileLogAppender fn st lt) (FileLogAppender fn' st' lt') =
     (fn' = fn \<and> (os_open st \<or> os_fail st \<longrightarrow> os_open st' \<or> os_fail st'))"
| "class_frame _ _ = False"

definition appender_frame :: "log_appender \<Rightarrow> log_appender \<Rightarrow> bool" where
  "appender_frame ap ap' \<longleftrightarrow>
     ap_level ap' = ap_level ap \<and> ap_has_formatter ap' = ap_has_formatter ap \<and>
     ap_formatter ap' = ap_formatter ap \<and> class_frame (ap_class ap) (ap_class ap')"

definition log_frame :: "log_sys \<Rightarrow> log_sys \<Rightarrow> bool" where
  "log_frame s s' \<longleftrightarrow>
     loggers s' = loggers s \<and> mgr_root s' = mgr_root s \<and> mgr_loggers s' = mgr_loggers s \<and>
     list_all2 appender_frame (appenders s) (appenders s')"

lemma class_frame_refl [simp]: "class_frame c c"
  by (cases c) auto

lemma class_frame_trans: "class_frame c d \<Longrightarrow> class_frame d e \<Longrightarrow> class_frame c e"
  by (cases c; cases d; cases e) auto

lemma appender_frame_refl [simp]: "appender_frame ap ap"
  by (simp add: appender_frame_def)

lemma appender_frame_trans:
  "appender_frame a b \<Longrightarrow> appender_frame b c \<Longrightarrow> appender_frame a c"
  by (auto simp: appender_frame_def intro: class_frame_trans)

lemma log_frame_refl [simp]: "log_frame s s"
  by (simp add: log_frame_def list_all2_refl)

lemma log_frame_trans: "log_frame s t \<Longrightarrow> log_frame t u \<Longrightarrow> log_frame s u"
proof -
  assume st: "log_frame s t" and tu: "log_frame t u"
  have "list_all2 appender_frame (appenders s) (appenders u)"
  proof (rule list_all2_trans [OF appender_frame_trans])
    show "list_all2 appender_frame (appenders s) (appenders t)"
      and "list_all2 appender_frame (appenders t) (appenders u)"
      using st tu by (simp_all add: log_frame_def)
  qed
  with st tu show "log_frame s u" by (simp add: log_frame_def)
qed

lemma log_frame_update_appender:
  assumes "a < length (appenders s)" and "appender_frame (appenders s ! a) (g (appenders s ! a))"
  shows "log_frame s (update_appender a g s)"
  using assms
  by (auto simp: log_frame_def update_appender_def list_all2_conv_all_nth nth_list_update)

lemma log_frame_same [simp]:
  "log_frame s (t\<lparr>ticks := n\<rparr>) = log_frame s t"
  "log_frame s (t\<lparr>files := fs\<rparr>) = log_frame s t"
  "log_frame s (write_disk fn x t) = log_frame s t"
  "log_frame s (t\<lparr>cout := c\<rparr>) = log_frame s t"
  "log_frame (s\<lparr>ticks := n\<rparr>) t = log_frame s t"
  by (simp_all add: log_frame_def write_disk_def)

lemma log_frame_print_cout [simp]: "log_frame s (print_cout t x) = log_frame s t"
  by (simp add: log_frame_def print_cout_def)

lemma log_frame_nth:
  "log_frame s s' \<Longrightarrow> a < length (appenders s) \<Longrightarrow> appender_frame (appenders s ! a) (appenders s' ! a)"
  by (auto simp: log_frame_def list_all2_conv_all_nth)

lemma log_frame_length: "log_frame s s' \<Longrightarrow> length (appenders s') = length (appenders s)"
  by (auto simp: log_frame_def list_all2_conv_all_nth)

lemma log_frame_loggers: "log_frame s s' \<Longrightarrow> loggers s' = loggers s"
  by (simp add: log_frame_def)

lemma ofstream_open_ok_or_fail: "os_open (ofstream_open ok st) \<or> os_fail (ofstream_open ok st)"
  by (simp add: ofstream_open_def)

lemma file_put_frame: "a < length (appenders s) \<Longrightarrow> log_frame s (file_put env a s t)"
  by (auto simp: file_put_def appender_frame_def Let_def split: appender_class.splits
      intro!: log_frame_update_appender)

lemma Reopen_frame:
  "a < length (appenders s) \<Longrightarrow> log_frame s (snd (FileLogAppender_Reopen env a s))"
  using ofstream_open_ok_or_fail
  by (auto simp: FileLogAppender_Reopen_def appender_frame_def Let_def split: appender_class.splits prod.splits
      intro!: log_frame_update_appender)

lemma fold_put_frame:
  assumes "\<And>t x. P t \<Longrightarrow> log_frame t (put t x) \<and> P (put t x)" and "P s"
  shows "log_frame s (fold (\<lambda>x s. put s x) xs s)"
  using assms(2)
proof (induction xs arbitrary: s)
  case Nil
  then show ?case by simp
next
  case (Cons x xs)
  with assms(1) [OF Cons.prems, of x] show ?case by (auto intro: log_frame_trans)
qed

lemma Format_ostream_file_frame:
  assumes "LogFormatter_Format_ostream (file_put env a) tt nm e its s = Some s'"
    and "a < length (appenders s)"
  shows "log_frame s s'"
proof -
  obtain ts where s': "s' = fold (\<lambda>t s. file_put env a s t) ts s"
    using assms(1) by (auto simp: Format_ostream_fold)
  show ?thesis unfolding s'
  proof (rule fold_put_frame [where P = "\<lambda>s. a < length (appenders s)"])
    show "log_frame t (file_put env a t x) \<and> a < length (appenders (file_put env a t x))"
      if "a < length (appenders t)" for t x
      using file_put_frame [OF that, of env x] that by (simp add: log_frame_length)
  qed (rule assms(2))
qed

lemma Format_ostream_cout_frame:
  assumes "LogFormatter_Format_ostream print_cout tt nm e its s = Some s'"
  shows "log_frame s s'"
proof -
  obtain ts where s': "s' = fold (\<lambda>t s. print_cout s t) ts s"
    using assms by (auto simp: Format_ostream_fold)
  show ?thesis unfolding s'
    by (rule fold_put_frame [where P = "\<lambda>_. True"]) simp_all
qed

section \<open>Logging returns\<close>

lemma Format_ostream_Some:
  "ev_logger e < length (loggers s) \<Longrightarrow>
    \<exists>s'. LogFormatter_Format_ostream put tt (logger_name s) e its os = Some s'"
  using item_texts_Some [of "logger_name s" e tt its]
  by (auto simp: Format_ostream_fold logger_name_def)

lemma StdoutLogAppender_Log_returns:
  assumes "ap_formatter (appenders s ! a) \<noteq> None" and "ev_logger e < length (loggers s)"
  shows "\<exists>s'. StdoutLogAppender_Log env a lvl e s = Ok () s' \<and> log_frame s s'"
proof -
  obtain f where f: "ap_formatter (appenders s ! a) = Some f" using assms(1) by blast
  obtain s' where "LogFormatter_Format_ostream print_cout (env_time_text env) (logger_name s) e
      (fmt_items f) s = Some s'"
    using Format_ostream_Some [OF assms(2), where put = print_cout and os = s] by blast
  with f Format_ostream_cout_frame show ?thesis
    by (fastforce simp: StdoutLogAppender_Log_def)
qed

text \<open>The reopening of a file appender whose last reopening is three seconds ago.\<close>

definition reopen_if_due :: "log_env \<Rightarrow> nat \<Rightarrow> log_event \<Rightarrow> log_sys \<Rightarrow> log_sys" where
  "reopen_if_due env a e s =
     (case ap_class (appenders s ! a) of
        StdoutLogAppender \<Rightarrow> s
      | FileLogAppender fn st lt \<Rightarrow>
          if lt + 3 \<le> ev_time e then
            update_appender a
              (\<lambda>ap. case ap_class ap of
                 FileLogAppender fn' st' lt' \<Rightarrow> ap\<lparr>ap_class := FileLogAppender fn' st' (ev_time e)\<rparr>
               | StdoutLogAppender \<Rightarrow> ap)
              (snd (FileLogAppender_Reopen env a s))
          else s)"

lemma FileLogAppender_Log_unfold:
  assumes "ap_class (appenders s ! a) = FileLogAppender fn st lt"
  shows "FileLogAppender_Log env a lvl e s =
    (let s1 = reopen_if_due env a e s
     in case ap_formatter (appenders s1 ! a) of
          None \<Rightarrow> Crash NullDeref
        | Some f \<Rightarrow>
            (case LogFormatter_Format_ostream (file_put env a) (env_time_text env) (logger_name s1) e
                    (fmt_items f) s1 of
               None \<Rightarrow> Crash NullDeref
             | Some s2 \<Rightarrow>
                 Ok () (if file_good a s2 then s2 else print_cout s2 (''error'' @ [CHR 0x0A]))))"
  using assms by (simp add: FileLogAppender_Log_def reopen_if_due_def Let_def)

lemma reopen_if_due_frame: "a < length (appenders s) \<Longrightarrow> log_frame s (reopen_if_due env a e s)"
proof -
  assume a: "a < length (appenders s)"
  let ?t = "snd (FileLogAppender_Reopen env a s)"
  have "log_frame ?t (update_appender a
      (\<lambda>ap. case ap_class ap of
         FileLogAppender fn' st' lt' \<Rightarrow> ap\<lparr>ap_class := FileLogAppender fn' st' (ev_time e)\<rparr>
       | StdoutLogAppender \<Rightarrow> ap) ?t)"
    using log_frame_length [OF Reopen_frame [OF a, of env]] a
    by (intro log_frame_update_appender) (auto simp: appender_frame_def split: appender_class.splits)
  with Reopen_frame [OF a, of env] show ?thesis
    by (auto simp: reopen_if_due_def intro: log_frame_trans split: appender_class.splits)
qed

lemma FileLogAppender_Log_returns:
  assumes "a < length (appenders s)" and "ap_class (appenders s ! a) = FileLogAppender fn st lt"
    and "ap_formatter (appenders s ! a) \<noteq> None" and "ev_logger e < length (loggers s)"
  shows "\<exists>s'. FileLogAppender_Log env a lvl e s = Ok () s' \<and> log_frame s s'"
proof -
  let ?s1 = "reopen_if_due env a e s"
  have fr: "log_frame s ?s1" using assms(1) by (rule reopen_if_due_frame)
  obtain f where f: "ap_formatter (appenders ?s1 ! a) = Some f"
    using log_frame_nth [OF fr assms(1)] assms(3) by (auto simp: appender_frame_def)
  have "ev_logger e < length (loggers ?s1)"
    using assms(4) log_frame_loggers [OF fr] by simp
  then obtain s2 where s2: "LogFormatter_Format_ostream (file_put env a) (env_time_text env)
      (logger_name ?s1) e (fmt_items f) ?s1 = Some s2"
    using Format_ostream_Some [where put = "file_put env a" and os = ?s1] by blast
  have "log_frame ?s1 s2"
    using Format_ostream_file_frame [OF s2] assms(1) log_frame_length [OF fr] by simp
  with fr have "log_frame s s2" by (rule log_frame_trans)
  with f s2 show ?thesis by (simp add: FileLogAppender_Log_unfold [OF assms(2)])
qed

lemma LogAppender_Log_returns:
  assumes "a < length (appenders s)" and "ap_formatter (appenders s ! a) \<noteq> None"
    and "ev_logger e < length (loggers s)"
  shows "\<exists>s'. LogAppender_Log env a lvl e s = Ok () s' \<and> log_frame s s'"
  using assms StdoutLogAppender_Log_returns FileLogAppender_Log_returns
  by (cases "ap_class (appenders s ! a)") (auto simp: LogAppender_Log_def)

definition attached_ok :: "log_sys \<Rightarrow> nat \<Rightarrow> bool" where
  "attached_ok s a \<longleftrightarrow> a < length (appenders s) \<and> ap_formatter (appenders s ! a) \<noteq> None"

lemma attached_ok_frame: "log_frame s s' \<Longrightarrow> attached_ok s' a = attached_ok s a"
  using log_frame_nth log_frame_length by (fastforce simp: attached_ok_def appender_frame_def)

lemma appenders_Log_returns:
  assumes "\<forall>a \<in> set as. attached_ok s a" and "ev_logger e < length (loggers s)"
  shows "\<exists>s'. for_each (\<lambda>a. LogAppender_Log env a lvl e) as s = Ok () s' \<and> log_frame s s'"
proof (rule for_each_invariant)
  show "\<exists>t'. LogAppender_Log env a lvl e t = Ok () t' \<and> log_frame s t'"
    if "a \<in> set as" and "log_frame s t" for a t
  proof -
    have "attached_ok t a" using assms(1) that by (simp add: attached_ok_frame)
    moreover have "ev_logger e < length (loggers t)"
      using assms(2) log_frame_loggers [OF that(2)] by simp
    ultimately obtain t' where "LogAppender_Log env a lvl e t = Ok () t'" and "log_frame t t'"
      using LogAppender_Log_returns [of a t e env lvl] by (auto simp: attached_ok_def)
    with that(2) show ?thesis by (blast intro: log_frame_trans)
  qed
qed simp

section \<open>The invariant\<close>

definition appender_ok :: "log_appender \<Rightarrow> bool" where
  "appender_ok ap =
     (case ap_class ap of
        StdoutLogAppender \<Rightarrow> True
      | FileLogAppender fn st lt \<Rightarrow> os_open st \<or> os_fail st)"

definition logger_ok :: "log_sys \<Rightarrow> logger \<Rightarrow> bool" where
  "logger_ok s lg \<longleftrightarrow>
     lg_formatter lg \<noteq> None \<and> (\<forall>a \<in> set (lg_appenders lg). attached_ok s a) \<and>
     (lg_root lg = None \<or> lg_root lg = Some (mgr_root s))"

text \<open>
  The root logger exists, has no root of its own and is registered; the registry is sorted, maps
  a name to a logger of that name, and every registered logger but the root one has the root as
  its fallback; every logger has a formatter and so has every attached appender; a file stream is
  open or has failed.
\<close>

definition wf_sys :: "log_sys \<Rightarrow> bool" where
  "wf_sys s \<longleftrightarrow>
     mgr_root s < length (loggers s) \<and>
     lg_root (loggers s ! mgr_root s) = None \<and>
     map_sorted string_lt (mgr_loggers s) \<and>
     (lg_name (loggers s ! mgr_root s), mgr_root s) \<in> set (mgr_loggers s) \<and>
     (\<forall>(name, l) \<in> set (mgr_loggers s).
        l < length (loggers s) \<and> lg_name (loggers s ! l) = name \<and>
        (l \<noteq> mgr_root s \<longrightarrow> lg_root (loggers s ! l) = Some (mgr_root s))) \<and>
     (\<forall>lg \<in> set (loggers s). logger_ok s lg) \<and>
     (\<forall>ap \<in> set (appenders s). appender_ok ap)"

lemma wf_sys_root: "wf_sys s \<Longrightarrow> mgr_root s < length (loggers s)"
  and wf_sys_root_root: "wf_sys s \<Longrightarrow> lg_root (loggers s ! mgr_root s) = None"
  and wf_sys_sorted: "wf_sys s \<Longrightarrow> map_sorted string_lt (mgr_loggers s)"
  by (simp_all add: wf_sys_def)

lemma wf_sys_logger: "wf_sys s \<Longrightarrow> l < length (loggers s) \<Longrightarrow> logger_ok s (loggers s ! l)"
  by (simp add: wf_sys_def)

lemma wf_sys_registered:
  assumes "wf_sys s" and "map_find string_lt name (mgr_loggers s) = Some l"
  shows "l < length (loggers s)" and "lg_name (loggers s ! l) = name"
    and "l \<noteq> mgr_root s \<Longrightarrow> lg_root (loggers s ! l) = Some (mgr_root s)"
  using string_order.map_find_Some_in [OF assms(2)] assms(1) by (auto simp: wf_sys_def)

lemma appender_ok_frame: "appender_frame ap ap' \<Longrightarrow> appender_ok ap \<Longrightarrow> appender_ok ap'"
  by (cases "ap_class ap"; cases "ap_class ap'") (auto simp: appender_ok_def appender_frame_def)

lemma logger_ok_frame: "log_frame s s' \<Longrightarrow> logger_ok s' lg = logger_ok s lg"
  by (simp add: logger_ok_def attached_ok_frame) (simp add: log_frame_def)

text \<open>Logging keeps the invariant.\<close>

lemma wf_sys_log_frame:
  assumes fr: "log_frame s s'" and wf: "wf_sys s"
  shows "wf_sys s'"
proof -
  have eq: "loggers s' = loggers s" "mgr_root s' = mgr_root s" "mgr_loggers s' = mgr_loggers s"
    using fr by (simp_all add: log_frame_def)
  have "appender_ok ap'" if "ap' \<in> set (appenders s')" for ap'
  proof -
    from that obtain a where "a < length (appenders s)" and "ap' = appenders s' ! a"
      using log_frame_length [OF fr] by (metis in_set_conv_nth)
    moreover from this wf have "appender_ok (appenders s ! a)" by (simp add: wf_sys_def)
    ultimately show ?thesis using log_frame_nth [OF fr] appender_ok_frame by blast
  qed
  with wf show ?thesis
    unfolding wf_sys_def eq by (simp add: logger_ok_frame [OF fr])
qed

section \<open>Every operation keeps the invariant\<close>

lemma wf_sys_update_logger:
  assumes wf: "wf_sys s" and l: "l < length (loggers s)"
    and same: "lg_name (f (loggers s ! l)) = lg_name (loggers s ! l)"
      "lg_root (f (loggers s ! l)) = lg_root (loggers s ! l)"
    and ok: "logger_ok s (f (loggers s ! l))"
  shows "wf_sys (update_logger l f s)"
proof -
  have ok': "logger_ok (update_logger l f s) lg = logger_ok s lg" for lg
    by (simp add: logger_ok_def attached_ok_def sys_simps)
  have "set (loggers (update_logger l f s)) \<subseteq> insert (f (loggers s ! l)) (set (loggers s))"
    by (simp add: update_logger_def set_update_subset_insert)
  with wf ok have "\<forall>lg \<in> set (loggers (update_logger l f s)). logger_ok s lg"
    by (auto simp: wf_sys_def)
  with wf same show ?thesis
    by (fastforce simp: wf_sys_def ok' sys_simps split: if_splits)
qed

lemma attached_ok_update_appender:
  assumes "ap_formatter (appenders s ! a) \<noteq> None \<Longrightarrow> ap_formatter (g (appenders s ! a)) \<noteq> None"
    and "attached_ok s b"
  shows "attached_ok (update_appender a g s) b"
  using assms by (auto simp: attached_ok_def sys_simps)

lemma wf_sys_update_appender:
  assumes wf: "wf_sys s" and a: "a < length (appenders s)"
    and keep: "ap_formatter (appenders s ! a) \<noteq> None \<Longrightarrow> ap_formatter (g (appenders s ! a)) \<noteq> None"
    and ok: "appender_ok (g (appenders s ! a))"
  shows "wf_sys (update_appender a g s)"
proof -
  have ok': "logger_ok s lg \<Longrightarrow> logger_ok (update_appender a g s) lg" for lg
    using attached_ok_update_appender [where g = g, OF keep] by (auto simp: logger_ok_def sys_simps)
  have "set (appenders (update_appender a g s)) \<subseteq> insert (g (appenders s ! a)) (set (appenders s))"
    by (simp add: update_appender_def set_update_subset_insert)
  with wf ok have "\<forall>ap \<in> set (appenders (update_appender a g s)). appender_ok ap"
    by (auto simp: wf_sys_def)
  with wf ok' show ?thesis by (auto simp: wf_sys_def sys_simps)
qed

lemma wf_sys_print_cout [simp]: "wf_sys (print_cout s t) = wf_sys s"
  by (simp add: wf_sys_def sys_simps logger_ok_def attached_ok_def)

lemma wf_sys_ticks [simp]: "wf_sys (s\<lparr>ticks := n\<rparr>) = wf_sys s"
  by (simp add: wf_sys_def logger_ok_def attached_ok_def)

lemma wf_sys_alloc_appender:
  assumes "wf_sys s" and "appender_ok ap"
  shows "wf_sys (snd (alloc_appender ap s))"
proof -
  have "attached_ok s b \<Longrightarrow> attached_ok (snd (alloc_appender ap s)) b" for b
    by (simp add: attached_ok_def alloc_appender_def nth_append)
  then have "logger_ok s lg \<Longrightarrow> logger_ok (snd (alloc_appender ap s)) lg" for lg
    by (auto simp: logger_ok_def alloc_appender_def)
  with assms show ?thesis by (auto simp: wf_sys_def alloc_appender_def)
qed

lemma wf_sys_alloc_logger:
  assumes "wf_sys s" and "logger_ok s lg"
  shows "wf_sys (snd (alloc_logger lg s))"
proof -
  have "logger_ok (snd (alloc_logger lg s)) lg' = logger_ok s lg'" for lg'
    by (simp add: logger_ok_def alloc_logger_def attached_ok_def)
  with assms show ?thesis
    by (fastforce simp: wf_sys_def alloc_logger_def nth_append)
qed

lemma Reopen_appender_ok:
  "a < length (appenders s) \<Longrightarrow> ap_class (appenders s ! a) = FileLogAppender fn st lt \<Longrightarrow>
    appender_ok (appenders (snd (FileLogAppender_Reopen env a s)) ! a)"
  by (simp add: FileLogAppender_Reopen_def Let_def sys_simps appender_ok_def ofstream_open_ok_or_fail split: prod.split)

text \<open>
  A new file appender is allocated with a stream that is neither open nor failed and reopened
  at once, after which the invariant holds again.
\<close>

lemma wf_sys_new_FileLogAppender:
  assumes wf: "wf_sys s" and new: "new_FileLogAppender env fn s = (a, s')"
  shows "wf_sys s' \<and> a = length (appenders s) \<and> a < length (appenders s')"
proof -
  let ?st = "ofstream_open (env_open_ok env (ticks s) fn)
    \<lparr>os_open = False, os_fail = True, os_buf = []\<rparr>"
  let ?ap = "\<lparr>ap_level = DEBUG, ap_has_formatter = False, ap_formatter = None,
    ap_class = FileLogAppender fn ?st 0\<rparr>"
  have "s' = (snd (alloc_appender ?ap s))\<lparr>ticks := Suc (ticks s)\<rparr>" and "a = length (appenders s)"
    using new
    by (auto simp: new_FileLogAppender_def alloc_appender_def FileLogAppender_Reopen_def
        Let_def update_appender_def ofstream_close_def write_disk_def)
  moreover have "appender_ok ?ap" by (simp add: appender_ok_def ofstream_open_ok_or_fail)
  ultimately show ?thesis
    using wf_sys_alloc_appender [OF wf] by (simp add: alloc_appender_def)
qed

lemma wf_sys_AddAppender:
  assumes wf: "wf_sys s" and add: "Logger_AddAppender l a s = Ok () s'"
  shows "wf_sys s'"
proof -
  let ?s1 = "if ap_formatter (appenders s ! a) = None
    then update_appender a (\<lambda>ap. ap\<lparr>ap_formatter := lg_formatter (loggers s ! l)\<rparr>) s else s"
  have l: "l < length (loggers s)" and a: "a < length (appenders s)"
    and s': "s' = update_logger l (\<lambda>lg. lg\<lparr>lg_appenders := lg_appenders lg @ [a]\<rparr>) ?s1"
    using add by (auto simp: Logger_AddAppender_def Let_def split: if_splits)
  have lok: "logger_ok s (loggers s ! l)" using wf_sys_logger [OF wf l] .
  have "appender_ok (appenders s ! a)" using wf a by (simp add: wf_sys_def)
  then have wf1: "wf_sys ?s1"
    using wf wf_sys_update_appender [OF wf a] by (auto simp: appender_ok_def)
  have "attached_ok ?s1 a"
    using lok a by (auto simp: attached_ok_def logger_ok_def sys_simps)
  moreover have "loggers ?s1 = loggers s" by (simp add: sys_simps)
  ultimately show ?thesis unfolding s'
    using wf_sys_logger [OF wf1, of l] l wf1
    by (intro wf_sys_update_logger) (auto simp: logger_ok_def)
qed

lemma set_erase_first: "set (erase_first a bs) \<subseteq> set bs"
  by (induction bs) auto

lemma wf_sys_DelAppender: "wf_sys s \<Longrightarrow> Logger_DelAppender l a s = Ok () s' \<Longrightarrow> wf_sys s'"
  using wf_sys_logger [of s l] set_erase_first
  by (auto simp: Logger_DelAppender_def logger_ok_def subset_iff split: if_splits
      intro!: wf_sys_update_logger)

lemma wf_sys_ClearAppender: "wf_sys s \<Longrightarrow> Logger_ClearAppender l s = Ok () s' \<Longrightarrow> wf_sys s'"
  using wf_sys_logger [of s l]
  by (auto simp: Logger_ClearAppender_def logger_ok_def split: if_splits
      intro!: wf_sys_update_logger)

lemma wf_sys_SetLevel: "wf_sys s \<Longrightarrow> Logger_SetLevel l lvl s = Ok () s' \<Longrightarrow> wf_sys s'"
  using wf_sys_logger [of s l]
  by (auto simp: Logger_SetLevel_def logger_ok_def split: if_splits
      intro!: wf_sys_update_logger)

lemma inherit_formatter_loggers [sys_simps]:
  "loggers (inherit_formatter f as s) = loggers s"
  "mgr_root (inherit_formatter f as s) = mgr_root s"
  "mgr_loggers (inherit_formatter f as s) = mgr_loggers s"
  "cout (inherit_formatter f as s) = cout s"
  "files (inherit_formatter f as s) = files s"
  "disk (inherit_formatter f as s) = disk s"
  "ticks (inherit_formatter f as s) = ticks s"
  "length (appenders (inherit_formatter f as s)) = length (appenders s)"
  by (induction as arbitrary: s) (simp_all add: sys_simps)

lemma wf_sys_inherit_formatter:
  "wf_sys s \<Longrightarrow> \<forall>a \<in> set as. a < length (appenders s) \<Longrightarrow> f \<noteq> None \<Longrightarrow>
    wf_sys (inherit_formatter f as s)"
proof (induction as arbitrary: s)
  case Nil
  then show ?case by simp
next
  case (Cons a as)
  have "appender_ok (appenders s ! a)" using Cons.prems by (simp add: wf_sys_def)
  then have "wf_sys (update_appender a (\<lambda>ap. ap\<lparr>ap_formatter := f\<rparr>) s)"
    using Cons.prems by (intro wf_sys_update_appender) (auto simp: appender_ok_def)
  with Cons show ?case by (auto simp: sys_simps)
qed

lemma wf_sys_SetFormatter_ptr:
  assumes wf: "wf_sys s" and set: "Logger_SetFormatter_ptr l f s = Ok () s'" and f: "f \<noteq> None"
  shows "wf_sys s'"
proof -
  let ?s1 = "update_logger l (\<lambda>lg. lg\<lparr>lg_formatter := f\<rparr>) s"
  have l: "l < length (loggers s)"
    and s': "s' = inherit_formatter f (lg_appenders (loggers ?s1 ! l)) ?s1"
    using set by (auto simp: Logger_SetFormatter_ptr_def Let_def split: if_splits)
  have "wf_sys ?s1"
    using wf wf_sys_logger [OF wf l] l f by (intro wf_sys_update_logger) (auto simp: logger_ok_def)
  moreover from this have "\<forall>a \<in> set (lg_appenders (loggers ?s1 ! l)). a < length (appenders ?s1)"
    using wf_sys_logger [of ?s1 l] l by (auto simp: logger_ok_def attached_ok_def sys_simps)
  ultimately show ?thesis unfolding s' using f by (rule wf_sys_inherit_formatter)
qed

lemma wf_sys_SetFormatter: "wf_sys s \<Longrightarrow> Logger_SetFormatter l fmt s = Ok () s' \<Longrightarrow> wf_sys s'"
  using wf_sys_SetFormatter_ptr
  by (fastforce simp: Logger_SetFormatter_def Let_def split: if_splits)

lemma wf_sys_LogAppender_SetFormatter:
  "wf_sys s \<Longrightarrow> a < length (appenders s) \<Longrightarrow> wf_sys (LogAppender_SetFormatter a (Some f) s)"
  unfolding LogAppender_SetFormatter_def
  by (rule wf_sys_update_appender) (auto simp: wf_sys_def appender_ok_def)

lemma wf_sys_LogAppender_SetLevel:
  "wf_sys s \<Longrightarrow> a < length (appenders s) \<Longrightarrow> wf_sys (LogAppender_SetLevel a lvl s)"
  unfolding LogAppender_SetLevel_def
  by (rule wf_sys_update_appender) (auto simp: wf_sys_def appender_ok_def)

section \<open>The registry\<close>

lemma GetLogger_found:
  "map_find string_lt name (mgr_loggers s) = Some l \<Longrightarrow> LoggerManager_GetLogger name s = (l, s)"
  by (simp add: LoggerManager_GetLogger_def)

lemma GetLogger_fresh:
  "map_find string_lt name (mgr_loggers s) = None \<Longrightarrow>
    LoggerManager_GetLogger name s =
      (length (loggers s),
       s\<lparr>loggers := loggers s @ [(new_Logger name)\<lparr>lg_root := Some (mgr_root s)\<rparr>],
         mgr_loggers := map_set string_lt name (length (loggers s)) (mgr_loggers s)\<rparr>)"
  by (simp add: LoggerManager_GetLogger_def alloc_logger_def)

lemma map_set_entries:
  "(j, w) \<in> set (map_set string_lt k v m) \<Longrightarrow> (j, w) = (k, v) \<or> (j, w) \<in> set m"
  by (induction m) (auto simp: string_lt_def split: if_splits)

lemma map_set_entry_kept:
  "(j, w) \<in> set m \<Longrightarrow> map_find string_lt k m = None \<Longrightarrow> map_sorted string_lt m \<Longrightarrow>
    (j, w) \<in> set (map_set string_lt k v m)"
  by (induction m) (auto simp: string_lt_def split: if_splits)

lemma wf_sys_GetLogger:
  assumes wf: "wf_sys s"
  shows "wf_sys (snd (LoggerManager_GetLogger name s))"
proof (cases "map_find string_lt name (mgr_loggers s)")
  case (Some l)
  with wf show ?thesis by (simp add: GetLogger_found)
next
  case None
  let ?l = "length (loggers s)"
  let ?lg = "(new_Logger name)\<lparr>lg_root := Some (mgr_root s)\<rparr>"
  let ?s1 = "snd (alloc_logger ?lg s)"
  have "logger_ok s ?lg" by (simp add: logger_ok_def new_Logger_def)
  then have wf1: "wf_sys ?s1" using wf by (intro wf_sys_alloc_logger)
  have new: "snd (LoggerManager_GetLogger name s) =
      ?s1\<lparr>mgr_loggers := map_set string_lt name ?l (mgr_loggers ?s1)\<rparr>"
    using None by (simp add: GetLogger_fresh alloc_logger_def)
  have ok: "logger_ok (?s1\<lparr>mgr_loggers := m\<rparr>) lg = logger_ok ?s1 lg" for m lg
    by (simp add: logger_ok_def attached_ok_def)
  have l: "?l < length (loggers ?s1)" "lg_name (loggers ?s1 ! ?l) = name"
      "lg_root (loggers ?s1 ! ?l) = Some (mgr_root ?s1)"
    by (simp_all add: alloc_logger_def new_Logger_def nth_append)
  have "map_find string_lt name (mgr_loggers ?s1) = None"
    using None by (simp add: alloc_logger_def)
  then show ?thesis
    using wf1 l unfolding new wf_sys_def
    by (auto simp: ok string_order.map_sorted_set map_set_entry_kept dest!: map_set_entries)
qed

lemma registry_injective:
  assumes "wf_sys s" and "map_find string_lt j (mgr_loggers s) = Some l"
    and "map_find string_lt k (mgr_loggers s) = Some l"
  shows "j = k"
  using wf_sys_registered(2) [OF assms(1,2)] wf_sys_registered(2) [OF assms(1,3)] by simp

text \<open>The manager keeps the contract of a get-or-create registry.\<close>

interpretation loggers_registry: get_or_create
  LoggerManager_GetLogger "\<lambda>s name. map_find string_lt name (mgr_loggers s)" "\<lambda>_. True" wf_sys
proof (unfold_locales, goal_cases)
  case (3 s k)
  then show ?case
    by (cases "map_find string_lt k (mgr_loggers s)")
      (simp_all add: GetLogger_found GetLogger_fresh string_order.map_find_set_same)
next
  case (4 s k j)
  then show ?case
    by (cases "map_find string_lt k (mgr_loggers s)")
      (simp_all add: GetLogger_found GetLogger_fresh string_order.map_find_set_other)
qed (auto simp: wf_sys_GetLogger GetLogger_found intro: registry_injective)

section \<open>Reachable states\<close>

lemma default_logger_ok: "logger_ok s (new_Logger name)"
  by (simp add: logger_ok_def new_Logger_def)

lemma new_LoggerManager_state:
  "new_LoggerManager = Ok ()
    \<lparr>loggers = [(new_Logger ''root'')\<lparr>lg_appenders := [0]\<rparr>],
     appenders = [new_StdoutLogAppender
       \<lparr>ap_formatter := Some (new_LogFormatter default_pattern)\<rparr>],
     mgr_root = 0, mgr_loggers = [(''root'', 0)], cout = [], files = (\<lambda>_. []), disk = (\<lambda>_. []), ticks = 0\<rparr>"
  by (simp add: new_LoggerManager_def alloc_logger_def alloc_appender_def Logger_AddAppender_def
      update_appender_def update_logger_def new_StdoutLogAppender_def new_Logger_def)

lemma wf_sys_initial: "new_LoggerManager = Ok () s \<Longrightarrow> wf_sys s"
  by (auto simp: new_LoggerManager_state wf_sys_def logger_ok_def attached_ok_def appender_ok_def
      new_Logger_def new_StdoutLogAppender_def)

text \<open>The calls a program can make; a formatter it passes is not null.\<close>

inductive sys_step :: "log_sys \<Rightarrow> log_sys \<Rightarrow> bool" where
  get_logger: "sys_step s (snd (LoggerManager_GetLogger name s))"
| make_logger: "sys_step s (snd (alloc_logger (new_Logger name) s))"
| make_stdout: "sys_step s (snd (alloc_appender new_StdoutLogAppender s))"
| make_file: "sys_step s (snd (new_FileLogAppender env fn s))"
| add_appender: "Logger_AddAppender l a s = Ok () s' \<Longrightarrow> sys_step s s'"
| del_appender: "Logger_DelAppender l a s = Ok () s' \<Longrightarrow> sys_step s s'"
| clear_appender: "Logger_ClearAppender l s = Ok () s' \<Longrightarrow> sys_step s s'"
| set_formatter: "Logger_SetFormatter l fmt s = Ok () s' \<Longrightarrow> sys_step s s'"
| set_formatter_ptr: "Logger_SetFormatter_ptr l (Some f) s = Ok () s' \<Longrightarrow> sys_step s s'"
| set_level: "Logger_SetLevel l lvl s = Ok () s' \<Longrightarrow> sys_step s s'"
| appender_formatter: "a < length (appenders s) \<Longrightarrow>
    sys_step s (LogAppender_SetFormatter a (Some f) s)"
| appender_level: "a < length (appenders s) \<Longrightarrow> sys_step s (LogAppender_SetLevel a lvl s)"
| reopen: "a < length (appenders s) \<Longrightarrow> sys_step s (snd (FileLogAppender_Reopen env a s))"
| log: "Logger_Log env [] l lvl e s = Ok () s' \<Longrightarrow> ev_logger e < length (loggers s) \<Longrightarrow>
    sys_step s s'"

inductive sys_reachable :: "log_sys \<Rightarrow> bool" where
  start: "new_LoggerManager = Ok () s \<Longrightarrow> sys_reachable s"
| step: "sys_reachable s \<Longrightarrow> sys_step s s' \<Longrightarrow> sys_reachable s'"

section \<open>When logging crashes\<close>

text \<open>
  In a well-formed system a logger that is not the root either has appenders, or has the root as
  its fallback, or (created outside the manager) has neither. Logging returns exactly when the
  appenders it reaches are not empty, and then only what \<open>log_frame\<close> allows has changed.
\<close>

definition effective_appenders :: "log_sys \<Rightarrow> nat \<Rightarrow> nat list" where
  "effective_appenders s l =
     (if lg_appenders (loggers s ! l) \<noteq> [] then lg_appenders (loggers s ! l)
      else case lg_root (loggers s ! l) of
        None \<Rightarrow> []
      | Some r \<Rightarrow> lg_appenders (loggers s ! r))"

lemma Logger_Log_own:
  "l < length (loggers s) \<Longrightarrow> l \<notin> set held \<Longrightarrow> lg_appenders (loggers s ! l) \<noteq> [] \<Longrightarrow>
    Logger_Log env held l lvl e s =
      for_each (\<lambda>a. LogAppender_Log env a lvl e) (lg_appenders (loggers s ! l)) s"
  by (subst Logger_Log.simps) simp

lemma Logger_Log_no_root:
  "l < length (loggers s) \<Longrightarrow> l \<notin> set held \<Longrightarrow> lg_appenders (loggers s ! l) = [] \<Longrightarrow>
    lg_root (loggers s ! l) = None \<Longrightarrow> Logger_Log env held l lvl e s = Crash NullDeref"
  by (subst Logger_Log.simps) simp

lemma Logger_Log_root:
  "l < length (loggers s) \<Longrightarrow> l \<notin> set held \<Longrightarrow> lg_appenders (loggers s ! l) = [] \<Longrightarrow>
    lg_root (loggers s ! l) = Some r \<Longrightarrow>
    Logger_Log env held l lvl e s = Logger_Log env (l # held) r lvl e s"
  by (subst Logger_Log.simps) simp

lemma Logger_Log_effective:
  assumes wf: "wf_sys s" and l: "l < length (loggers s)"
  shows "Logger_Log env [] l lvl e s =
    (if effective_appenders s l = [] then Crash NullDeref
     else for_each (\<lambda>a. LogAppender_Log env a lvl e) (effective_appenders s l) s)"
proof (cases "lg_appenders (loggers s ! l) = [] \<and> lg_root (loggers s ! l) \<noteq> None")
  case False
  with l show ?thesis
    by (cases "lg_appenders (loggers s ! l) = []")
      (simp_all add: effective_appenders_def Logger_Log_own Logger_Log_no_root)
next
  case True
  let ?r = "mgr_root s"
  have root: "lg_root (loggers s ! l) = Some ?r"
    using True wf_sys_logger [OF wf l] by (auto simp: logger_ok_def)
  then have "?r \<noteq> l" using wf_sys_root_root [OF wf] by auto
  moreover have "?r < length (loggers s)" using wf by (rule wf_sys_root)
  ultimately show ?thesis
    using True root l wf_sys_root_root [OF wf]
    by (cases "lg_appenders (loggers s ! ?r) = []")
      (simp_all add: effective_appenders_def Logger_Log_root Logger_Log_own Logger_Log_no_root)
qed

lemma effective_attached:
  assumes wf: "wf_sys s" and l: "l < length (loggers s)" and a: "a \<in> set (effective_appenders s l)"
  shows "attached_ok s a"
proof -
  have "lg_root (loggers s ! l) = None \<or> lg_root (loggers s ! l) = Some (mgr_root s)"
    using wf_sys_logger [OF wf l] by (simp add: logger_ok_def)
  then show ?thesis
    using a wf_sys_logger [OF wf l] wf_sys_logger [OF wf wf_sys_root [OF wf]]
    by (auto simp: effective_appenders_def logger_ok_def split: if_splits)
qed

lemma Logger_Log_outcome:
  assumes wf: "wf_sys s" and l: "l < length (loggers s)" and e: "ev_logger e < length (loggers s)"
  shows "effective_appenders s l = [] \<Longrightarrow> Logger_Log env [] l lvl e s = Crash NullDeref"
    and "effective_appenders s l \<noteq> [] \<Longrightarrow>
      \<exists>s'. Logger_Log env [] l lvl e s = Ok () s' \<and> log_frame s s'"
proof -
  show "effective_appenders s l = [] \<Longrightarrow> Logger_Log env [] l lvl e s = Crash NullDeref"
    by (simp add: Logger_Log_effective [OF wf l])
  show "effective_appenders s l \<noteq> [] \<Longrightarrow>
      \<exists>s'. Logger_Log env [] l lvl e s = Ok () s' \<and> log_frame s s'"
    using appenders_Log_returns [of "effective_appenders s l" s e env lvl]
      effective_attached [OF wf l] e
    by (simp add: Logger_Log_effective [OF wf l])
qed

lemma effective_nonempty:
  assumes wf: "wf_sys s" and reg: "map_find string_lt name (mgr_loggers s) = Some l"
  shows "effective_appenders s l = [] \<longleftrightarrow>
    lg_appenders (loggers s ! l) = [] \<and> lg_appenders (loggers s ! mgr_root s) = []"
  using wf_sys_registered(3) [OF assms] wf_sys_root_root [OF wf]
  by (cases "l = mgr_root s") (auto simp: effective_appenders_def)

lemma sys_step_wf: "sys_step s s' \<Longrightarrow> wf_sys s \<Longrightarrow> wf_sys s'"
proof (induction rule: sys_step.induct)
  case (make_file s env fn)
  then show ?case
    using wf_sys_new_FileLogAppender by (metis prod.collapse)
next
  case (log env l lvl e s s')
  then have "l < length (loggers s)" by (subst (asm) Logger_Log.simps) (auto split: if_splits)
  with log Logger_Log_outcome [of s l e env lvl] show ?case
    by (cases "effective_appenders s l = []") (auto intro: wf_sys_log_frame)
qed (auto intro: wf_sys_GetLogger wf_sys_alloc_logger default_logger_ok wf_sys_alloc_appender
    wf_sys_AddAppender wf_sys_DelAppender wf_sys_ClearAppender wf_sys_SetFormatter
    wf_sys_SetFormatter_ptr wf_sys_SetLevel wf_sys_LogAppender_SetFormatter
    wf_sys_LogAppender_SetLevel wf_sys_log_frame Reopen_frame
    simp: appender_ok_def new_StdoutLogAppender_def)

text \<open>A system in which every registered logger can be logged to.\<close>

definition log_ready :: "log_sys \<Rightarrow> bool" where
  "log_ready l \<longleftrightarrow> wf_sys l \<and> lg_appenders (loggers l ! mgr_root l) \<noteq> []"

lemma log_ready_frame: "log_frame l l' \<Longrightarrow> log_ready l \<Longrightarrow> log_ready l'"
  unfolding log_ready_def using wf_sys_log_frame by (auto simp: log_frame_def)

end
