(* ===== verification/Log_Delivery.thy ===== *)
theory Log_Delivery
  imports Log_Facts
begin

text \<open>
  What standard output and the streams of the files take when a record is logged: the two kinds of
  stream as interpretations of the stream contract, delivery in an environment that never fails,
  what is left of it in any environment and what of that reaches the file, and the facts that the
  level of a logger or appender plays no part.
\<close>

section \<open>The streams\<close>

definition file_ready :: "nat \<Rightarrow> log_sys \<Rightarrow> bool" where
  "file_ready a s \<longleftrightarrow> a < length (appenders s) \<and> file_good a s"

definition file_of :: "log_sys \<Rightarrow> nat \<Rightarrow> string option" where
  "file_of s a =
     (case ap_class (appenders s ! a) of
        StdoutLogAppender \<Rightarrow> None | FileLogAppender fn st lt \<Rightarrow> Some fn)"

definition file_sink :: "nat \<Rightarrow> log_sys \<Rightarrow> string" where
  "file_sink a s =
     (if a < length (appenders s) then (case file_of s a of None \<Rightarrow> [] | Some fn \<Rightarrow> files s fn) else [])"

interpretation cout_stream: ostream print_cout cout "\<lambda>_. True"
  by unfold_locales (simp_all add: sys_simps)

definition file_disk :: "nat \<Rightarrow> log_sys \<Rightarrow> string" where
  "file_disk a s =
     (if a < length (appenders s) then (case file_of s a of None \<Rightarrow> [] | Some fn \<Rightarrow> disk s fn) else [])"

definition file_buf :: "nat \<Rightarrow> log_sys \<Rightarrow> string" where
  "file_buf a s =
     (if a < length (appenders s) then
        (case ap_class (appenders s ! a) of StdoutLogAppender \<Rightarrow> [] | FileLogAppender fn st lt \<Rightarrow> os_buf st)
      else [])"

lemma length_file_put: "length (appenders (file_put env a s t)) = length (appenders s)"
  by (simp add: file_put_def Let_def sys_simps split: appender_class.split)

text \<open>The stream of a file appender takes all of a text, or a part when it fails, and loses nothing.\<close>

lemma file_put_takes:
  assumes "a < length (appenders s)" and "ap_class (appenders s ! a) = FileLogAppender fn st lt"
  shows "\<exists>x w st'. ap_class (appenders (file_put env a s t) ! a) = FileLogAppender fn st' lt \<and>
    files (file_put env a s t) = (files s)(fn := files s fn @ x) \<and>
    disk (file_put env a s t) = (disk s)(fn := disk s fn @ w) \<and> w @ os_buf st' = os_buf st @ x \<and>
    (if os_fail st then os_fail st' \<and> x = [] else if os_fail st' then \<exists>k. x = take k t else x = t)"
proof (cases "os_fail st \<or> t = []")
  case True
  with assms show ?thesis by (intro exI [of _ "[]"] exI [of _ st]) (auto simp: file_put_def)
next
  case False
  let ?ok = "os_open st \<and> env_write_ok env (ticks s) fn"
  let ?x = "if ?ok then t else if os_open st then take (env_taken env (ticks s) fn) (butlast t) else []"
  let ?k = "env_written env (ticks s) fn"
  have "\<exists>k. take n (butlast t) = take k t" for n
    by (auto simp: butlast_conv_take)
  moreover have "\<exists>k. [] = take k t" by (intro exI [of _ 0]) simp
  ultimately have part: "\<exists>k. ?x = take k t" if "\<not> ?ok"
    using that by simp
  show ?thesis
    using False assms part
    by - (rule exI [of _ ?x], rule exI [of _ "take ?k (os_buf st @ ?x)"],
        rule exI [of _ "st\<lparr>os_fail := \<not> ?ok, os_buf := drop ?k (os_buf st @ ?x)\<rparr>"],
        simp add: file_put_def Let_def sys_simps del: take_append drop_append)
qed

lemma file_put_device:
  "\<exists>x w. file_sink a (file_put env a s t) = file_sink a s @ x \<and>
    file_disk a (file_put env a s t) = file_disk a s @ w \<and>
    w @ file_buf a (file_put env a s t) = file_buf a s @ x \<and>
    (if \<not> file_ready a s then \<not> file_ready a (file_put env a s t) \<and> x = []
     else if file_ready a (file_put env a s t) then x = t else \<exists>k. x = take k t)"
proof -
  note defs = file_sink_def file_disk_def file_buf_def file_ready_def file_of_def file_good_def length_file_put
  consider "\<not> a < length (appenders s)" | "ap_class (appenders s ! a) = StdoutLogAppender"
    | fn st lt where "a < length (appenders s)" "ap_class (appenders s ! a) = FileLogAppender fn st lt"
    by (cases "ap_class (appenders s ! a)") auto
  then show ?thesis
  proof cases
    case 1
    then show ?thesis by (simp add: defs)
  next
    case 2
    then have "file_put env a s t = s" by (simp add: file_put_def)
    with 2 show ?thesis by (simp add: defs)
  next
    case 3
    from file_put_takes [OF this, of env t] 3 show ?thesis by (auto simp: defs)
  qed
qed

interpretation file_stream: buffered_ostream "file_put env a" "file_sink a" "file_ready a" "file_disk a" "file_buf a"
  for env a
proof
  fix s t
  note law = file_put_device [of a env s t]
  show "file_ready a s \<Longrightarrow> file_ready a (file_put env a s t) \<Longrightarrow> file_sink a (file_put env a s t) = file_sink a s @ t"
    "file_ready a s \<Longrightarrow> \<not> file_ready a (file_put env a s t) \<Longrightarrow>
      \<exists>k. file_sink a (file_put env a s t) = file_sink a s @ take k t"
    "\<not> file_ready a s \<Longrightarrow>
      \<not> file_ready a (file_put env a s t) \<and> file_sink a (file_put env a s t) = file_sink a s"
    using law by auto
  show "\<exists>x w. file_sink a (file_put env a s t) = file_sink a s @ x \<and>
      file_disk a (file_put env a s t) = file_disk a s @ w \<and>
      w @ file_buf a (file_put env a s t) = file_buf a s @ x"
    using law by blast
qed

lemma file_of_frame: "log_frame s s' \<Longrightarrow> a < length (appenders s) \<Longrightarrow> file_of s' a = file_of s a"
  using log_frame_nth [of s s' a]
  by (cases "ap_class (appenders s ! a)"; cases "ap_class (appenders s' ! a)")
    (auto simp: file_of_def appender_frame_def)

text \<open>A write touches no file but the one of the appender.\<close>

lemma file_put_other:
  "file_of s a \<noteq> Some fn \<Longrightarrow>
    files (file_put env a s t) fn = files s fn \<and> disk (file_put env a s t) fn = disk s fn"
  by (auto simp: file_put_def file_of_def sys_simps Let_def split: appender_class.splits)

lemma file_put_cout: "cout (file_put env a s t) = cout s"
  by (auto simp: file_put_def sys_simps Let_def split: appender_class.splits)

lemma fold_file_put_frame:
  assumes "a < length (appenders s)"
  shows "log_frame s (fold (\<lambda>t s. file_put env a s t) ts s)"
proof (rule fold_put_frame [where P = "\<lambda>s. a < length (appenders s)"])
  show "log_frame t (file_put env a t x) \<and> a < length (appenders (file_put env a t x))"
    if "a < length (appenders t)" for t x
    using file_put_frame [OF that, of env x] that by (simp add: log_frame_length)
qed (rule assms)

lemma fold_file_put_other:
  "a < length (appenders s) \<Longrightarrow> file_of s a \<noteq> Some fn \<Longrightarrow>
    files (fold (\<lambda>t s. file_put env a s t) ts s) fn = files s fn \<and>
    disk (fold (\<lambda>t s. file_put env a s t) ts s) fn = disk s fn"
proof (induction ts arbitrary: s)
  case Nil
  then show ?case by simp
next
  case (Cons t ts)
  let ?s = "file_put env a s t"
  have fr: "log_frame s ?s" using Cons.prems by (intro file_put_frame)
  have "files (fold (\<lambda>t s. file_put env a s t) ts ?s) fn = files ?s fn \<and>
      disk (fold (\<lambda>t s. file_put env a s t) ts ?s) fn = disk ?s fn"
    using Cons.prems log_frame_length [OF fr] by (intro Cons.IH) (auto simp: file_of_frame [OF fr])
  with Cons.prems show ?case by (simp add: file_put_other)
qed

lemma fold_file_put_cout: "cout (fold (\<lambda>t s. file_put env a s t) ts s) = cout s"
  by (induction ts arbitrary: s) (simp_all add: file_put_cout)

lemma reopen_if_due_devices:
  "files (reopen_if_due env a e s) = files s" "cout (reopen_if_due env a e s) = cout s"
  by (auto simp: reopen_if_due_def FileLogAppender_Reopen_def Let_def sys_simps
      split: appender_class.splits prod.splits)

text \<open>
  Closing a stream that has not failed, \<open>Reopen\<close> loses what is in its buffer if that cannot be
  written. The stream is then opened again, so nobody is told.
\<close>

definition close_fails :: "log_env \<Rightarrow> nat \<Rightarrow> log_event \<Rightarrow> log_sys \<Rightarrow> bool" where
  "close_fails env a e s \<longleftrightarrow>
     (case ap_class (appenders s ! a) of
        StdoutLogAppender \<Rightarrow> False
      | FileLogAppender fn st lt \<Rightarrow>
          lt + 3 \<le> ev_time e \<and> os_open st \<and> \<not> os_fail st \<and> \<not> env_close_ok env (ticks s) fn)"

lemma reopen_if_due_disk:
  assumes a: "a < length (appenders s)" and fn: "file_of s a = Some fn"
  shows "\<exists>w lost. disk (reopen_if_due env a e s) = (disk s)(fn := disk s fn @ w) \<and>
    w @ lost @ file_buf a (reopen_if_due env a e s) = file_buf a s \<and>
    (lost = [] \<or> close_fails env a e s \<and> file_buf a (reopen_if_due env a e s) = [])"
proof -
  obtain st lt where cl: "ap_class (appenders s ! a) = FileLogAppender fn st lt"
    using fn by (auto simp: file_of_def split: appender_class.splits)
  let ?n = "ticks s"
  consider "\<not> lt + 3 \<le> ev_time e \<or> os_fail st \<or> \<not> os_open st"
    | "lt + 3 \<le> ev_time e" "\<not> os_fail st" "os_open st" "env_close_ok env ?n fn"
    | "lt + 3 \<le> ev_time e" "\<not> os_fail st" "os_open st" "\<not> env_close_ok env ?n fn"
    by blast
  then show ?thesis
  proof cases
    case 1
    with a cl show ?thesis
      by - (rule exI [of _ "[]"], rule exI [of _ "[]"],
        auto simp: reopen_if_due_def FileLogAppender_Reopen_def ofstream_close_def ofstream_open_def Let_def
          file_buf_def sys_simps)
  next
    case 2
    with a cl show ?thesis
      by - (rule exI [of _ "os_buf st"], rule exI [of _ "[]"],
        auto simp: reopen_if_due_def FileLogAppender_Reopen_def ofstream_close_def ofstream_open_def Let_def
          file_buf_def sys_simps)
  next
    case 3
    with a cl show ?thesis
      by - (rule exI [of _ "take (env_written env ?n fn) (os_buf st)"], rule exI [of _ "drop (env_written env ?n fn) (os_buf st)"],
        auto simp: reopen_if_due_def FileLogAppender_Reopen_def ofstream_close_def ofstream_open_def Let_def
          file_buf_def sys_simps
          close_fails_def)
  qed
qed

section \<open>A record in a file, in any environment\<close>

text \<open>The text of a record for the formatter of the appender at \<open>a\<close>.\<close>

definition record_texts :: "log_env \<Rightarrow> log_sys \<Rightarrow> nat \<Rightarrow> log_event \<Rightarrow> string list" where
  "record_texts env s a e =
     (case ap_formatter (appenders s ! a) of
        None \<Rightarrow> []
      | Some f \<Rightarrow> the (item_texts (env_time_text env) (logger_name s) e (fmt_items f)))"

definition record_text :: "log_env \<Rightarrow> log_sys \<Rightarrow> nat \<Rightarrow> log_event \<Rightarrow> string" where
  "record_text env s a e = concat (record_texts env s a e)"

lemma record_texts_frame:
  "log_frame s s' \<Longrightarrow> a < length (appenders s) \<Longrightarrow> record_texts env s' a e = record_texts env s a e"
  using log_frame_nth [of s s' a] logger_name_cong [OF log_frame_loggers, of s s']
  by (simp add: record_texts_def appender_frame_def split: option.split)

text \<open>\<open>FileLogAppender::Log\<close> as the reopening followed by the writes of the items.\<close>

lemma FileLogAppender_Log_writes:
  assumes a: "attached_ok s a" and fa: "file_of s a = Some fn" and e: "ev_logger e < length (loggers s)"
  shows "FileLogAppender_Log env a lvl e s =
    (let s2 = fold (\<lambda>t s. file_put env a s t) (record_texts env s a e) (reopen_if_due env a e s)
     in Ok () (if file_good a s2 then s2 else print_cout s2 (''error'' @ [CHR 0x0A])))"
proof -
  obtain st lt where cl: "ap_class (appenders s ! a) = FileLogAppender fn st lt"
    using fa by (auto simp: file_of_def split: appender_class.splits)
  have len: "a < length (appenders s)" using a by (simp add: attached_ok_def)
  let ?s1 = "reopen_if_due env a e s"
  have fr: "log_frame s ?s1" using len by (rule reopen_if_due_frame)
  obtain f where f: "ap_formatter (appenders s ! a) = Some f"
    using a by (auto simp: attached_ok_def)
  then have f1: "ap_formatter (appenders ?s1 ! a) = Some f"
    using log_frame_nth [OF fr len] by (simp add: appender_frame_def)
  have nm: "logger_name ?s1 = logger_name s" using log_frame_loggers [OF fr] by (rule logger_name_cong)
  obtain ts where ts: "item_texts (env_time_text env) (logger_name s) e (fmt_items f) = Some ts"
    using item_texts_Some [of "logger_name s" e] e by (auto simp: logger_name_def)
  show ?thesis
    by (simp add: FileLogAppender_Log_unfold [OF cl] Let_def f1 nm Format_ostream_fold ts
        record_texts_def f)
qed

lemma StdoutLogAppender_Log_writes:
  assumes a: "attached_ok s a" and e: "ev_logger e < length (loggers s)"
  shows "StdoutLogAppender_Log env a lvl e s = Ok () (print_cout s (record_text env s a e))"
proof -
  obtain f where f: "ap_formatter (appenders s ! a) = Some f"
    using a by (auto simp: attached_ok_def)
  obtain ts where ts: "item_texts (env_time_text env) (logger_name s) e (fmt_items f) = Some ts"
    using item_texts_Some [of "logger_name s" e] e by (auto simp: logger_name_def)
  have "fold (\<lambda>t s. print_cout s t) xs s = print_cout s (concat xs)" for xs
    by (induction xs arbitrary: s) (simp_all add: print_cout_def)
  then show ?thesis
    by (simp add: StdoutLogAppender_Log_def f Format_ostream_fold ts record_text_def record_texts_def)
qed

lemma LogAppender_Log_cases:
  "a < length (appenders s) \<Longrightarrow> LogAppender_Log env a lvl e s =
    (case file_of s a of None \<Rightarrow> StdoutLogAppender_Log env a lvl e s
     | Some fn \<Rightarrow> FileLogAppender_Log env a lvl e s)"
  by (auto simp: LogAppender_Log_def file_of_def split: appender_class.splits)

section \<open>Delivery in an environment that does not fail\<close>

definition reliable :: "log_env \<Rightarrow> bool" where
  "reliable env \<longleftrightarrow> (\<forall>n fn. env_open_ok env n fn \<and> env_write_ok env n fn)"

definition stream_ok :: "log_appender \<Rightarrow> bool" where
  "stream_ok ap =
     (case ap_class ap of
        StdoutLogAppender \<Rightarrow> True
      | FileLogAppender fn st lt \<Rightarrow> os_open st \<and> \<not> os_fail st)"

definition streams_ok :: "log_sys \<Rightarrow> bool" where
  "streams_ok s \<longleftrightarrow> (\<forall>ap \<in> set (appenders s). stream_ok ap)"

lemma streams_ok_update_appender:
  "streams_ok s \<Longrightarrow> stream_ok (g (appenders s ! a)) \<Longrightarrow> streams_ok (update_appender a g s)"
  using set_update_subset_insert [of "appenders s" a "g (appenders s ! a)"]
  by (auto simp: streams_ok_def update_appender_def)

lemma streams_ok_simps [simp]:
  "streams_ok (s\<lparr>ticks := n\<rparr>) = streams_ok s"
  "streams_ok (s\<lparr>files := fs\<rparr>) = streams_ok s"
  "streams_ok (write_disk fn x s) = streams_ok s"
  "streams_ok (print_cout s t) = streams_ok s"
  by (simp_all add: streams_ok_def print_cout_def write_disk_def)

lemma streams_ok_reopen:
  assumes ok: "streams_ok s" and rel: "reliable env" and a: "a < length (appenders s)"
  shows "streams_ok (reopen_if_due env a e s)"
proof (cases "ap_class (appenders s ! a)")
  case StdoutLogAppender
  with ok show ?thesis by (simp add: reopen_if_due_def)
next
  case (FileLogAppender fn st lt)
  have "stream_ok (appenders s ! a)" using ok a by (simp add: streams_ok_def)
  with FileLogAppender have st: "os_open st" "\<not> os_fail st" by (simp_all add: stream_ok_def)
  let ?t = "snd (FileLogAppender_Reopen env a s)"
  have "\<exists>st'. streams_ok ?t \<and> ap_class (appenders ?t ! a) = FileLogAppender fn st' lt \<and> os_open st' \<and> \<not> os_fail st'"
    using ok st rel a
    by (auto simp: FileLogAppender_Reopen_def FileLogAppender ofstream_close_def ofstream_open_def Let_def
        reliable_def stream_ok_def sys_simps intro!: streams_ok_update_appender)
  then obtain st' where t: "streams_ok ?t" "ap_class (appenders ?t ! a) = FileLogAppender fn st' lt"
    "os_open st'" "\<not> os_fail st'" by blast
  then have "streams_ok (update_appender a
      (\<lambda>ap. case ap_class ap of
         FileLogAppender fn' st' lt' \<Rightarrow> ap\<lparr>ap_class := FileLogAppender fn' st' (ev_time e)\<rparr>
       | StdoutLogAppender \<Rightarrow> ap) ?t)"
    by (intro streams_ok_update_appender) (simp_all add: stream_ok_def)
  with ok FileLogAppender show ?thesis by (simp add: reopen_if_due_def)
qed

text \<open>A stream that is open and has not failed, in the state \<open>t\<close>, after it has taken \<open>x\<close> since \<open>s\<close>.\<close>

definition takes_all :: "nat \<Rightarrow> string \<Rightarrow> string \<Rightarrow> log_sys \<Rightarrow> log_sys \<Rightarrow> bool" where
  "takes_all a fn x s t \<longleftrightarrow>
     (\<exists>st lt. ap_class (appenders t ! a) = FileLogAppender fn st lt \<and> os_open st \<and> \<not> os_fail st) \<and>
     length (appenders t) = length (appenders s) \<and> files t = (files s)(fn := files s fn @ x) \<and>
     (streams_ok s \<longrightarrow> streams_ok t)"

lemma file_put_takes_all:
  assumes "a < length (appenders s)" and "ap_class (appenders s ! a) = FileLogAppender fn st lt"
    and "os_open st" and "\<not> os_fail st" and "reliable env"
  shows "takes_all a fn x s (file_put env a s x)"
proof (cases "x = []")
  case True
  with assms show ?thesis by (simp add: takes_all_def file_put_def)
next
  case False
  with assms show ?thesis
    by (auto simp: takes_all_def file_put_def reliable_def Let_def sys_simps stream_ok_def
        intro: streams_ok_update_appender)
qed

lemma fold_file_put_ok:
  assumes "a < length (appenders s)" and "ap_class (appenders s ! a) = FileLogAppender fn st lt"
    and "os_open st" and "\<not> os_fail st" and rel: "reliable env"
  shows "takes_all a fn (concat ts) s (fold (\<lambda>t s. file_put env a s t) ts s)"
  using assms(1-4)
proof (induction ts arbitrary: s st lt)
  case Nil
  then show ?case by (auto simp: takes_all_def)
next
  case (Cons t ts)
  let ?s = "file_put env a s t"
  have put: "takes_all a fn t s ?s" using Cons.prems rel by (rule file_put_takes_all)
  then obtain st' lt' where "ap_class (appenders ?s ! a) = FileLogAppender fn st' lt'" "os_open st'" "\<not> os_fail st'"
    by (auto simp: takes_all_def)
  moreover have "a < length (appenders ?s)" using Cons.prems(1) by (simp add: length_file_put)
  ultimately have "takes_all a fn (concat ts) ?s (fold (\<lambda>t s. file_put env a s t) ts ?s)"
    by (intro Cons.IH)
  with put show ?case by (auto simp: takes_all_def)
qed

text \<open>The records that the appenders in \<open>as\<close> send to the device \<open>d\<close>, in order.\<close>

definition sent_to :: "log_env \<Rightarrow> log_sys \<Rightarrow> string option \<Rightarrow> nat list \<Rightarrow> log_event \<Rightarrow> string" where
  "sent_to env s d as e = concat (map (\<lambda>a. record_text env s a e) (filter (\<lambda>a. file_of s a = d) as))"

lemma sent_to_simps [simp]:
  "sent_to env s d [] e = []"
  "sent_to env s d (a # as) e =
    (if file_of s a = d then record_text env s a e else []) @ sent_to env s d as e"
  by (simp_all add: sent_to_def)

lemma sent_to_frame:
  assumes "log_frame s s'" and "\<forall>a \<in> set as. a < length (appenders s)"
  shows "sent_to env s' d as e = sent_to env s d as e"
  using assms(2)
  by (induction as) (simp_all add: file_of_frame [OF assms(1)] record_texts_frame [OF assms(1)]
      record_text_def)

lemma LogAppender_Log_delivers:
  assumes a: "attached_ok s a" and e: "ev_logger e < length (loggers s)"
    and ok: "streams_ok s" and rel: "reliable env"
  shows "\<exists>s'. LogAppender_Log env a lvl e s = Ok () s' \<and> log_frame s s' \<and> streams_ok s' \<and>
    cout s' = cout s @ sent_to env s None [a] e \<and>
    (\<forall>fn. files s' fn = files s fn @ sent_to env s (Some fn) [a] e)"
proof (cases "file_of s a")
  case None
  with a e ok show ?thesis
    by (simp add: LogAppender_Log_cases attached_ok_def StdoutLogAppender_Log_writes [OF a e] sys_simps)
next
  case (Some fn)
  have len: "a < length (appenders s)" using a by (simp add: attached_ok_def)
  let ?s1 = "reopen_if_due env a e s"
  have fr: "log_frame s ?s1" using len by (rule reopen_if_due_frame)
  have len1: "a < length (appenders ?s1)" using log_frame_length [OF fr] len by simp
  have ok1: "streams_ok ?s1" using ok rel len by (rule streams_ok_reopen)
  obtain st lt where cl: "ap_class (appenders ?s1 ! a) = FileLogAppender fn st lt"
    using file_of_frame [OF fr len] Some by (auto simp: file_of_def split: appender_class.splits)
  have "stream_ok (appenders ?s1 ! a)" using ok1 len1 by (simp add: streams_ok_def)
  then have st: "os_open st" "\<not> os_fail st" using cl by (simp_all add: stream_ok_def)
  let ?ts = "record_texts env s a e"
  let ?s2 = "fold (\<lambda>t s. file_put env a s t) ?ts ?s1"
  have s2: "takes_all a fn (concat ?ts) ?s1 ?s2" using len1 cl st rel by (rule fold_file_put_ok)
  then have "file_good a ?s2" by (auto simp: takes_all_def file_good_def)
  then have "LogAppender_Log env a lvl e s = Ok () ?s2"
    by (simp add: LogAppender_Log_cases len Some FileLogAppender_Log_writes [OF a Some e] Let_def)
  moreover have "log_frame s ?s2" using fr fold_file_put_frame [OF len1] by (rule log_frame_trans)
  moreover have "cout ?s2 = cout s" by (simp add: fold_file_put_cout reopen_if_due_devices)
  moreover have "files ?s2 = (files s)(fn := files s fn @ record_text env s a e)" "streams_ok ?s2"
    using s2 ok1 by (simp_all add: takes_all_def reopen_if_due_devices record_text_def)
  ultimately show ?thesis using Some by simp
qed

lemma appenders_Log_deliver:
  assumes "\<forall>a \<in> set as. attached_ok s a" and "ev_logger e < length (loggers s)"
    and "streams_ok s" and rel: "reliable env"
  shows "\<exists>s'. for_each (\<lambda>a. LogAppender_Log env a lvl e) as s = Ok () s' \<and> log_frame s s' \<and>
    streams_ok s' \<and> cout s' = cout s @ sent_to env s None as e \<and>
    (\<forall>fn. files s' fn = files s fn @ sent_to env s (Some fn) as e)"
  using assms(1-3)
proof (induction as arbitrary: s)
  case Nil
  then show ?case by simp
next
  case (Cons a as)
  from Cons.prems obtain t where t: "LogAppender_Log env a lvl e s = Ok () t" "log_frame s t"
      "streams_ok t" "cout t = cout s @ sent_to env s None [a] e"
      "\<forall>fn. files t fn = files s fn @ sent_to env s (Some fn) [a] e"
    using LogAppender_Log_delivers [of s a e env lvl] rel by auto
  have len: "\<forall>b \<in> set as. b < length (appenders s)"
    using Cons.prems(1) by (simp add: attached_ok_def)
  obtain s' where s': "for_each (\<lambda>a. LogAppender_Log env a lvl e) as t = Ok () s'" "log_frame t s'"
      "streams_ok s'" "cout s' = cout t @ sent_to env t None as e"
      "\<forall>fn. files s' fn = files t fn @ sent_to env t (Some fn) as e"
    using Cons.IH [of t] Cons.prems t(2,3) by (auto simp: attached_ok_frame log_frame_loggers)
  have "log_frame s s'" using t(2) s'(2) by (rule log_frame_trans)
  with t s' show ?case by (simp add: sent_to_frame [OF t(2) len])
qed

lemma Logger_Log_deliver:
  assumes wf: "wf_sys s" and l: "l < length (loggers s)" and e: "ev_logger e < length (loggers s)"
    and ne: "effective_appenders s l \<noteq> []" and ok: "streams_ok s" and rel: "reliable env"
  shows "\<exists>s'. Logger_Log env [] l lvl e s = Ok () s' \<and> log_frame s s' \<and> streams_ok s' \<and>
    cout s' = cout s @ sent_to env s None (effective_appenders s l) e \<and>
    (\<forall>fn. files s' fn = files s fn @ sent_to env s (Some fn) (effective_appenders s l) e)"
  using appenders_Log_deliver [OF _ e ok rel] effective_attached [OF wf l] ne
  by (fastforce simp: Logger_Log_effective [OF wf l])

section \<open>A failed write is for good\<close>

text \<open>
  A stream that is open and has failed: \<open>Reopen\<close> closes a stream only while it has not failed,
  and opening an open stream fails again.
\<close>

definition stuck :: "nat \<Rightarrow> log_sys \<Rightarrow> bool" where
  "stuck a s \<longleftrightarrow>
     (case ap_class (appenders s ! a) of
        StdoutLogAppender \<Rightarrow> False
      | FileLogAppender fn st lt \<Rightarrow> os_open st \<and> os_fail st)"

lemma stuck_put: "stuck a s \<Longrightarrow> file_put env a s t = s"
  by (auto simp: stuck_def file_put_def split: appender_class.splits)

lemma stuck_fold_put: "stuck a s \<Longrightarrow> fold (\<lambda>t s. file_put env a s t) ts s = s"
  by (induction ts) (simp_all add: stuck_put)

lemma stuck_not_good: "stuck a s \<Longrightarrow> \<not> file_good a s"
  by (auto simp: stuck_def file_good_def split: appender_class.splits)

lemma stuck_reopen_if_due:
  "a < length (appenders s) \<Longrightarrow> stuck a s \<Longrightarrow> stuck a (reopen_if_due env a e s)"
  by (auto simp: stuck_def reopen_if_due_def FileLogAppender_Reopen_def ofstream_open_def Let_def
      sys_simps split: appender_class.splits)

lemma stuck_reopen_disk: "stuck a s \<Longrightarrow> disk (reopen_if_due env a e s) = disk s"
  by (auto simp: stuck_def reopen_if_due_def FileLogAppender_Reopen_def Let_def sys_simps
      split: appender_class.splits)

lemma stuck_file_of: "stuck a s \<Longrightarrow> file_of s a \<noteq> None"
  by (auto simp: stuck_def file_of_def split: appender_class.splits)

lemma stuck_Log:
  assumes "stuck a s" and "attached_ok s a" and "ev_logger e < length (loggers s)"
  shows "\<exists>s'. FileLogAppender_Log env a lvl e s = Ok () s' \<and> log_frame s s' \<and> stuck a s' \<and>
    files s' = files s \<and> disk s' = disk s"
proof -
  obtain fn where fn: "file_of s a = Some fn" using stuck_file_of [OF assms(1)] by blast
  have len: "a < length (appenders s)" using assms(2) by (simp add: attached_ok_def)
  let ?s1 = "reopen_if_due env a e s"
  have "stuck a ?s1" using len assms(1) by (rule stuck_reopen_if_due)
  then have "FileLogAppender_Log env a lvl e s = Ok () (print_cout ?s1 (''error'' @ [CHR 0x0A]))"
    and "stuck a (print_cout ?s1 (''error'' @ [CHR 0x0A]))"
    by (simp_all add: FileLogAppender_Log_writes [OF assms(2) fn assms(3)] stuck_fold_put
        stuck_not_good stuck_def sys_simps)
  then show ?thesis
    using reopen_if_due_frame [OF len, of env e]
    by (simp add: sys_simps reopen_if_due_devices stuck_reopen_disk [OF assms(1)])
qed

lemma stuck_for_good:
  assumes "stuck a s" and "attached_ok s a" and "\<forall>(env, e) \<in> set es. ev_logger e < length (loggers s)"
  shows "\<exists>s'. for_each (\<lambda>(env, e). FileLogAppender_Log env a lvl e) es s = Ok () s' \<and>
    stuck a s' \<and> files s' = files s \<and> disk s' = disk s"
proof -
  let ?P = "\<lambda>t. log_frame s t \<and> stuck a t \<and> files t = files s \<and> disk t = disk s"
  have "\<exists>s'. for_each (\<lambda>(env, e). FileLogAppender_Log env a lvl e) es s = Ok () s' \<and> ?P s'"
  proof (rule for_each_invariant)
    show "\<exists>t'. (case x of (env, e) \<Rightarrow> FileLogAppender_Log env a lvl e) t = Ok () t' \<and> ?P t'"
      if x: "x \<in> set es" and t: "?P t" for x t
    proof -
      obtain env e where xe: "x = (env, e)" by (cases x)
      have "attached_ok t a" using t assms(2) attached_ok_frame [of s t a] by simp
      moreover have "ev_logger e < length (loggers t)"
        using assms(3) x xe t log_frame_loggers [of s t] by auto
      ultimately obtain t' where "FileLogAppender_Log env a lvl e t = Ok () t'" "log_frame t t'"
          "stuck a t'" "files t' = files t" "disk t' = disk t"
        using stuck_Log [of a t e env lvl] t by auto
      with t xe show ?thesis by (auto intro: log_frame_trans)
    qed
  qed (use assms(1) in simp)
  then show ?thesis by blast
qed

section \<open>Levels play no part\<close>

definition strip_levels :: "log_sys \<Rightarrow> log_sys" where
  "strip_levels s =
     s\<lparr>loggers := map (\<lambda>lg. lg\<lparr>lg_level := UNKONW\<rparr>) (loggers s),
       appenders := map (\<lambda>ap. ap\<lparr>ap_level := UNKONW\<rparr>) (appenders s)\<rparr>"

fun map_state :: "('s \<Rightarrow> 's) \<Rightarrow> ('a, 's) result \<Rightarrow> ('a, 's) result" where
  "map_state f (Ok a s) = Ok a (f s)"
| "map_state f (Throw e s) = Throw e (f s)"
| "map_state f (Crash c) = Crash c"

lemma strip_simps [simp]:
  "length (loggers (strip_levels s)) = length (loggers s)"
  "length (appenders (strip_levels s)) = length (appenders s)"
  "files (strip_levels s) = files s" "cout (strip_levels s) = cout s"
  "ticks (strip_levels s) = ticks s"
  "strip_levels (s\<lparr>ticks := n\<rparr>) = (strip_levels s)\<lparr>ticks := n\<rparr>"
  "strip_levels (s\<lparr>files := fs\<rparr>) = (strip_levels s)\<lparr>files := fs\<rparr>"
  "strip_levels (print_cout s t) = print_cout (strip_levels s) t"
  "strip_levels (write_disk fn t s) = write_disk fn t (strip_levels s)"
  by (simp_all add: strip_levels_def print_cout_def write_disk_def)

lemma strip_logger [simp]:
  assumes "l < length (loggers s)"
  shows "lg_appenders (loggers (strip_levels s) ! l) = lg_appenders (loggers s ! l)"
    and "lg_root (loggers (strip_levels s) ! l) = lg_root (loggers s ! l)"
  using assms by (simp_all add: strip_levels_def)

lemma strip_appender [simp]:
  assumes "a < length (appenders s)"
  shows "ap_class (appenders (strip_levels s) ! a) = ap_class (appenders s ! a)"
    and "ap_formatter (appenders (strip_levels s) ! a) = ap_formatter (appenders s ! a)"
  using assms by (simp_all add: strip_levels_def)

lemma strip_logger_name [simp]: "logger_name (strip_levels s) = logger_name s"
  by (auto simp: logger_name_def strip_levels_def)

lemma level_class_commute:
  "(ap :: log_appender)\<lparr>ap_class := c, ap_level := u\<rparr> = ap\<lparr>ap_level := u, ap_class := c\<rparr>"
  by simp

lemma strip_update_class:
  "a < length (appenders s) \<Longrightarrow>
    strip_levels (update_appender a (\<lambda>ap. ap\<lparr>ap_class := c\<rparr>) s) =
    update_appender a (\<lambda>ap. ap\<lparr>ap_class := c\<rparr>) (strip_levels s)"
  by (simp add: strip_levels_def update_appender_def map_update level_class_commute)

lemma strip_file_put:
  "a < length (appenders s) \<Longrightarrow> strip_levels (file_put env a s t) = file_put env a (strip_levels s) t"
  by (auto simp: file_put_def strip_update_class Let_def split: appender_class.splits)

lemma strip_fold_put:
  assumes "a < length (appenders s)"
  shows "strip_levels (fold (\<lambda>t s. file_put env a s t) ts s) =
    fold (\<lambda>t s. file_put env a s t) ts (strip_levels s)"
  using assms
proof (induction ts arbitrary: s)
  case Nil
  then show ?case by simp
next
  case (Cons t ts)
  then show ?case
    using log_frame_length [OF file_put_frame [OF Cons.prems, of env t]]
    by (simp add: strip_file_put)
qed

lemma strip_reopen_if_due:
  assumes a: "a < length (appenders s)"
  shows "strip_levels (reopen_if_due env a e s) = reopen_if_due env a e (strip_levels s)"
proof (cases "ap_class (appenders s ! a)")
  case StdoutLogAppender
  with a show ?thesis by (simp add: reopen_if_due_def)
next
  case (FileLogAppender fn st lt)
  with a show ?thesis
    by (simp add: reopen_if_due_def FileLogAppender_Reopen_def Let_def update_appender_def
        strip_levels_def write_disk_def map_update level_class_commute split: prod.split)
qed

lemma strip_LogAppender_Log:
  "map_state strip_levels (LogAppender_Log env a lvl e s) =
    LogAppender_Log env a lvl' e (strip_levels s)"
proof (cases "a < length (appenders s)")
  case False
  then show ?thesis by (simp add: LogAppender_Log_def)
next
  case a: True
  show ?thesis
  proof (cases "ap_class (appenders s ! a)")
    case StdoutLogAppender
    have "strip_levels (fold (\<lambda>t s. print_cout s t) ts s) =
        fold (\<lambda>t s. print_cout s t) ts (strip_levels s)" for ts
      by (induction ts arbitrary: s) simp_all
    with a StdoutLogAppender show ?thesis
      by (auto simp: LogAppender_Log_def StdoutLogAppender_Log_def Format_ostream_fold
          split: option.splits)
  next
    case (FileLogAppender fn st lt)
    let ?s1 = "reopen_if_due env a e s"
    have a1: "a < length (appenders ?s1)"
      using a log_frame_length [OF reopen_if_due_frame [OF a]] by simp
    have good: "file_good a (strip_levels u) = file_good a u"
      if "a < length (appenders u)" for u
      using that by (simp add: file_good_def)
    have len: "a < length (appenders (fold (\<lambda>t s. file_put env a s t) ts ?s1))" for ts
      using a1 log_frame_length [OF fold_file_put_frame [OF a1, of env ts]] by simp
    have cl: "ap_class (appenders (strip_levels s) ! a) = FileLogAppender fn st lt"
      using FileLogAppender a by simp
    show ?thesis
      using a a1 len FileLogAppender
      by (auto simp: LogAppender_Log_def FileLogAppender_Log_unfold [OF FileLogAppender]
          FileLogAppender_Log_unfold [OF cl] Let_def Format_ostream_fold
          strip_reopen_if_due [OF a, symmetric] strip_fold_put [OF a1, symmetric] good
          split: option.splits)
  qed
qed

lemma strip_appenders_Log:
  "map_state strip_levels (for_each (\<lambda>a. LogAppender_Log env a lvl e) as s) =
    for_each (\<lambda>a. LogAppender_Log env a lvl' e) as (strip_levels s)"
proof (induction as arbitrary: s)
  case Nil
  then show ?case by simp
next
  case (Cons a as)
  note step = strip_LogAppender_Log [of env a lvl e s lvl', symmetric]
  show ?case
    by (cases "LogAppender_Log env a lvl e s") (simp_all add: step Cons.IH)
qed

lemma strip_Logger_Log:
  "map_state strip_levels (Logger_Log env held l lvl e s) =
    Logger_Log env held l lvl' e (strip_levels s)"
proof (induction env held l lvl e s rule: Logger_Log.induct)
  case (1 env held l lvl e s)
  show ?case
  proof (cases "length (loggers s) \<le> l \<or> l \<in> set held \<or> lg_appenders (loggers s ! l) \<noteq> []")
    case True
    then show ?thesis
      by (subst (1 2) Logger_Log.simps) (auto simp: strip_appenders_Log)
  next
    case False
    with 1 show ?thesis
      by (cases "lg_root (loggers s ! l)") (simp_all add: Logger_Log_no_root Logger_Log_root)
  qed
qed

end
