(* ===== verification/Log_Properties.thy ===== *)
theory Log_Properties
  imports Log_Delivery
begin

text \<open>
  The properties of the logging system: the invariant of the reachable states, the registry of
  loggers, when logging crashes, what is delivered, how formatters are inherited, and what the
  levels and the formatting macros do not do.
\<close>

lemma reachable_wf: "sys_reachable s \<Longrightarrow> wf_sys s"
  by (induction rule: sys_reachable.induct) (auto intro: wf_sys_initial sys_step_wf)

text \<open>
  C13: Every state that a program reaches from the constructor of \<open>LoggerManager\<close> by any
  sequence of the public operations (any environment, no null formatter passed) is well formed:
  the registry is sorted and maps each name to a logger of that name whose fallback is the root
  logger, every attached appender exists and has a formatter, and every file stream is open or
  marked as failed.
\<close>

theorem reachable_states_wf: "sys_reachable s \<Longrightarrow> wf_sys s"
  by (rule reachable_wf)

theorem reachable_states_wf_witness:
  "\<exists>s. sys_reachable s \<and> map_find string_lt ''system'' (mgr_loggers s) = Some 1 \<and> wf_sys s"
proof -
  obtain s0 where s0: "new_LoggerManager = Ok () s0" by (simp add: new_LoggerManager_state)
  let ?s = "snd (LoggerManager_GetLogger ''system'' s0)"
  have r: "sys_reachable ?s"
    by (rule sys_reachable.step [OF sys_reachable.start [OF s0] sys_step.get_logger])
  have "map_find string_lt ''system'' (mgr_loggers ?s) = Some 1"
    using s0 by (auto simp: new_LoggerManager_state LoggerManager_GetLogger_def alloc_logger_def
        string_lt_def)
  with r reachable_states_wf [OF r] show ?thesis by blast
qed

text \<open>
  \<open>GetLogger\<close> is a registry: a name always yields the same logger whatever other loggers
  are requested in between, different names yield different loggers, and the logger carries the
  name it was requested by.
\<close>

theorem GetLogger_registry:
  assumes "sys_reachable s" and "m \<noteq> n"
  shows "fst (LoggerManager_GetLogger n
           (fold (\<lambda>k s. snd (LoggerManager_GetLogger k s)) ks (snd (LoggerManager_GetLogger n s))))
         = fst (LoggerManager_GetLogger n s) \<and>
    fst (LoggerManager_GetLogger m (snd (LoggerManager_GetLogger n s)))
      \<noteq> fst (LoggerManager_GetLogger n s) \<and>
    logger_name (snd (LoggerManager_GetLogger n s)) (fst (LoggerManager_GetLogger n s)) = Some n"
proof (intro conjI)
  have wf: "wf_sys s" using assms(1) by (rule reachable_wf)
  show "fst (LoggerManager_GetLogger n
           (fold (\<lambda>k s. snd (LoggerManager_GetLogger k s)) ks (snd (LoggerManager_GetLogger n s))))
         = fst (LoggerManager_GetLogger n s)"
    using loggers_registry.get_stable [OF wf, where k = n and ks = ks]
    by (simp add: loggers_registry.get_all_def list_all_iff)
  show "fst (LoggerManager_GetLogger m (snd (LoggerManager_GetLogger n s)))
      \<noteq> fst (LoggerManager_GetLogger n s)"
    using loggers_registry.get_distinct [OF wf, of m n] assms(2) by simp
  show "logger_name (snd (LoggerManager_GetLogger n s)) (fst (LoggerManager_GetLogger n s)) = Some n"
    using wf_sys_registered [OF wf_sys_GetLogger [OF wf], of n n]
      loggers_registry.get_stored [OF wf, of n]
    by (simp add: logger_name_def)
qed

theorem GetLogger_registry_witness:
  "\<exists>s. sys_reachable s \<and>
    fst (LoggerManager_GetLogger ''root'' (snd (LoggerManager_GetLogger ''net'' s)))
      \<noteq> fst (LoggerManager_GetLogger ''net'' s)"
proof -
  obtain s0 where s0: "new_LoggerManager = Ok () s0" by (simp add: new_LoggerManager_state)
  have r: "sys_reachable s0" using s0 by (rule sys_reachable.start)
  have "''root'' \<noteq> ''net''" by simp
  from GetLogger_registry [OF r this] r show ?thesis by blast
qed

text \<open>
  C18: Logging a record through a logger of the registry either returns, changing nothing but the
  devices and the state of the file streams, or dereferences a null pointer; it crashes exactly
  when the logger and the root logger have no appender. It never deadlocks on the loggers' locks.
\<close>

theorem Log_crashes_iff_no_appender:
  assumes "sys_reachable s" and reg: "map_find string_lt name (mgr_loggers s) = Some l"
    and e: "ev_logger e < length (loggers s)"
  shows "if lg_appenders (loggers s ! l) = [] \<and> lg_appenders (loggers s ! mgr_root s) = []
    then Logger_Log env [] l lvl e s = Crash NullDeref
    else \<exists>s'. Logger_Log env [] l lvl e s = Ok () s' \<and> log_frame s s' \<and> wf_sys s'"
proof -
  have wf: "wf_sys s" using assms(1) by (rule reachable_wf)
  have l: "l < length (loggers s)" using wf_sys_registered(1) [OF wf reg] .
  show ?thesis
    using Logger_Log_outcome [OF wf l e, of env lvl] effective_nonempty [OF wf reg]
    by (auto intro: wf_sys_log_frame [OF _ wf])
qed

text \<open>
  At the state after the root logger's appenders have been cleared, as the configuration does
  when the entry \<open>root\<close> is removed: the next record crashes.
\<close>

theorem Log_crashes_iff_no_appender_witness:
  "\<exists>s. sys_reachable s \<and> map_find string_lt ''root'' (mgr_loggers s) = Some 0 \<and>
    (\<forall>env e lvl. ev_logger e = 0 \<longrightarrow> Logger_Log env [] 0 lvl e s = Crash NullDeref)"
proof -
  obtain s0 where s0: "new_LoggerManager = Ok () s0" by (simp add: new_LoggerManager_state)
  obtain s where s: "Logger_ClearAppender 0 s0 = Ok () s"
    using s0 by (auto simp: new_LoggerManager_state Logger_ClearAppender_def)
  have r: "sys_reachable s"
    by (rule sys_reachable.step [OF sys_reachable.start [OF s0] sys_step.clear_appender [OF s]])
  have st: "map_find string_lt ''root'' (mgr_loggers s) = Some 0" "mgr_root s = 0"
      "lg_appenders (loggers s ! 0) = []" "length (loggers s) = 1"
    using s s0 by (auto simp: new_LoggerManager_state Logger_ClearAppender_def update_logger_def
        string_lt_def)
  have "Logger_Log env [] 0 lvl e s = Crash NullDeref" if "ev_logger e = 0" for env e lvl
    using Log_crashes_iff_no_appender [OF r st(1), of e env lvl] st(2-4) that by simp
  with r st(1) show ?thesis by blast
qed

text \<open>
  C5: When opening and writing files succeed, a record is delivered exactly once to every
  appender it reaches (those of the logger, or those of the root logger if it has none), in the
  order in which they were added: what standard output and the streams of each file have taken
  grows by the texts of the record for their appenders, and that of no other file changes.
\<close>

theorem Log_delivers:
  assumes "sys_reachable s" and l: "l < length (loggers s)"
    and e: "ev_logger e < length (loggers s)" and ne: "effective_appenders s l \<noteq> []"
    and ok: "streams_ok s" and rel: "reliable env"
  shows "\<exists>s'. Logger_Log env [] l lvl e s = Ok () s' \<and> streams_ok s' \<and>
    cout s' = cout s @ sent_to env s None (effective_appenders s l) e \<and>
    (\<forall>fn. files s' fn = files s fn @ sent_to env s (Some fn) (effective_appenders s l) e)"
proof -
  have "wf_sys s" using assms(1) by (rule reachable_wf)
  from Logger_Log_deliver [OF this l e ne ok rel] show ?thesis by blast
qed

definition example_env :: log_env where
  "example_env =
     \<lparr>env_time_text = (\<lambda>fmt t. ''now''), env_open_ok = (\<lambda>n fn. True), env_write_ok = (\<lambda>n fn. True), env_close_ok = (\<lambda>n fn. True),
        env_taken = (\<lambda>n fn. 0), env_written = (\<lambda>n fn. 0),
      env_clock = (\<lambda>n. 7), env_thread_id = 1, env_fiber_id = 0, env_thread_name = ''main'',
      env_file = ''a.cpp''\<rparr>"

definition example_event :: log_event where
  "example_event = (new_LogEvent example_env 0 INFO 12 7)\<lparr>ev_ss := ''hello''\<rparr>"

theorem Log_delivers_witness:
  "\<exists>s s'. sys_reachable s \<and> Logger_Log example_env [] 0 INFO example_event s = Ok () s' \<and>
    cout s' = ''now'' @ [CHR 0x09] @ ''1'' @ [CHR 0x09] @ ''main'' @ [CHR 0x09] @ ''0'' @ [CHR 0x09]
      @ ''[INFO]'' @ [CHR 0x09] @ ''[root]'' @ [CHR 0x09] @ ''a.cpp:12'' @ [CHR 0x09] @ ''hello''
      @ [CHR 0x0A]"
proof -
  obtain s0 where s0: "new_LoggerManager = Ok () s0" by (simp add: new_LoggerManager_state)
  have r: "sys_reachable s0" using s0 by (rule sys_reachable.start)
  have st: "effective_appenders s0 0 = [0]" "cout s0 = []" "file_of s0 0 = None"
      "streams_ok s0" "length (loggers s0) = 1" "logger_name s0 0 = Some ''root''"
      "ap_formatter (appenders s0 ! 0) = Some (new_LogFormatter default_pattern)"
    using s0 by (auto simp: new_LoggerManager_state effective_appenders_def file_of_def
        streams_ok_def stream_ok_def new_StdoutLogAppender_def logger_name_def new_Logger_def)
  have rel: "reliable example_env" by (simp add: reliable_def example_env_def)
  have ev: "ev_logger example_event < length (loggers s0)"
    using st(5) by (simp add: example_event_def new_LogEvent_def)
  have l0: "0 < length (loggers s0)" using st(5) by simp
  have dec: "dec_nat (Suc 0) = ''1''" "dec_nat 1 = ''1''" "dec_nat 0 = ''0''" "dec_nat 12 = ''12''"
    by code_simp+
  have sent: "sent_to example_env s0 None [0] example_event =
      ''now'' @ [CHR 0x09] @ ''1'' @ [CHR 0x09] @ ''main'' @ [CHR 0x09] @ ''0'' @ [CHR 0x09]
      @ ''[INFO]'' @ [CHR 0x09] @ ''[root]'' @ [CHR 0x09] @ ''a.cpp:12'' @ [CHR 0x09] @ ''hello''
      @ [CHR 0x0A]"
    by (simp add: st record_text_def record_texts_def default_items default_segments_items
        example_event_def new_LogEvent_def example_env_def dec dec_int_def)
  have ne: "effective_appenders s0 0 \<noteq> []" by (simp add: st)
  from Log_delivers [OF r l0 ev ne st(4) rel, of INFO] r show ?thesis
    unfolding st(1,2) sent by auto
qed

text \<open>
  C19: A record in a file, whatever fails. Logging through a file appender returns; its stream takes
  a prefix of the text of the record, all of it unless the line \<open>error\<close> is printed, and no other file
  changes. What the stream had in its buffer and what it takes now is, in this order and without
  a gap, in the file or still in the buffer, with one exception: when the stream is reopened
  and closing it fails, the part of the old buffer that could not be written is lost, and no
  line tells.
\<close>

theorem file_record_prefix:
  assumes "sys_reachable s" and a: "attached_ok s a" and fn: "file_of s a = Some fn"
    and e: "ev_logger e < length (loggers s)"
  shows "\<exists>s' k w kept lost. FileLogAppender_Log env a lvl e s = Ok () s' \<and>
    files s' fn = files s fn @ take k (record_text env s a e) \<and>
    (\<forall>g. if g = fn then True else files s' g = files s g \<and> disk s' g = disk s g) \<and>
    (if cout s' = cout s then files s' fn = files s fn @ record_text env s a e
     else cout s' = cout s @ ''error'' @ [CHR 0x0A]) \<and>
    disk s' fn = disk s fn @ w \<and> file_buf a s = kept @ lost \<and>
    w @ file_buf a s' = kept @ take k (record_text env s a e) \<and>
    (if close_fails env a e s then True else lost = [])"
proof -
  let ?s1 = "reopen_if_due env a e s"
  let ?ts = "record_texts env s a e"
  let ?s2 = "fold (\<lambda>t s. file_put env a s t) ?ts ?s1"
  let ?s' = "if file_good a ?s2 then ?s2 else print_cout ?s2 (''error'' @ [CHR 0x0A])"
  have len: "a < length (appenders s)" using a by (simp add: attached_ok_def)
  have fr1: "log_frame s ?s1" using len by (rule reopen_if_due_frame)
  have len1: "a < length (appenders ?s1)" using log_frame_length [OF fr1] len by simp
  have fr2: "log_frame ?s1 ?s2" using len1 by (rule fold_file_put_frame)
  have len2: "a < length (appenders ?s2)" using log_frame_length [OF fr2] len1 by simp
  have fn1: "file_of ?s1 a = Some fn" using file_of_frame [OF fr1 len] fn by simp
  have fn2: "file_of ?s2 a = Some fn" using file_of_frame [OF fr2 len1] fn1 by simp
  obtain w1 lost where w1: "disk ?s1 = (disk s)(fn := disk s fn @ w1)" "w1 @ lost @ file_buf a ?s1 = file_buf a s"
      "lost = [] \<or> close_fails env a e s \<and> file_buf a ?s1 = []"
    using reopen_if_due_disk [OF len fn] by blast
  have other: "files ?s2 g = files s g \<and> disk ?s2 g = disk s g" if "g \<noteq> fn" for g
    using fold_file_put_other [OF len1, of g] fn1 that by (simp add: reopen_if_due_devices w1(1))
  obtain k where k: "file_sink a ?s2 = file_sink a ?s1 @ take k (concat ?ts)"
    using file_stream.put_all_prefix by blast
  obtain x w2 where w2: "file_sink a ?s2 = file_sink a ?s1 @ x" "file_disk a ?s2 = file_disk a ?s1 @ w2"
      "w2 @ file_buf a ?s2 = file_buf a ?s1 @ x"
    using file_stream.put_all_conserves by blast
  have whole: "file_sink a ?s2 = file_sink a ?s1 @ concat ?ts" if "file_good a ?s2"
    using file_stream.put_all_ok [where s = ?s1 and ts = ?ts] that len2
    by (simp add: file_ready_def)
  have sinks: "file_sink a ?s1 = files s fn" "file_sink a ?s2 = files ?s2 fn"
      "file_disk a ?s1 = disk s fn @ w1" "file_disk a ?s2 = disk ?s2 fn"
    using len1 len2 by (simp_all add: file_sink_def file_disk_def fn1 fn2 reopen_if_due_devices w1(1))
  have "cout ?s2 = cout s" by (simp add: fold_file_put_cout reopen_if_due_devices)
  moreover have "FileLogAppender_Log env a lvl e s = Ok () ?s'"
    by (simp add: FileLogAppender_Log_writes [OF a fn e] Let_def)
  moreover have "x = take k (concat ?ts)" using k w2(1) by simp
  moreover have "file_buf a ?s' = file_buf a ?s2" by (simp add: file_buf_def sys_simps)
  moreover have "\<exists>kept. file_buf a s = kept @ lost \<and> (w1 @ w2) @ file_buf a ?s2 = kept @ x"
    using w1(2,3) w2(3) by (intro exI [of _ "w1 @ file_buf a ?s1"]) auto
  then obtain kept where "file_buf a s = kept @ lost" "(w1 @ w2) @ file_buf a ?s2 = kept @ x" by blast
  ultimately show ?thesis
    using whole other w1(3) w2(1,2) unfolding sinks
    by - (rule exI [of _ ?s'], rule exI [of _ k], rule exI [of _ "w1 @ w2"], rule exI [of _ kept], rule exI [of _ lost],
        auto simp: record_text_def sys_simps)
qed

text \<open>A file appender with the address 1 is added to the root logger of a new system.\<close>

lemma example_file:
  obtains s where "sys_reachable s" "attached_ok s 1" "file_of s 1 = Some ''log''" "length (loggers s) = 1"
    "ap_class (appenders s ! 1) = FileLogAppender ''log'' \<lparr>os_open = True, os_fail = False, os_buf = []\<rparr> 0"
    "files s = (\<lambda>_. [])" "disk s = (\<lambda>_. [])"
proof -
  obtain s0 where s0: "new_LoggerManager = Ok () s0" by (simp add: new_LoggerManager_state)
  let ?s1 = "snd (new_FileLogAppender example_env ''log'' s0)"
  note defs = new_LoggerManager_state Logger_AddAppender_def new_FileLogAppender_def alloc_appender_def
    FileLogAppender_Reopen_def Let_def update_appender_def ofstream_open_def ofstream_close_def
    write_disk_def example_env_def
  have r1: "sys_reachable ?s1"
    by (rule sys_reachable.step [OF sys_reachable.start [OF s0] sys_step.make_file])
  obtain s2 where s2: "Logger_AddAppender 0 1 ?s1 = Ok () s2" using s0 by (auto simp: defs)
  have "sys_reachable s2" by (rule sys_reachable.step [OF r1 sys_step.add_appender [OF s2]])
  moreover have "attached_ok s2 1" "file_of s2 1 = Some ''log''" "length (loggers s2) = 1"
    "ap_class (appenders s2 ! 1) = FileLogAppender ''log'' \<lparr>os_open = True, os_fail = False, os_buf = []\<rparr> 0"
    "files s2 = (\<lambda>_. [])" "disk s2 = (\<lambda>_. [])"
    using s0 s2 by (auto simp: defs update_logger_def attached_ok_def file_of_def new_Logger_def)
  ultimately show thesis by (rule that)
qed

definition full_disk_env :: log_env where
  "full_disk_env = example_env\<lparr>env_write_ok := (\<lambda>n fn. n < 2), env_taken := (\<lambda>n fn. 3), env_written := (\<lambda>n fn. 5)\<rparr>"

theorem file_record_prefix_witness:
  "\<exists>s s' k w. sys_reachable s \<and> FileLogAppender_Log full_disk_env 1 INFO example_event s = Ok () s' \<and>
    files s' ''log'' = take k (record_text full_disk_env s 1 example_event) \<and> disk s' ''log'' = w \<and>
    w @ file_buf 1 s' = take k (record_text full_disk_env s 1 example_event)"
proof (rule example_file)
  fix s
  assume s: "sys_reachable s" "attached_ok s 1" "file_of s 1 = Some ''log''" "length (loggers s) = 1"
    "ap_class (appenders s ! 1) = FileLogAppender ''log'' \<lparr>os_open = True, os_fail = False, os_buf = []\<rparr> 0"
    "files s = (\<lambda>_. [])" "disk s = (\<lambda>_. [])"
  have "ev_logger example_event < length (loggers s)"
    using s(4) by (simp add: example_event_def new_LogEvent_def)
  moreover have "file_buf 1 s = []" using s(5) by (simp add: file_buf_def)
  ultimately show ?thesis
    using file_record_prefix [OF s(1-3), of example_event full_disk_env INFO] s(1,6,7) by fastforce
qed

text \<open>
  The records that closing loses: with a buffer that has not been written at all, a \<open>close\<close> that
  fails drops everything in it. The record is logged as if nothing had happened.
\<close>

theorem records_lost_at_close:
  assumes a: "attached_ok s a" and e: "ev_logger e < length (loggers s)"
    and cl: "ap_class (appenders s ! a) = FileLogAppender fn st lt" and "os_open st" and "\<not> os_fail st"
    and due: "lt + 3 \<le> ev_time e" and rel: "reliable env"
    and bad: "\<not> env_close_ok env (ticks s) fn" "env_written env (ticks s) fn = 0"
  shows "\<exists>s' w. FileLogAppender_Log env a lvl e s = Ok () s' \<and> cout s' = cout s \<and>
    files s' fn = files s fn @ record_text env s a e \<and>
    disk s' fn = disk s fn @ w \<and> w @ file_buf a s' = record_text env s a e"
proof -
  let ?s1 = "reopen_if_due env a e s"
  let ?s2 = "fold (\<lambda>t s. file_put env a s t) (record_texts env s a e) ?s1"
  have fn: "file_of s a = Some fn" using cl by (simp add: file_of_def)
  have len: "a < length (appenders s)" using a by (simp add: attached_ok_def)
  have len1: "a < length (appenders ?s1)" using log_frame_length [OF reopen_if_due_frame [OF len]] len by simp
  have "\<exists>st'. ap_class (appenders ?s1 ! a) = FileLogAppender fn st' (ev_time e) \<and> os_open st' \<and> \<not> os_fail st' \<and> os_buf st' = []"
    and disk1: "disk ?s1 = disk s"
    using assms len
    by (auto simp: reopen_if_due_def FileLogAppender_Reopen_def ofstream_close_def ofstream_open_def Let_def
        reliable_def sys_simps)
  then obtain st' where st': "ap_class (appenders ?s1 ! a) = FileLogAppender fn st' (ev_time e)" "os_open st'"
    "\<not> os_fail st'" "os_buf st' = []" by blast
  have all: "takes_all a fn (record_text env s a e) ?s1 ?s2"
    using fold_file_put_ok [OF len1 st'(1-3) rel] by (simp add: record_text_def)
  then obtain st2 lt2 where st2: "ap_class (appenders ?s2 ! a) = FileLogAppender fn st2 lt2" "\<not> os_fail st2"
    "length (appenders ?s2) = length (appenders ?s1)" "files ?s2 fn = files s fn @ record_text env s a e"
    by (auto simp: takes_all_def reopen_if_due_devices)
  obtain x w where w: "file_sink a ?s2 = file_sink a ?s1 @ x" "file_disk a ?s2 = file_disk a ?s1 @ w"
      "w @ file_buf a ?s2 = file_buf a ?s1 @ x"
    using file_stream.put_all_conserves by blast
  have "files ?s1 = files s" by (simp add: reopen_if_due_devices)
  then have "disk ?s2 fn = disk s fn @ w" "w @ file_buf a ?s2 = record_text env s a e"
    using w len1 st' st2 disk1 by (simp_all add: file_sink_def file_disk_def file_of_def file_buf_def)
  moreover have "FileLogAppender_Log env a lvl e s = Ok () ?s2"
    using st2 by (simp add: FileLogAppender_Log_writes [OF a fn e] Let_def file_good_def)
  moreover have "cout ?s2 = cout s" by (simp add: fold_file_put_cout reopen_if_due_devices)
  ultimately show ?thesis using st2(4) by blast
qed

text \<open>
  C20: One failed write silences a file appender for good: once a write to its open stream has
  failed, which took a part of its text at most, the stream takes nothing of later records and
  writes nothing to the file, however many records follow and even if every later open and write
  would succeed. \<open>Reopen\<close> does not close a stream that has failed, so the stream can never be opened
  again.
\<close>

theorem failed_write_is_permanent:
  assumes "sys_reachable s" and a: "attached_ok s a"
    and cl: "ap_class (appenders s ! a) = FileLogAppender fn st lt" and "os_open st"
    and "t \<noteq> []" and "\<not> env_write_ok env (ticks s) fn"
    and es: "\<forall>(env, e) \<in> set es. ev_logger e < length (loggers s)"
  shows "\<exists>s'. for_each (\<lambda>(env, e). FileLogAppender_Log env a lvl e) es (file_put env a s t) = Ok () s' \<and>
    files s' = (files s)(fn := files s fn @
      (if os_fail st then [] else take (env_taken env (ticks s) fn) (butlast t))) \<and>
    disk s' = disk (file_put env a s t)"
proof -
  let ?s = "file_put env a s t"
  have len: "a < length (appenders s)" using a by (simp add: attached_ok_def)
  have fr: "log_frame s ?s" using len by (rule file_put_frame)
  have "stuck a ?s" and "files ?s = (files s)(fn := files s fn @
      (if os_fail st then [] else take (env_taken env (ticks s) fn) (butlast t)))"
    using assms len by (auto simp: file_put_def stuck_def Let_def sys_simps)
  moreover have "attached_ok ?s a" using a by (simp add: attached_ok_frame [OF fr])
  moreover have "\<forall>(env, e) \<in> set es. ev_logger e < length (loggers ?s)"
    using es by (simp add: log_frame_loggers [OF fr])
  ultimately show ?thesis using stuck_for_good [of a ?s es lvl] by auto
qed

theorem failed_write_is_permanent_witness:
  "\<exists>s s'. sys_reachable s \<and>
    for_each (\<lambda>(env, e). FileLogAppender_Log env 1 INFO e)
      [(example_env, example_event), (example_env, example_event\<lparr>ev_time := 100\<rparr>)]
      (file_put (example_env\<lparr>env_write_ok := (\<lambda>n fn. False), env_taken := (\<lambda>n fn. 1)\<rparr>) 1 s ''xyz'') = Ok () s' \<and>
    files s' ''log'' = ''x''"
proof (rule example_file)
  fix s
  assume s: "sys_reachable s" "attached_ok s 1" "file_of s 1 = Some ''log''" "length (loggers s) = 1"
    "ap_class (appenders s ! 1) = FileLogAppender ''log'' \<lparr>os_open = True, os_fail = False, os_buf = []\<rparr> 0"
    "files s = (\<lambda>_. [])" "disk s = (\<lambda>_. [])"
  let ?env = "example_env\<lparr>env_write_ok := (\<lambda>n fn. False), env_taken := (\<lambda>n fn. 1)\<rparr>"
  have ev: "\<forall>(env, e) \<in> set [(example_env, example_event), (example_env, example_event\<lparr>ev_time := 100\<rparr>)].
      ev_logger e < length (loggers s)"
    using s(4) by (simp add: example_event_def new_LogEvent_def)
  have "os_open \<lparr>os_open = True, os_fail = False, os_buf = []\<rparr>" and "''xyz'' \<noteq> []"
    and "\<not> env_write_ok ?env (ticks s) ''log''" by simp_all
  from failed_write_is_permanent [OF s(1,2,5) this ev, of INFO] s(1,6) show ?thesis by fastforce
qed

text \<open>
  C21: Levels filter nothing: for two systems that differ only in the levels of their loggers and
  appenders, logging the same record with any two levels as the argument of \<open>Log\<close> ends the same way,
  and what has been written is the same. \<open>Logger::Log\<close> never compares the level it is called with to
  that of the logger or of an appender. (The level inside the record is part of its text where a
  format has \<open>%p\<close>; it is the same record here.)
\<close>

theorem levels_do_not_filter:
  assumes "strip_levels s = strip_levels t"
  shows "map_state strip_levels (Logger_Log env [] l lvl e s) =
         map_state strip_levels (Logger_Log env [] l lvl' e t)"
  using strip_Logger_Log [of env "[]" l lvl e s lvl'] strip_Logger_Log [of env "[]" l lvl' e t lvl']
    assms by simp

theorem levels_do_not_filter_witness:
  "\<exists>s t s' t'. new_LoggerManager = Ok () s \<and> Logger_SetLevel 0 FATAL s = Ok () t \<and>
    Logger_Log example_env [] 0 DEBUG example_event s = Ok () s' \<and>
    Logger_Log example_env [] 0 DEBUG example_event t = Ok () t' \<and> cout s' = cout t'"
proof -
  obtain s where s: "new_LoggerManager = Ok () s" by (simp add: new_LoggerManager_state)
  obtain t where t: "Logger_SetLevel 0 FATAL s = Ok () t"
    using s by (auto simp: new_LoggerManager_state Logger_SetLevel_def)
  have "strip_levels s = strip_levels t"
    using s t by (auto simp: new_LoggerManager_state Logger_SetLevel_def update_logger_def
        strip_levels_def)
  note eq = levels_do_not_filter [OF this, of example_env 0 DEBUG example_event DEBUG]
  have wf: "wf_sys s" using s by (rule wf_sys_initial)
  have st: "effective_appenders s 0 = [0]" "length (loggers s) = 1"
    using s by (auto simp: new_LoggerManager_state effective_appenders_def)
  have len: "0 < length (loggers s)" "ev_logger example_event < length (loggers s)"
    using st(2) by (simp_all add: example_event_def new_LogEvent_def)
  obtain s' where s': "Logger_Log example_env [] 0 DEBUG example_event s = Ok () s'"
    using Logger_Log_outcome(2) [OF wf len, of example_env DEBUG] st(1) by auto
  with eq obtain t' where t': "Logger_Log example_env [] 0 DEBUG example_event t = Ok () t'"
      "strip_levels s' = strip_levels t'"
    by (cases "Logger_Log example_env [] 0 DEBUG example_event t") auto
  then have "cout s' = cout t'" by (metis strip_simps(4))
  with s t s' t' show ?thesis by blast
qed

text \<open>
  The formatting macros log at level \<open>DEBUG\<close> whatever their name says: for every level
  given, \<open>ZCS_FMT_LEVEL\<close> does what \<open>ZCS_DEBUG\<close> does with the formatted text.
\<close>

theorem fmt_macros_log_at_debug:
  "ZCS_FMT_LEVEL env l lvl line (Some msg) s = ZCS_LEVEL env l DEBUG line msg s"
  by (simp add: ZCS_FMT_LEVEL_def ZCS_LEVEL_def LogEvent_Format_def Let_def)

lemma nth_inherit_formatter:
  "a < length (appenders s) \<Longrightarrow> appenders (inherit_formatter f as s) ! a =
    (if a \<in> set as \<and> \<not> ap_has_formatter (appenders s ! a)
     then (appenders s ! a)\<lparr>ap_formatter := f\<rparr> else appenders s ! a)"
  by (induction as arbitrary: s) (auto simp: sys_simps)

lemma inherit_formatter_map:
  "inherit_formatter f as s =
    s\<lparr>appenders := map (\<lambda>(a, ap).
        if a \<in> set as \<and> \<not> ap_has_formatter ap then ap\<lparr>ap_formatter := f\<rparr> else ap)
      (enumerate 0 (appenders s))\<rparr>"
  by (rule log_sys.equality)
    (auto simp: sys_simps nth_inherit_formatter nth_enumerate_eq intro!: nth_equalityI)

text \<open>
  C22: Setting the format of a logger either rejects the pattern, and then only prints a line, or
  gives the new formatter to the logger and to exactly those of its appenders that have no
  formatter of their own; nothing else changes.
\<close>

theorem SetFormatter_inherited:
  assumes "l < length (loggers s)"
  shows "Logger_SetFormatter l pat s = Ok ()
    (if pattern_ok pat
     then (update_logger l (\<lambda>lg. lg\<lparr>lg_formatter := Some (new_LogFormatter pat)\<rparr>) s)
       \<lparr>appenders := map (\<lambda>(a, ap).
           if a \<in> set (lg_appenders (loggers s ! l)) \<and> \<not> ap_has_formatter ap
           then ap\<lparr>ap_formatter := Some (new_LogFormatter pat)\<rparr> else ap)
         (enumerate 0 (appenders s))\<rparr>
     else print_cout s (''Logger SetFormatter name='' @ lg_name (loggers s ! l) @
            '' value='' @ pat @ '' invalid formatter'' @ [CHR 0x0A]))"
proof -
  have err: "fmt_error (new_LogFormatter pat) \<longleftrightarrow> \<not> pattern_ok pat"
    using pattern_ok_no_error [of pat "[]"] no_error_pattern_ok [of pat "[]"]
    by (auto simp: new_LogFormatter_parse)
  show ?thesis
    using assms
    by (auto simp: Logger_SetFormatter_def Logger_SetFormatter_ptr_def Let_def err
        inherit_formatter_map sys_simps)
qed

theorem SetFormatter_inherited_witness:
  "\<exists>s s'. new_LoggerManager = Ok () s \<and> Logger_SetFormatter 0 ''%m'' s = Ok () s' \<and>
    map ap_formatter (appenders s') = [Some (new_LogFormatter ''%m'')]"
proof -
  obtain s where s: "new_LoggerManager = Ok () s" by (simp add: new_LoggerManager_state)
  have l: "0 < length (loggers s)" using s by (auto simp: new_LoggerManager_state)
  have ok: "pattern_ok ''%m''"
    using pattern_ok.ok_conversion [of "CHR ''m''" _ "[]"] pattern_ok.ok_end
    by (simp add: conversions_def)
  show ?thesis
    using SetFormatter_inherited [OF l, of "''%m''"] s ok
    by (auto simp: new_LoggerManager_state new_StdoutLogAppender_def)
qed

end
