(* ===== verification/Yaml_Casts.thy ===== *)
theory Yaml_Casts
  imports Ordered_Containers
begin

text \<open>
  The string casts of \<open>src/src/config.h\<close>: \<open>LexicalCast<std::string, C>\<close> and
  \<open>LexicalCast<C, std::string>\<close> for the containers \<open>C\<close> of the standard library. yaml-cpp is
  not part of the sources: its functions are the fields of a record that every cast takes, and
  what the round trips need of it is the predicate \<open>yaml_laws\<close>.
\<close>

section \<open>Casts\<close>

text \<open>
  A cast prints to standard output, and returns a value or throws. \<open>cast_bind\<close> sequences two
  casts, \<open>cast_loop\<close> is a \<open>for\<close> loop over an accumulator.
\<close>

type_synonym 'a cast = "string \<times> (exn + 'a)"

fun cast_bind :: "'a cast \<Rightarrow> ('a \<Rightarrow> 'b cast) \<Rightarrow> 'b cast" where
  "cast_bind (out, Inl e) f = (out, Inl e)"
| "cast_bind (out, Inr a) f = (out @ fst (f a), snd (f a))"

fun cast_loop :: "('x \<Rightarrow> 'b \<Rightarrow> 'b cast) \<Rightarrow> 'x list \<Rightarrow> 'b \<Rightarrow> 'b cast" where
  "cast_loop body [] acc = ([], Inr acc)"
| "cast_loop body (x # xs) acc = cast_bind (body x acc) (cast_loop body xs)"

lemma cast_loop_returns:
  "(\<And>x a. x \<in> set xs \<Longrightarrow> body x a = ([], Inr (f x a))) \<Longrightarrow>
    cast_loop body xs a = ([], Inr (fold f xs a))"
  by (induction xs arbitrary: a) auto

text \<open>The cast of every other pair of types is \<open>boost::lexical_cast\<close>, which prints nothing.\<close>

definition LexicalCast :: "('f \<Rightarrow> exn + 't) \<Rightarrow> 'f \<Rightarrow> 't cast" where
  "LexicalCast lexical_cast v = ([], lexical_cast v)"

section \<open>The yaml library\<close>

text \<open>
  The calls made to yaml-cpp. A node is a value: the sources never share a node that they change.
  \<open>y_key\<close> is \<open>node[key]\<close>, \<open>None\<close> an undefined node; \<open>y_text\<close> is the node that the
  assignment of a string makes; \<open>y_set\<close> is \<open>node[key] = value\<close>.
\<close>

record 'n yaml_lib =
  y_load :: "string \<Rightarrow> exn + 'n"
  y_emit :: "'n \<Rightarrow> string"
  y_is_map :: "'n \<Rightarrow> bool"
  y_is_scalar :: "'n \<Rightarrow> bool"
  y_scalar :: "'n \<Rightarrow> exn + string"
  y_as_string :: "'n \<Rightarrow> exn + string"
  y_entries :: "'n \<Rightarrow> ('n \<times> 'n) list"
  y_size :: "'n \<Rightarrow> nat"
  y_at :: "'n \<Rightarrow> nat \<Rightarrow> 'n"
  y_key :: "'n \<Rightarrow> string \<Rightarrow> exn + 'n option"
  y_new :: 'n
  y_new_seq :: 'n
  y_new_map :: 'n
  y_text :: "string \<Rightarrow> 'n"
  y_push :: "'n \<Rightarrow> 'n \<Rightarrow> 'n"
  y_set :: "'n \<Rightarrow> string \<Rightarrow> 'n \<Rightarrow> 'n"

definition yaml_seq :: "'n yaml_lib \<Rightarrow> 'n list \<Rightarrow> 'n" where
  "yaml_seq lib ns = foldl (y_push lib) (y_new_seq lib) ns"

definition yaml_map :: "'n yaml_lib \<Rightarrow> 'n \<Rightarrow> (string \<times> 'n) list \<Rightarrow> 'n" where
  "yaml_map lib start kvs = foldl (\<lambda>m (k, v). y_set lib m k v) start kvs"

text \<open>
  The documented behaviour of yaml-cpp that the round trips rely on: emitting and loading gives
  an equal node; a sequence holds what was pushed; a map holds under each key what was last
  assigned, iterates over distinct keys in the order of their insertion; a text node is a scalar
  with that text; pushing onto a null node makes it a sequence.
\<close>

definition yaml_laws :: "'n yaml_lib \<Rightarrow> bool" where
  "yaml_laws lib \<longleftrightarrow>
     (\<forall>n. y_load lib (y_emit lib n) = Inr n) \<and>
     (\<forall>ns. y_size lib (yaml_seq lib ns) = length ns \<and>
       (\<forall>i < length ns. y_at lib (yaml_seq lib ns) i = ns ! i)) \<and>
     (\<forall>kvs. distinct (map fst kvs) \<longrightarrow>
       y_entries lib (yaml_map lib (y_new_map lib) kvs) = map (\<lambda>(k, v). (y_text lib k, v)) kvs) \<and>
     (\<forall>kvs k. y_key lib (yaml_map lib (y_new lib) kvs) k = Inr (map_of (rev kvs) k)) \<and>
     (\<forall>t. y_scalar lib (y_text lib t) = Inr t \<and> y_as_string lib (y_text lib t) = Inr t) \<and>
     (\<forall>n. y_push lib (y_new lib) n = yaml_seq lib [n])"

definition yaml_load :: "'n yaml_lib \<Rightarrow> string \<Rightarrow> 'n cast" where
  "yaml_load lib s = ([], y_load lib s)"

section \<open>Sequences\<close>

text \<open>
  The loop that the sequence containers share: every element is printed and cast from its text.
  \<open>add\<close> is \<open>push_back\<close> or \<open>insert\<close>; \<open>iter\<close> lists a container in the order of iteration.
\<close>

definition seq_from_string ::
  "'n yaml_lib \<Rightarrow> ('a \<Rightarrow> 'c \<Rightarrow> 'c) \<Rightarrow> 'c \<Rightarrow> (string \<Rightarrow> 'a cast) \<Rightarrow> string \<Rightarrow> 'c cast"
where
  "seq_from_string lib add start dec v =
     cast_bind (yaml_load lib v)
       (\<lambda>node. cast_loop
          (\<lambda>i vec. cast_bind (dec (y_emit lib (y_at lib node i))) (\<lambda>x. ([], Inr (add x vec))))
          [0..<y_size lib node] start)"

definition seq_to_string ::
  "'n yaml_lib \<Rightarrow> ('c \<Rightarrow> 'a list) \<Rightarrow> ('a \<Rightarrow> string cast) \<Rightarrow> 'c \<Rightarrow> string cast"
where
  "seq_to_string lib iter enc v =
     cast_bind
       (cast_loop
          (\<lambda>x node. cast_bind (enc x)
             (\<lambda>s. cast_bind (yaml_load lib s) (\<lambda>n. ([], Inr (y_push lib node n)))))
          (iter v) (y_new_seq lib))
       (\<lambda>node. ([], Inr (y_emit lib node)))"

definition vector_from_string :: "'n yaml_lib \<Rightarrow> (string \<Rightarrow> 'a cast) \<Rightarrow> string \<Rightarrow> 'a list cast" where
  "vector_from_string lib = seq_from_string lib (\<lambda>x vec. vec @ [x]) []"

definition vector_to_string :: "'n yaml_lib \<Rightarrow> ('a \<Rightarrow> string cast) \<Rightarrow> 'a list \<Rightarrow> string cast" where
  "vector_to_string lib = seq_to_string lib (\<lambda>vec. vec)"

definition list_from_string :: "'n yaml_lib \<Rightarrow> (string \<Rightarrow> 'a cast) \<Rightarrow> string \<Rightarrow> 'a list cast" where
  "list_from_string lib = seq_from_string lib (\<lambda>x vec. vec @ [x]) []"

definition list_to_string :: "'n yaml_lib \<Rightarrow> ('a \<Rightarrow> string cast) \<Rightarrow> 'a list \<Rightarrow> string cast" where
  "list_to_string lib = seq_to_string lib (\<lambda>vec. vec)"

text \<open>\<open>std::set\<close> with the comparison \<open>lt\<close> of its elements is the list of its iteration.\<close>

definition set_from_string ::
  "'n yaml_lib \<Rightarrow> ('a \<Rightarrow> 'a \<Rightarrow> bool) \<Rightarrow> (string \<Rightarrow> 'a cast) \<Rightarrow> string \<Rightarrow> 'a list cast"
where
  "set_from_string lib lt = seq_from_string lib (set_insert lt) []"

definition set_to_string :: "'n yaml_lib \<Rightarrow> ('a \<Rightarrow> string cast) \<Rightarrow> 'a list \<Rightarrow> string cast" where
  "set_to_string lib = seq_to_string lib (\<lambda>vec. vec)"

text \<open>\<open>std::unordered_set\<close>: its iteration order is the parameter \<open>iter\<close>.\<close>

definition unordered_set_from_string ::
  "'n yaml_lib \<Rightarrow> (string \<Rightarrow> 'a cast) \<Rightarrow> string \<Rightarrow> 'a set cast"
where
  "unordered_set_from_string lib = seq_from_string lib insert {}"

definition unordered_set_to_string ::
  "'n yaml_lib \<Rightarrow> ('a set \<Rightarrow> 'a list) \<Rightarrow> ('a \<Rightarrow> string cast) \<Rightarrow> 'a set \<Rightarrow> string cast"
where
  "unordered_set_to_string lib iter = seq_to_string lib iter"

section \<open>Maps with string keys\<close>

definition keyed_from_string ::
  "'n yaml_lib \<Rightarrow> (string \<times> 'a \<Rightarrow> 'c \<Rightarrow> 'c) \<Rightarrow> 'c \<Rightarrow> (string \<Rightarrow> 'a cast) \<Rightarrow> string \<Rightarrow> 'c cast"
where
  "keyed_from_string lib add start dec v =
     cast_bind (yaml_load lib v)
       (\<lambda>node. cast_loop
          (\<lambda>(first, second) vec. cast_bind ([], y_scalar lib first)
             (\<lambda>k. cast_bind (dec (y_emit lib second)) (\<lambda>x. ([], Inr (add (k, x) vec)))))
          (y_entries lib node) start)"

definition keyed_to_string ::
  "'n yaml_lib \<Rightarrow> ('c \<Rightarrow> (string \<times> 'a) list) \<Rightarrow> ('a \<Rightarrow> string cast) \<Rightarrow> 'c \<Rightarrow> string cast"
where
  "keyed_to_string lib iter enc v =
     cast_bind
       (cast_loop
          (\<lambda>(k, x) node. cast_bind (enc x)
             (\<lambda>s. cast_bind (yaml_load lib s) (\<lambda>n. ([], Inr (y_set lib node k n)))))
          (iter v) (y_new_map lib))
       (\<lambda>node. ([], Inr (y_emit lib node)))"

text \<open>\<open>std::map\<close>: \<open>insert(make_pair(k, v))\<close> keeps the entry that is already there.\<close>

definition map_from_string ::
  "'n yaml_lib \<Rightarrow> (string \<Rightarrow> 'a cast) \<Rightarrow> string \<Rightarrow> (string \<times> 'a) list cast"
where
  "map_from_string lib = keyed_from_string lib (\<lambda>(k, x). map_insert string_lt k x) []"

definition map_to_string ::
  "'n yaml_lib \<Rightarrow> ('a \<Rightarrow> string cast) \<Rightarrow> (string \<times> 'a) list \<Rightarrow> string cast"
where
  "map_to_string lib = keyed_to_string lib (\<lambda>vec. vec)"

text \<open>\<open>std::unordered_map\<close>: \<open>insert\<close>, and the parameter \<open>iter\<close> for its iteration order.\<close>

definition add_entry :: "string \<times> 'a \<Rightarrow> (string \<rightharpoonup> 'a) \<Rightarrow> (string \<rightharpoonup> 'a)" where
  "add_entry = (\<lambda>(k, x) vec. if vec k = None then vec(k \<mapsto> x) else vec)"

definition unordered_map_from_string ::
  "'n yaml_lib \<Rightarrow> (string \<Rightarrow> 'a cast) \<Rightarrow> string \<Rightarrow> (string \<rightharpoonup> 'a) cast"
where
  "unordered_map_from_string lib =
     keyed_from_string lib add_entry Map.empty"

definition unordered_map_to_string ::
  "'n yaml_lib \<Rightarrow> ((string \<rightharpoonup> 'a) \<Rightarrow> (string \<times> 'a) list) \<Rightarrow> ('a \<Rightarrow> string cast)
   \<Rightarrow> (string \<rightharpoonup> 'a) \<Rightarrow> string cast"
where
  "unordered_map_to_string lib iter = keyed_to_string lib iter"

section \<open>Round trips\<close>

text \<open>
  \<open>casts_back lib enc dec x\<close>: \<open>x\<close> survives being cast to text, stored in a document (loaded,
  emitted) and cast from the text found there. This is the condition on the elements of a
  container, and the conclusion about the container.
\<close>

definition casts_back ::
  "'n yaml_lib \<Rightarrow> ('a \<Rightarrow> string cast) \<Rightarrow> (string \<Rightarrow> 'a cast) \<Rightarrow> 'a \<Rightarrow> bool"
where
  "casts_back lib enc dec x \<longleftrightarrow>
     (case enc x of
        (out, Inr s) \<Rightarrow>
          (case y_load lib s of
             Inr n \<Rightarrow> out = [] \<and> dec (y_emit lib n) = ([], Inr x)
           | Inl e \<Rightarrow> False)
      | (out, Inl e) \<Rightarrow> False)"

definition stored_node :: "'n yaml_lib \<Rightarrow> ('a \<Rightarrow> string cast) \<Rightarrow> 'a \<Rightarrow> 'n" where
  "stored_node lib enc x = projr (y_load lib (projr (snd (enc x))))"

lemma casts_back_stored:
  assumes "casts_back lib enc dec x"
  shows "cast_bind (enc x) (\<lambda>s. cast_bind (yaml_load lib s) f) = f (stored_node lib enc x)"
    and "dec (y_emit lib (stored_node lib enc x)) = ([], Inr x)"
  using assms
  by (auto simp: casts_back_def stored_node_def yaml_load_def split: prod.splits sum.splits)

lemma casts_back_emitted:
  assumes "yaml_laws lib" and "enc x = ([], Inr (y_emit lib n))" and "dec (y_emit lib n) = ([], Inr x)"
  shows "casts_back lib enc dec x"
  using assms by (simp add: casts_back_def yaml_laws_def)

lemma foldl_push: "fold (\<lambda>x node. y_push lib node (f x)) xs n = foldl (y_push lib) n (map f xs)"
  by (induction xs arbitrary: n) auto

lemma seq_to_string_stored:
  assumes "\<And>x. x \<in> set (iter c) \<Longrightarrow> casts_back lib enc dec x"
  shows "seq_to_string lib iter enc c =
    ([], Inr (y_emit lib (yaml_seq lib (map (stored_node lib enc) (iter c)))))"
proof -
  have "cast_loop
      (\<lambda>x node. cast_bind (enc x)
         (\<lambda>s. cast_bind (yaml_load lib s) (\<lambda>n. ([], Inr (y_push lib node n)))))
      (iter c) (y_new_seq lib)
    = ([], Inr (fold (\<lambda>x node. y_push lib node (stored_node lib enc x)) (iter c) (y_new_seq lib)))"
    by (rule cast_loop_returns) (simp add: casts_back_stored(1) [OF assms])
  then show ?thesis by (simp add: seq_to_string_def foldl_push yaml_seq_def)
qed

lemma fold_upt_nth: "fold (\<lambda>i. g (xs ! i)) [0..<length xs] a = fold g xs a"
proof -
  have "fold (\<lambda>i. g (xs ! i)) [0..<length xs] = fold g (map ((!) xs) [0..<length xs])"
    by (simp add: fold_map comp_def)
  then show ?thesis by (simp add: map_nth)
qed

lemma seq_from_string_stored:
  assumes laws: "yaml_laws lib" and "\<And>x. x \<in> set xs \<Longrightarrow> casts_back lib enc dec x"
  shows "seq_from_string lib add start dec
      (y_emit lib (yaml_seq lib (map (stored_node lib enc) xs))) = ([], Inr (fold add xs start))"
proof -
  let ?node = "yaml_seq lib (map (stored_node lib enc) xs)"
  have node: "y_size lib ?node = length xs"
      "\<And>i. i < length xs \<Longrightarrow> y_at lib ?node i = stored_node lib enc (xs ! i)"
    using laws by (simp_all add: yaml_laws_def)
  have "cast_loop
      (\<lambda>i vec. cast_bind (dec (y_emit lib (y_at lib ?node i))) (\<lambda>x. ([], Inr (add x vec))))
      [0..<length xs] start = ([], Inr (fold (\<lambda>i. add (xs ! i)) [0..<length xs] start))"
    by (rule cast_loop_returns) (simp add: node casts_back_stored(2) [OF assms(2)])
  with laws show ?thesis
    by (simp add: seq_from_string_def yaml_load_def yaml_laws_def fold_upt_nth)
qed

lemma foldl_set:
  "fold (\<lambda>(k, x) node. y_set lib node k (f x)) kvs n =
    foldl (\<lambda>m (k, v). y_set lib m k v) n (map (\<lambda>(k, x). (k, f x)) kvs)"
  by (induction kvs arbitrary: n) auto

lemma keyed_to_string_stored:
  assumes "\<And>k x. (k, x) \<in> set (iter c) \<Longrightarrow> casts_back lib enc dec x"
  shows "keyed_to_string lib iter enc c =
    ([], Inr (y_emit lib (yaml_map lib (y_new_map lib)
      (map (\<lambda>(k, x). (k, stored_node lib enc x)) (iter c)))))"
proof -
  have "cast_loop
      (\<lambda>(k, x) node. cast_bind (enc x)
         (\<lambda>s. cast_bind (yaml_load lib s) (\<lambda>n. ([], Inr (y_set lib node k n)))))
      (iter c) (y_new_map lib)
    = ([], Inr (fold (\<lambda>(k, x) node. y_set lib node k (stored_node lib enc x)) (iter c)
        (y_new_map lib)))"
    by (rule cast_loop_returns) (auto simp: casts_back_stored(1) [OF assms])
  then show ?thesis by (simp add: keyed_to_string_def foldl_set yaml_map_def)
qed

lemma keyed_from_string_stored:
  assumes laws: "yaml_laws lib" and "\<And>k x. (k, x) \<in> set kvs \<Longrightarrow> casts_back lib enc dec x"
    and dist: "distinct (map fst kvs)"
  shows "keyed_from_string lib add start dec
      (y_emit lib (yaml_map lib (y_new_map lib) (map (\<lambda>(k, x). (k, stored_node lib enc x)) kvs)))
    = ([], Inr (fold add kvs start))"
proof -
  let ?kvs = "map (\<lambda>(k, x). (k, stored_node lib enc x)) kvs"
  have "map fst ?kvs = map fst kvs" by auto
  then have node: "y_entries lib (yaml_map lib (y_new_map lib) ?kvs) =
      map (\<lambda>(k, x). (y_text lib k, stored_node lib enc x)) kvs"
    using laws dist by (simp add: yaml_laws_def comp_def case_prod_unfold)
  have "\<forall>(k, x) \<in> set kvs. casts_back lib enc dec x" using assms(2) by auto
  then have "cast_loop
      (\<lambda>(first, second) vec. cast_bind ([], y_scalar lib first)
         (\<lambda>k. cast_bind (dec (y_emit lib second)) (\<lambda>x. ([], Inr (add (k, x) vec)))))
      (map (\<lambda>(k, x). (y_text lib k, stored_node lib enc x)) kvs) start
    = cast_loop (\<lambda>kx vec. ([], Inr (add kx vec))) kvs start"
  proof (induction kvs arbitrary: start)
    case (Cons p kvs)
    moreover obtain k x where p: "p = (k, x)" by (cases p)
    moreover have "y_scalar lib (y_text lib k) = Inr k" using laws by (simp add: yaml_laws_def)
    moreover have "dec (y_emit lib (stored_node lib enc x)) = ([], Inr x)"
      using Cons.prems p by (auto intro!: casts_back_stored(2))
    ultimately show ?case by simp
  qed simp
  also have "\<dots> = ([], Inr (fold add kvs start))" by (rule cast_loop_returns) simp
  finally show ?thesis
    using laws by (simp add: keyed_from_string_def yaml_load_def yaml_laws_def node)
qed

text \<open>
  What the containers have in common: rebuilding one by adding its elements in the order of
  iteration gives it back. The round trips of sequences and of maps are proved from this law.
\<close>

locale rebuilt_container =
  fixes add :: "'e \<Rightarrow> 'c \<Rightarrow> 'c"
    and start :: 'c
    and iter :: "'c \<Rightarrow> 'e list"
    and valid :: "'c \<Rightarrow> bool"
  assumes rebuild: "valid c \<Longrightarrow> fold add (iter c) start = c"
begin

lemma seq_roundtrip:
  assumes "yaml_laws lib" and "valid c" and "\<And>x. x \<in> set (iter c) \<Longrightarrow> casts_back lib enc dec x"
  shows "casts_back lib (seq_to_string lib iter enc) (seq_from_string lib add start dec) c"
proof (rule casts_back_emitted)
  show "yaml_laws lib" by fact
  show "seq_to_string lib iter enc c =
      ([], Inr (y_emit lib (yaml_seq lib (map (stored_node lib enc) (iter c)))))"
    using assms(3) by (rule seq_to_string_stored)
  show "seq_from_string lib add start dec
      (y_emit lib (yaml_seq lib (map (stored_node lib enc) (iter c)))) = ([], Inr c)"
    using seq_from_string_stored [OF assms(1,3), where xs = "iter c" and add = add and start = start] rebuild [OF assms(2)] by simp
qed

end

locale keyed_container = rebuilt_container add start iter valid
  for add :: "string \<times> 'a \<Rightarrow> 'c \<Rightarrow> 'c" and start iter valid +
  assumes distinct_keys: "valid c \<Longrightarrow> distinct (map fst (iter c))"
begin

lemma keyed_roundtrip:
  assumes "yaml_laws lib" and "valid c"
    and "\<And>k x. (k, x) \<in> set (iter c) \<Longrightarrow> casts_back lib enc dec x"
  shows "casts_back lib (keyed_to_string lib iter enc) (keyed_from_string lib add start dec) c"
proof (rule casts_back_emitted)
  show "yaml_laws lib" by fact
  show "keyed_to_string lib iter enc c =
      ([], Inr (y_emit lib (yaml_map lib (y_new_map lib)
        (map (\<lambda>(k, x). (k, stored_node lib enc x)) (iter c)))))"
    using assms(3) by (rule keyed_to_string_stored)
  show "keyed_from_string lib add start dec
      (y_emit lib (yaml_map lib (y_new_map lib)
        (map (\<lambda>(k, x). (k, stored_node lib enc x)) (iter c)))) = ([], Inr c)"
    using keyed_from_string_stored [where lib = lib and kvs = "iter c" and add = add and start = start,
        OF assms(1) _ distinct_keys [OF assms(2)]] assms(3) rebuild [OF assms(2)]
    by simp
qed

end

section \<open>The containers\<close>

lemma fold_push_back: "fold (\<lambda>x vec. vec @ [x]) xs ys = ys @ xs"
  by (induction xs arbitrary: ys) auto

interpretation vector_container: rebuilt_container "\<lambda>x vec. vec @ [x]" "[]" "\<lambda>vec. vec" "\<lambda>_. True"
  by unfold_locales (simp add: fold_push_back)

sublocale strict_weak_order \<subseteq> set_container: rebuilt_container "set_insert lt" "[]" "\<lambda>vec. vec" "sorted_wrt lt"
  by unfold_locales (use fold_set_insert_sorted [of "[]"] in simp)

context strict_weak_order
begin

lemmas set_roundtrip = set_container.seq_roundtrip

end

lemma fold_insert: "fold insert xs A = set xs \<union> A"
  by (induction xs arbitrary: A) auto

interpretation unordered_set_container:
  rebuilt_container insert "{}" iter "\<lambda>c. set (iter c) = c"
  for iter :: "'a set \<Rightarrow> 'a list"
  by unfold_locales (simp add: fold_insert)

interpretation map_container:
  keyed_container "\<lambda>(k, x). map_insert string_lt k x" "[]" "\<lambda>vec. vec" "map_sorted string_lt"
proof
  fix c :: "(string \<times> 'a) list"
  assume s: "map_sorted string_lt c"
  show "fold (\<lambda>(k, x). map_insert string_lt k x) c [] = c"
    using string_order.fold_map_insert_sorted [of "[]" c] s by simp
  show "distinct (map fst c)"
    using s by (induction c) (auto simp: map_keys_def string_lt_def)
qed

lemma fold_add_entry:
  "distinct (map fst kvs) \<Longrightarrow> (\<forall>k \<in> fst ` set kvs. m k = None) \<Longrightarrow>
    fold add_entry kvs m = m ++ map_of kvs"
proof (induction kvs arbitrary: m)
  case (Cons p kvs)
  obtain k x where p: "p = (k, x)" by (cases p)
  have k: "map_of kvs k = None" using Cons.prems p by (auto simp: map_of_eq_None_iff)
  have "fold add_entry kvs (m(k \<mapsto> x)) = m(k \<mapsto> x) ++ map_of kvs"
    using Cons.prems p by (intro Cons.IH) auto
  moreover have "add_entry p m = m(k \<mapsto> x)" using Cons.prems p by (simp add: add_entry_def)
  ultimately have "fold add_entry (p # kvs) m = m(k \<mapsto> x) ++ map_of kvs" by simp
  then show ?case
    using p k by (auto simp: map_add_def fun_eq_iff split: option.splits)
qed simp

interpretation unordered_map_container:
  keyed_container add_entry Map.empty iter "\<lambda>c. distinct (map fst (iter c)) \<and> map_of (iter c) = c"
  for iter :: "(string \<rightharpoonup> 'a) \<Rightarrow> (string \<times> 'a) list"
  by unfold_locales (auto simp: fold_add_entry)

end
