(* ===== verification/Yaml_Tree.thy ===== *)
theory Yaml_Tree
  imports Yaml_Casts
begin

text \<open>
  A concrete yaml library that satisfies \<open>yaml_laws\<close>, for the witnesses: nodes are trees, the
  text of a node is its flow style (plain scalars as they are, other scalars in double quotes).
\<close>

datatype tree = Null | Scalar string | Seq "tree list" | Map "(tree \<times> tree) list"

definition plain_char :: "char \<Rightarrow> bool" where
  "plain_char c \<longleftrightarrow> c \<notin> {CHR ''~'', CHR 0x22, CHR 0x5C, CHR ''['', CHR '']'', CHR ''{'', CHR ''}'', CHR '','',
    CHR '':'', CHR '' '', CHR 0x0A}"

fun escaped :: "string \<Rightarrow> string" where
  "escaped [] = [CHR 0x22]"
| "escaped (c # s) = (if c = CHR 0x22 \<or> c = CHR 0x5C then CHR 0x5C # c # escaped s else c # escaped s)"

fun tree_text :: "tree \<Rightarrow> string" where
  "tree_text Null = ''~''"
| "tree_text (Scalar s) = (if s \<noteq> [] \<and> list_all plain_char s then s else CHR 0x22 # escaped s)"
| "tree_text (Seq ns) = CHR ''['' # concat (map (\<lambda>n. tree_text n @ '','') ns) @ '']''"
| "tree_text (Map kvs) = CHR ''{'' #
     concat (map (\<lambda>(k, v). tree_text k @ '':'' @ tree_text v @ '','') kvs) @ ''}''"

fun unescape :: "string \<Rightarrow> (string \<times> string) option" where
  "unescape [] = None"
| "unescape (c # s) =
     (if c = CHR 0x22 then Some ([], s)
      else if c = CHR 0x5C then
        (case s of [] \<Rightarrow> None | d # s' \<Rightarrow> map_option (apfst ((#) d)) (unescape s'))
      else map_option (apfst ((#) c)) (unescape s))"

text \<open>The parsers of a node, of the rest of a sequence and of the rest of a map.\<close>

fun parse_tree :: "nat \<Rightarrow> string \<Rightarrow> (tree \<times> string) option"
  and parse_seq :: "nat \<Rightarrow> string \<Rightarrow> (tree list \<times> string) option"
  and parse_map :: "nat \<Rightarrow> string \<Rightarrow> ((tree \<times> tree) list \<times> string) option"
where
  "parse_tree 0 s = None"
| "parse_tree (Suc fuel) s =
     (case s of
        [] \<Rightarrow> None
      | c # r \<Rightarrow>
          if c = CHR ''~'' then Some (Null, r)
          else if c = CHR 0x22 then map_option (apfst Scalar) (unescape r)
          else if c = CHR ''['' then map_option (apfst Seq) (parse_seq fuel r)
          else if c = CHR ''{'' then map_option (apfst Map) (parse_map fuel r)
          else if plain_char c then Some (Scalar (takeWhile plain_char s), dropWhile plain_char s)
          else None)"
| "parse_seq 0 s = None"
| "parse_seq (Suc fuel) s =
     (if s \<noteq> [] \<and> hd s = CHR '']'' then Some ([], tl s)
      else case parse_tree fuel s of
        Some (n, c # r) \<Rightarrow>
          if c = CHR '','' then map_option (apfst ((#) n)) (parse_seq fuel r) else None
      | _ \<Rightarrow> None)"
| "parse_map 0 s = None"
| "parse_map (Suc fuel) s =
     (if s \<noteq> [] \<and> hd s = CHR ''}'' then Some ([], tl s)
      else case parse_tree fuel s of
        Some (k, c # r) \<Rightarrow>
          if c = CHR '':'' then
            (case parse_tree fuel r of
               Some (v, d # r') \<Rightarrow>
                 if d = CHR '','' then map_option (apfst ((#) (k, v))) (parse_map fuel r') else None
             | _ \<Rightarrow> None)
          else None
      | _ \<Rightarrow> None)"

definition load_tree :: "string \<Rightarrow> exn + tree" where
  "load_tree s =
     (if s = [] then Inr Null
      else case parse_tree (Suc (length s)) s of
        Some (n, []) \<Rightarrow> Inr n
      | _ \<Rightarrow> Inl (YamlException ''bad document''))"

lemma unescape_escaped: "unescape (escaped s @ r) = Some (s, r)"
  by (induction s) auto

definition delimited :: "string \<Rightarrow> bool" where
  "delimited r \<longleftrightarrow> r = [] \<or> \<not> plain_char (hd r)"

lemma scan_plain:
  "list_all plain_char s \<Longrightarrow> delimited r \<Longrightarrow>
    takeWhile plain_char (s @ r) = s \<and> dropWhile plain_char (s @ r) = r"
  by (induction s) (cases r; auto simp: delimited_def)+

lemma tree_text_not_Nil [simp]: "tree_text n \<noteq> []"
  by (cases n) auto

lemma tree_text_hd: "hd (tree_text n) \<notin> {CHR '']'', CHR ''}''}"
  by (cases n) (auto simp: plain_char_def list_all_iff dest!: hd_in_set)

lemma parse_tree_text:
  "length (tree_text n) < fuel \<Longrightarrow> delimited r \<Longrightarrow> parse_tree fuel (tree_text n @ r) = Some (n, r)"
proof (induction n arbitrary: fuel r)
  case Null
  then show ?case by (cases fuel) auto
next
  case (Scalar s)
  then obtain f where f: "fuel = Suc f" by (cases fuel) auto
  show ?case
  proof (cases "s \<noteq> [] \<and> list_all plain_char s")
    case True
    then obtain c s' where s: "s = c # s'" "plain_char c" by (cases s) auto
    then have c: "c \<noteq> CHR ''~''" "c \<noteq> CHR 0x22" "c \<noteq> CHR ''[''" "c \<noteq> CHR ''{''"
      by (auto simp: plain_char_def)
    with True f s scan_plain [of s r] Scalar.prems(2) show ?thesis by simp
  next
    case False
    then show ?thesis using f by (auto simp: unescape_escaped)
  qed
next
  case (Seq ns)
  let ?text = "\<lambda>ns. concat (map (\<lambda>n. tree_text n @ '','') ns) @ '']''"
  have "parse_seq g (?text ms @ r) = Some (ms, r)"
    if "set ms \<subseteq> set ns" and "length (?text ms) \<le> g" for ms g
    using that
  proof (induction ms arbitrary: g)
    case Nil
    then show ?case by (cases g) auto
  next
    case (Cons m ms)
    then obtain h where g: "g = Suc h" by (cases g) auto
    have "parse_tree h (tree_text m @ '','' @ ?text ms @ r) = Some (m, '','' @ ?text ms @ r)"
      using Cons.prems g by (intro Seq.IH) (auto simp: delimited_def plain_char_def)
    moreover have "parse_seq h (?text ms @ r) = Some (ms, r)"
      using Cons.prems g by (intro Cons.IH) auto
    ultimately show ?case using g tree_text_hd [of m] by simp
  qed
  from this [of ns] Seq.prems show ?case by (cases fuel) auto
next
  case (Map kvs)
  let ?text = "\<lambda>kvs. concat (map (\<lambda>(k, v). tree_text k @ '':'' @ tree_text v @ '','') kvs) @ ''}''"
  have "parse_map g (?text ms @ r) = Some (ms, r)"
    if "set ms \<subseteq> set kvs" and "length (?text ms) \<le> g" for ms g
    using that
  proof (induction ms arbitrary: g)
    case Nil
    then show ?case by (cases g) auto
  next
    case (Cons m ms)
    obtain k v where m: "m = (k, v)" by (cases m)
    from Cons.prems obtain h where g: "g = Suc h" by (cases g) auto
    have "parse_tree h (tree_text k @ '':'' @ tree_text v @ '','' @ ?text ms @ r) =
        Some (k, '':'' @ tree_text v @ '','' @ ?text ms @ r)"
      using Cons.prems g m by (intro Map.IH) (auto simp: delimited_def plain_char_def)
    moreover have "parse_tree h (tree_text v @ '','' @ ?text ms @ r) = Some (v, '','' @ ?text ms @ r)"
      using Cons.prems g m by (intro Map.IH) (auto simp: delimited_def plain_char_def)
    moreover have "parse_map h (?text ms @ r) = Some (ms, r)"
      using Cons.prems g m by (intro Cons.IH) auto
    ultimately show ?case using g m tree_text_hd [of k] by simp
  qed
  from this [of kvs] Map.prems show ?case by (cases fuel) auto
qed

lemma load_tree_text [simp]: "load_tree (tree_text n) = Inr n"
  using parse_tree_text [of n "Suc (length (tree_text n))" "[]"]
  by (simp add: load_tree_def delimited_def del: parse_tree.simps)

section \<open>The library\<close>

fun assign_key :: "string \<Rightarrow> tree \<Rightarrow> (tree \<times> tree) list \<Rightarrow> (tree \<times> tree) list" where
  "assign_key k v [] = [(Scalar k, v)]"
| "assign_key k v ((j, w) # kvs) =
     (if j = Scalar k then (j, v) # kvs else (j, w) # assign_key k v kvs)"

fun tree_entries :: "tree \<Rightarrow> (tree \<times> tree) list" where
  "tree_entries (Map kvs) = kvs"
| "tree_entries _ = []"

fun tree_items :: "tree \<Rightarrow> tree list" where
  "tree_items (Seq ns) = ns"
| "tree_items _ = []"

fun tree_scalar :: "tree \<Rightarrow> exn + string" where
  "tree_scalar (Scalar s) = Inr s"
| "tree_scalar _ = Inl (YamlException ''bad conversion'')"

definition tree_at :: "tree \<Rightarrow> nat \<Rightarrow> tree" where
  "tree_at n i = (if i < length (tree_items n) then tree_items n ! i else Null)"

definition tree_key :: "tree \<Rightarrow> string \<Rightarrow> exn + tree option" where
  "tree_key n k =
     (case n of
        Scalar s \<Rightarrow> Inl (YamlException ''operator[] call on a scalar'')
      | _ \<Rightarrow> Inr (map_of (tree_entries n) (Scalar k)))"

definition tree_set :: "tree \<Rightarrow> string \<Rightarrow> tree \<Rightarrow> tree" where
  "tree_set n k v = Map (assign_key k v (tree_entries n))"

definition tree_push :: "tree \<Rightarrow> tree \<Rightarrow> tree" where
  "tree_push n m = Seq (tree_items n @ [m])"

definition tree_lib :: "tree yaml_lib" where
  "tree_lib =
     \<lparr>y_load = load_tree, y_emit = tree_text,
      y_is_map = (\<lambda>n. case n of Map _ \<Rightarrow> True | _ \<Rightarrow> False),
      y_is_scalar = (\<lambda>n. case n of Scalar _ \<Rightarrow> True | _ \<Rightarrow> False),
      y_scalar = tree_scalar, y_as_string = tree_scalar, y_entries = tree_entries,
      y_size = (\<lambda>n. length (tree_items n)), y_at = tree_at, y_key = tree_key,
      y_new = Null, y_new_seq = Seq [], y_new_map = Map [], y_text = Scalar,
      y_push = tree_push, y_set = tree_set\<rparr>"

lemma tree_lib_fields [simp]:
  "y_load tree_lib = load_tree" "y_emit tree_lib = tree_text" "y_scalar tree_lib = tree_scalar"
  "y_as_string tree_lib = tree_scalar" "y_entries tree_lib = tree_entries"
  "y_size tree_lib n = length (tree_items n)" "y_at tree_lib = tree_at" "y_key tree_lib = tree_key"
  "y_new tree_lib = Null" "y_new_seq tree_lib = Seq []" "y_new_map tree_lib = Map []"
  "y_text tree_lib = Scalar" "y_push tree_lib = tree_push" "y_set tree_lib = tree_set"
  "y_is_map tree_lib (Map kvs)" "\<not> y_is_scalar tree_lib (Map kvs)" "\<not> y_is_map tree_lib (Scalar t)"
  "y_is_scalar tree_lib (Scalar t)"
  by (simp_all add: tree_lib_def)

lemma tree_seq: "yaml_seq tree_lib ns = Seq ns"
  by (induction ns rule: rev_induct) (simp_all add: yaml_seq_def tree_push_def)

lemma map_of_assign_key:
  "map_of (assign_key k v kvs) = (map_of kvs)(Scalar k \<mapsto> v)"
  by (induction kvs) auto

lemma assign_key_new: "Scalar k \<notin> fst ` set kvs \<Longrightarrow> assign_key k v kvs = kvs @ [(Scalar k, v)]"
  by (induction kvs) auto

lemma tree_map_keys:
  "map_of (tree_entries (yaml_map tree_lib Null kvs)) (Scalar k) = map_of (rev kvs) k \<and>
    (kvs \<noteq> [] \<longrightarrow> yaml_map tree_lib Null kvs = Map (tree_entries (yaml_map tree_lib Null kvs)))"
  by (induction kvs rule: rev_induct)
    (auto simp: yaml_map_def tree_set_def map_of_assign_key)

lemma tree_map_key: "tree_key (yaml_map tree_lib Null kvs) k = Inr (map_of (rev kvs) k)"
proof (cases "kvs = []")
  case True
  then show ?thesis by (simp add: yaml_map_def tree_key_def)
next
  case False
  obtain m where m: "yaml_map tree_lib Null kvs = Map m" using tree_map_keys [of kvs k] False by blast
  then show ?thesis using tree_map_keys [of kvs k] by (simp add: tree_key_def)
qed

lemma tree_map_entries:
  "distinct (map fst kvs) \<Longrightarrow>
    yaml_map tree_lib (Map []) kvs = Map (map (\<lambda>(k, v). (Scalar k, v)) kvs)"
proof (induction kvs rule: rev_induct)
  case (snoc p kvs)
  obtain k v where p: "p = (k, v)" by (cases p)
  have "yaml_map tree_lib (Map []) (kvs @ [p]) = tree_set (yaml_map tree_lib (Map []) kvs) k v"
    by (simp add: yaml_map_def p)
  also have "\<dots> = Map (assign_key k v (map (\<lambda>(k, v). (Scalar k, v)) kvs))"
    using snoc by (simp add: tree_set_def)
  also have "\<dots> = Map (map (\<lambda>(k, v). (Scalar k, v)) (kvs @ [p]))"
    using snoc.prems p by (subst assign_key_new) (auto simp: image_iff)
  finally show ?case .
qed (simp add: yaml_map_def)

lemma tree_laws: "yaml_laws tree_lib"
proof -
  have "y_load tree_lib (y_emit tree_lib n) = Inr n" for n by simp
  moreover have "y_size tree_lib (yaml_seq tree_lib ns) = length ns"
      "i < length ns \<Longrightarrow> y_at tree_lib (yaml_seq tree_lib ns) i = ns ! i" for ns i
    by (simp_all add: tree_seq tree_at_def)
  moreover have "distinct (map fst kvs) \<Longrightarrow>
      y_entries tree_lib (yaml_map tree_lib (y_new_map tree_lib) kvs) =
      map (\<lambda>(k, v). (y_text tree_lib k, v)) kvs" for kvs
    using tree_map_entries [of kvs] by simp
  moreover have "y_key tree_lib (yaml_map tree_lib (y_new tree_lib) kvs) k = Inr (map_of (rev kvs) k)"
    for kvs k using tree_map_key [of kvs k] by simp
  moreover have "y_scalar tree_lib (y_text tree_lib t) = Inr t"
      "y_as_string tree_lib (y_text tree_lib t) = Inr t" for t
    by simp_all
  moreover have "y_push tree_lib (y_new tree_lib) n = yaml_seq tree_lib [n]" for n
    by (simp add: tree_seq tree_push_def)
  ultimately show ?thesis by (simp add: yaml_laws_def)
qed

section \<open>Casts of the elements, for the witnesses\<close>

text \<open>\<open>LexicalCast<std::string, int>\<close> on the digits it accepts, and its inverse.\<close>

definition nat_from_string :: "string \<Rightarrow> nat cast" where
  "nat_from_string s =
     ([], if s \<noteq> [] \<and> list_all (\<lambda>c. CHR ''0'' \<le> c \<and> c \<le> CHR ''9'') s then Inr (undec s)
          else Inl (BadLexicalCast ''bad lexical cast''))"

definition nat_to_string :: "nat \<Rightarrow> string cast" where
  "nat_to_string n = ([], Inr (dec_nat n))"

lemma nat_casts_back_example:
  "casts_back tree_lib nat_to_string nat_from_string 7"
  "casts_back tree_lib nat_to_string nat_from_string 12"
  by code_simp+

end
