(* ===== verification/Cast_Properties.thy ===== *)
theory Cast_Properties
  imports Yaml_Tree
begin

text \<open>The round trips of the container casts, and the nesting of containers.\<close>

text \<open>
  C29: A \<open>vector\<close>, \<open>list\<close>, \<open>set\<close> or \<open>unordered_set\<close> is what its cast to text is cast back to,
  whenever each of its elements is: for a set whose elements are in the order of its comparison,
  and for an unordered set whatever the order in which it iterates. The condition on the elements
  is the conclusion about the container, so the statement applies to containers of containers.
\<close>

theorem sequence_casts_roundtrip:
  assumes "yaml_laws lib" and "\<forall>x \<in> set xs. casts_back lib enc dec x"
  shows "casts_back lib (vector_to_string lib enc) (vector_from_string lib dec) xs \<and>
    casts_back lib (list_to_string lib enc) (list_from_string lib dec) xs \<and>
    (strict_weak_order lt \<and> sorted_wrt lt xs \<longrightarrow>
      casts_back lib (set_to_string lib enc) (set_from_string lib lt dec) xs) \<and>
    (iter (set xs) = xs \<longrightarrow>
      casts_back lib (unordered_set_to_string lib iter enc) (unordered_set_from_string lib dec) (set xs))"
proof (intro conjI impI)
  show "casts_back lib (vector_to_string lib enc) (vector_from_string lib dec) xs"
    "casts_back lib (list_to_string lib enc) (list_from_string lib dec) xs"
    using vector_container.seq_roundtrip [of lib xs enc dec] assms
    by (simp_all add: vector_to_string_def vector_from_string_def list_to_string_def
        list_from_string_def)
  show "casts_back lib (set_to_string lib enc) (set_from_string lib lt dec) xs"
    if "strict_weak_order lt \<and> sorted_wrt lt xs"
    using strict_weak_order.set_roundtrip [of lt lib xs enc dec] that assms
    by (simp add: set_to_string_def set_from_string_def)
  show "casts_back lib (unordered_set_to_string lib iter enc) (unordered_set_from_string lib dec) (set xs)"
    if "iter (set xs) = xs"
    using unordered_set_container.seq_roundtrip [of lib iter "set xs" enc dec] that assms
    by (simp add: unordered_set_to_string_def unordered_set_from_string_def)
qed


theorem sequence_casts_roundtrip_witness:
  "casts_back tree_lib
     (vector_to_string tree_lib (list_to_string tree_lib nat_to_string))
     (vector_from_string tree_lib (list_from_string tree_lib nat_from_string))
     [[7, 12], [], [12]] \<and>
   casts_back tree_lib (set_to_string tree_lib nat_to_string)
     (set_from_string tree_lib (<) nat_from_string) [7, 12 :: nat]"
proof -
  have swo: "strict_weak_order ((<) :: nat \<Rightarrow> nat \<Rightarrow> bool)" by unfold_locales auto
  have "casts_back tree_lib nat_to_string nat_from_string x" if "x \<in> {7, 12}" for x
    using that nat_casts_back_example by auto
  note nums = sequence_casts_roundtrip [OF tree_laws, of _ nat_to_string nat_from_string]
  have inner: "\<forall>xs \<in> set [[7, 12], [], [12]]. casts_back tree_lib (list_to_string tree_lib nat_to_string)
      (list_from_string tree_lib nat_from_string) xs"
    using nums [of "[7, 12]"] nums [of "[]"] nums [of "[12]"] nat_casts_back_example by auto
  show ?thesis
    using sequence_casts_roundtrip [OF tree_laws inner] nums [of "[7, 12]"] nat_casts_back_example swo
    by auto
qed

text \<open>
  A \<open>map\<close> or an \<open>unordered_map\<close> with string keys is what its cast to text is cast back to,
  whenever each of its values is; the iteration order of the unordered map does not matter.
\<close>

theorem map_casts_roundtrip:
  assumes "yaml_laws lib" and "\<forall>(k, x) \<in> set kvs. casts_back lib enc dec x"
    and "map_sorted string_lt kvs"
  shows "casts_back lib (map_to_string lib enc) (map_from_string lib dec) kvs \<and>
    (distinct (map fst (iter (map_of kvs))) \<and> set (iter (map_of kvs)) = set kvs \<longrightarrow>
      casts_back lib (unordered_map_to_string lib iter enc) (unordered_map_from_string lib dec)
        (map_of kvs))"
proof (intro conjI impI)
  show "casts_back lib (map_to_string lib enc) (map_from_string lib dec) kvs"
    using map_container.keyed_roundtrip [of lib kvs enc dec] assms
    by (auto simp: map_to_string_def map_from_string_def)
  assume it: "distinct (map fst (iter (map_of kvs))) \<and> set (iter (map_of kvs)) = set kvs"
  then have "map_of (iter (map_of kvs)) = map_of kvs"
    using map_container.distinct_keys [OF assms(3)] by (auto intro: map_of_inject_set [THEN iffD2])
  with it show "casts_back lib (unordered_map_to_string lib iter enc)
      (unordered_map_from_string lib dec) (map_of kvs)"
    using unordered_map_container.keyed_roundtrip [of lib iter "map_of kvs" enc dec] assms(1,2)
    by (auto simp: unordered_map_to_string_def unordered_map_from_string_def)
qed

theorem map_casts_roundtrip_witness:
  "casts_back tree_lib (map_to_string tree_lib nat_to_string) (map_from_string tree_lib nat_from_string)
     [(''a'', 7), (''b'', 12)] \<and>
   casts_back tree_lib
     (unordered_map_to_string tree_lib (\<lambda>_. [(''b'', 12), (''a'', 7)]) nat_to_string)
     (unordered_map_from_string tree_lib nat_from_string) [''a'' \<mapsto> 7, ''b'' \<mapsto> 12]"
proof -
  have "\<forall>(k, x) \<in> set [(''a'', 7), (''b'', 12)]. casts_back tree_lib nat_to_string nat_from_string x"
    using nat_casts_back_example by simp
  moreover have "map_sorted string_lt [(''a'', 7 :: nat), (''b'', 12)]"
    by (simp add: string_lt_def)
  moreover have "map_of [(''a'', 7 :: nat), (''b'', 12)] = [''a'' \<mapsto> 7, ''b'' \<mapsto> 12]" by auto
  moreover have "set [(''b'', 12 :: nat), (''a'', 7)] = set [(''a'', 7), (''b'', 12)]" by auto
  ultimately show ?thesis
    using map_casts_roundtrip [OF tree_laws, of "[(''a'', 7), (''b'', 12)]" nat_to_string
        nat_from_string "\<lambda>_. [(''b'', 12), (''a'', 7)]"]
    by simp
qed

end
