(* ===== verification/Config_System.thy ===== *)
theory Config_System
  imports Log_Facts Yaml_Casts
begin

text \<open>
  The configuration variables and their registry (\<open>src/src/config.h\<close>, \<open>src/src/config.cpp\<close>).
  A \<open>ConfigVar<T>\<close> lives in a store; its type \<open>T\<close> is a number, and what the template takes
  from \<open>T\<close> (the two casts, \<open>operator==\<close>, the name of the type) is a record per type. A value
  of any of the types is of the HOL type \<open>'v\<close>. A listener is the address of a closure; the
  environment says what calling it does to the whole state.
\<close>

section \<open>State\<close>

record 'v config_class =
  cls_name :: string
  cls_from :: "string \<Rightarrow> 'v cast"
  cls_to :: "'v \<Rightarrow> string cast"
  cls_eq :: "'v \<Rightarrow> 'v \<Rightarrow> bool"

text \<open>\<open>cv_readers\<close>: how many read locks of \<open>mutex_\<close> the running thread holds.\<close>

record 'v config_var =
  cv_name :: string
  cv_desc :: string
  cv_type :: nat
  cv_val :: 'v
  cv_cbs :: "(64 word \<times> nat) list"
  cv_readers :: nat

text \<open>
  \<open>cfg_datas\<close> and \<open>cfg_readers\<close> are the static registry and the read locks held on its mutex,
  \<open>cfg_fun_ids\<close> the static counter of \<open>AddListener\<close> of each type, \<open>cfg_g_logger\<close> the logger
  \<open>system\<close> of \<open>config.cpp\<close>, and \<open>cfg_log\<close> the logging system.
\<close>

record 'v config_sys =
  cfg_vars :: "'v config_var list"
  cfg_datas :: "string \<rightharpoonup> nat"
  cfg_readers :: nat
  cfg_fun_ids :: "nat \<Rightarrow> 64 word"
  cfg_g_logger :: nat
  cfg_log :: log_sys

record 'v config_env =
  cenv_log :: log_env
  cenv_class :: "nat \<Rightarrow> 'v config_class"
  cenv_run :: "nat \<Rightarrow> 'v \<Rightarrow> 'v \<Rightarrow> 'v config_sys \<Rightarrow> (unit, 'v config_sys) result"

definition update_var :: "nat \<Rightarrow> ('v config_var \<Rightarrow> 'v config_var) \<Rightarrow> 'v config_sys \<Rightarrow> 'v config_sys" where
  "update_var a f s = s\<lparr>cfg_vars := (cfg_vars s)[a := f (cfg_vars s ! a)]\<rparr>"

fun on_log :: "(log_sys \<Rightarrow> (unit, log_sys) result) \<Rightarrow> 'v config_sys \<Rightarrow> (unit, 'v config_sys) result" where
  "on_log f s =
     (case f (cfg_log s) of
        Ok u l \<Rightarrow> Ok u (s\<lparr>cfg_log := l\<rparr>)
      | Throw e l \<Rightarrow> Throw e (s\<lparr>cfg_log := l\<rparr>)
      | Crash c \<Rightarrow> Crash c)"

text \<open>\<open>ZCS_INFO(ZCS_LOG_ROOT()) << msg\<close> and the like.\<close>

definition log_root ::
  "'v config_env \<Rightarrow> level \<Rightarrow> 32 word \<Rightarrow> string \<Rightarrow> 'v config_sys \<Rightarrow> (unit, 'v config_sys) result"
where
  "log_root env lvl line msg s =
     on_log (ZCS_LEVEL (cenv_log env) (mgr_root (cfg_log s)) lvl line msg) s"

definition cfg_print :: "'v config_sys \<Rightarrow> string \<Rightarrow> 'v config_sys" where
  "cfg_print s t = s\<lparr>cfg_log := print_cout (cfg_log s) t\<rparr>"

section \<open>ConfigVar\<close>

text \<open>
  The lock of a variable. \<open>wrlock\<close> never returns to a thread that holds a read lock; the write
  locks are held only while a member is assigned, when nothing else runs in the thread.
\<close>

definition var_rdlock :: "nat \<Rightarrow> 'v config_sys \<Rightarrow> 'v config_sys" where
  "var_rdlock a = update_var a (\<lambda>cv. cv\<lparr>cv_readers := Suc (cv_readers cv)\<rparr>)"

definition var_unlock :: "nat \<Rightarrow> 'v config_sys \<Rightarrow> 'v config_sys" where
  "var_unlock a = update_var a (\<lambda>cv. cv\<lparr>cv_readers := cv_readers cv - 1\<rparr>)"

definition with_wrlock ::
  "nat \<Rightarrow> ('v config_sys \<Rightarrow> 'a \<times> 'v config_sys) \<Rightarrow> 'v config_sys \<Rightarrow> ('a, 'v config_sys) result"
where
  "with_wrlock a f s =
     (if length (cfg_vars s) \<le> a then Crash NullDeref
      else if cv_readers (cfg_vars s ! a) > 0 then Crash Deadlock
      else let (x, s1) = f s in Ok x s1)"

definition ConfigVar_ToString ::
  "'v config_env \<Rightarrow> nat \<Rightarrow> 'v config_sys \<Rightarrow> (string, 'v config_sys) result"
where
  "ConfigVar_ToString env a s =
     (if length (cfg_vars s) \<le> a then Crash NullDeref
      else
        let var = cfg_vars s ! a;
            cls = cenv_class env (cv_type var);
            (out, r) = cls_to cls (cv_val var);
            s1 = cfg_print s out
        in (case r of
              Inr str \<Rightarrow> Ok str s1
            | Inl e \<Rightarrow>
                if is_std_exception e then
                  and_then
                    (log_root env ERROR 292 (''Configvar::ToString exception '' @ what e @
                       '' convert : '' @ cls_name cls @ '' to string'' @ '' name='' @ cv_name var) s1)
                    (\<lambda>_ s2. Ok [] s2)
                else Throw e s1))"

text \<open>
  \<open>SetValue\<close>: the listeners run, in the order of their ids, under the read lock and before the
  value is assigned under the write lock.
\<close>

definition ConfigVar_SetValue ::
  "'v config_env \<Rightarrow> nat \<Rightarrow> 'v \<Rightarrow> 'v config_sys \<Rightarrow> (unit, 'v config_sys) result"
where
  "ConfigVar_SetValue env a v s =
     (if length (cfg_vars s) \<le> a then Crash NullDeref
      else
        let var = cfg_vars s ! a;
            s1 = var_rdlock a s
        in if cls_eq (cenv_class env (cv_type var)) (cv_val var) v then Ok () (var_unlock a s1)
           else (case for_each (\<lambda>(fid, cb). cenv_run env cb v (cv_val var)) (cv_cbs var) s1 of
                   Ok _ s2 \<Rightarrow>
                     with_wrlock a (\<lambda>s. ((), update_var a (\<lambda>cv. cv\<lparr>cv_val := v\<rparr>) s)) (var_unlock a s2)
                 | Throw e s2 \<Rightarrow> Throw e (var_unlock a s2)
                 | Crash c \<Rightarrow> Crash c))"

definition ConfigVar_FromString ::
  "'v config_env \<Rightarrow> nat \<Rightarrow> string \<Rightarrow> 'v config_sys \<Rightarrow> (bool, 'v config_sys) result"
where
  "ConfigVar_FromString env a val s =
     (if length (cfg_vars s) \<le> a then Crash NullDeref
      else
        let var = cfg_vars s ! a;
            cls = cenv_class env (cv_type var);
            (out, r) = cls_from cls val;
            s1 = cfg_print s out
        in (case (case r of Inl e \<Rightarrow> Throw e s1 | Inr v \<Rightarrow> ConfigVar_SetValue env a v s1) of
              Ok _ s2 \<Rightarrow> Ok True s2
            | Throw e s2 \<Rightarrow>
                if is_std_exception e then
                  and_then
                    (log_root env ERROR 304 (''Configvar::FromString exception '' @ what e @
                       '' convert : string to'' @ cls_name cls @ '' name='' @ cv_name var @
                       '' - val='' @ val) s2)
                    (\<lambda>_ s3. Ok False s3)
                else Throw e s2
            | Crash c \<Rightarrow> Crash c))"

definition ConfigVar_GetValue :: "nat \<Rightarrow> 'v config_sys \<Rightarrow> ('v, 'v config_sys) result" where
  "ConfigVar_GetValue a s =
     (if length (cfg_vars s) \<le> a then Crash NullDeref else Ok (cv_val (cfg_vars s ! a)) s)"

definition ConfigVar_AddListener ::
  "nat \<Rightarrow> nat \<Rightarrow> 'v config_sys \<Rightarrow> (64 word, 'v config_sys) result"
where
  "ConfigVar_AddListener a cb =
     with_wrlock a
       (\<lambda>s. let T = cv_type (cfg_vars s ! a);
                fid = cfg_fun_ids s T + 1;
                s1 = s\<lparr>cfg_fun_ids := (cfg_fun_ids s)(T := fid)\<rparr>
            in (fid, update_var a (\<lambda>cv. cv\<lparr>cv_cbs := map_set u64_lt fid cb (cv_cbs cv)\<rparr>) s1))"

definition ConfigVar_DelListener ::
  "nat \<Rightarrow> 64 word \<Rightarrow> 'v config_sys \<Rightarrow> (unit, 'v config_sys) result"
where
  "ConfigVar_DelListener a fid =
     with_wrlock a
       (\<lambda>s. ((), update_var a (\<lambda>cv. cv\<lparr>cv_cbs := map_erase u64_lt fid (cv_cbs cv)\<rparr>) s))"

definition ConfigVar_ClearListener :: "nat \<Rightarrow> 'v config_sys \<Rightarrow> (unit, 'v config_sys) result" where
  "ConfigVar_ClearListener a =
     with_wrlock a (\<lambda>s. ((), update_var a (\<lambda>cv. cv\<lparr>cv_cbs := []\<rparr>) s))"

section \<open>Config\<close>

definition lookup_chars :: string where
  "lookup_chars = ''abcdefghijklmnopqrstuvwxyz._0123456789''"

text \<open>\<open>Config::LookUp<T>\<close>; \<open>None\<close> is the null pointer it returns for a variable of another type.\<close>

definition new_ConfigVar :: "nat \<Rightarrow> string \<Rightarrow> 'v \<Rightarrow> string \<Rightarrow> 'v config_var" where
  "new_ConfigVar T name default_value desc =
     \<lparr>cv_name = name, cv_desc = desc, cv_type = T, cv_val = default_value, cv_cbs = [],
      cv_readers = 0\<rparr>"

definition Config_LookUp ::
  "'v config_env \<Rightarrow> nat \<Rightarrow> string \<Rightarrow> 'v \<Rightarrow> string \<Rightarrow> 'v config_sys
   \<Rightarrow> (nat option, 'v config_sys) result"
where
  "Config_LookUp env T name default_value desc s =
     (if cfg_readers s > 0 then Crash Deadlock
      else case cfg_datas s name of
        Some a \<Rightarrow>
          if cv_type (cfg_vars s ! a) = T then
            and_then (log_root env INFO 378 (''LookUp name: '' @ name @ ''exists'') s)
              (\<lambda>_ s1. Ok (Some a) s1)
          else Ok None s
      | None \<Rightarrow>
          if has_char_not_of name lookup_chars then
            and_then (log_root env ERROR 387 (''Config::LookUp name invalid '' @ name) s)
              (\<lambda>_ s1. Throw (InvalidArgument name) s1)
          else
            let a = length (cfg_vars s) in
            Ok (Some a)
              (s\<lparr>cfg_vars := cfg_vars s @ [new_ConfigVar T name default_value desc],
                 cfg_datas := (cfg_datas s)(name \<mapsto> a)\<rparr>))"

definition Config_LookUpBase :: "string \<Rightarrow> 'v config_sys \<Rightarrow> nat option" where
  "Config_LookUpBase name s = cfg_datas s name"

text \<open>
  \<open>Visit\<close> calls back under the read lock of the registry, in the iteration order \<open>iter\<close> of the
  unordered map.
\<close>

definition Config_Visit ::
  "((string \<rightharpoonup> nat) \<Rightarrow> nat list) \<Rightarrow> (nat \<Rightarrow> 'v config_sys \<Rightarrow> (unit, 'v config_sys) result)
   \<Rightarrow> 'v config_sys \<Rightarrow> (unit, 'v config_sys) result"
where
  "Config_Visit iter cb s =
     (case for_each cb (iter (cfg_datas s)) (s\<lparr>cfg_readers := Suc (cfg_readers s)\<rparr>) of
        Ok _ s1 \<Rightarrow> Ok () (s1\<lparr>cfg_readers := cfg_readers s1 - 1\<rparr>)
      | Throw e s1 \<Rightarrow> Throw e (s1\<lparr>cfg_readers := cfg_readers s1 - 1\<rparr>)
      | Crash c \<Rightarrow> Crash c)"

section \<open>Loading a document\<close>

definition member_chars :: string where
  "member_chars = ''abcdefghikjlmnopqrstuvwxyz._0123456789''"

definition join_path :: "string \<Rightarrow> string \<Rightarrow> string" where
  "join_path perfix key = (if perfix = [] then key else perfix @ ''.'' @ key)"

text \<open>
  \<open>ListAllMember\<close> appends to \<open>output\<close>, which is threaded with the state. \<open>fuel\<close> is the number
  of stack frames left.
\<close>

fun ListAllMember ::
  "'v config_env \<Rightarrow> 'n yaml_lib \<Rightarrow> nat \<Rightarrow> string \<Rightarrow> 'n \<Rightarrow> (string \<times> 'n) list \<times> 'v config_sys
   \<Rightarrow> (unit, (string \<times> 'n) list \<times> 'v config_sys) result"
where
  "ListAllMember env lib 0 perfix node st = Crash StackOverflow"
| "ListAllMember env lib (Suc fuel) perfix node st =
     (if has_char_not_of perfix member_chars then
        (case on_log (ZCS_LEVEL (cenv_log env) (cfg_g_logger (snd st)) ERROR 11
                (''Config invalid name : '' @ perfix @ '' node : '' @ y_emit lib node)) (snd st) of
           Ok _ s1 \<Rightarrow> Ok () (fst st, s1)
         | Throw e s1 \<Rightarrow> Throw e (fst st, s1)
         | Crash c \<Rightarrow> Crash c)
      else
        let st1 = (fst st @ [(perfix, node)], snd st)
        in if y_is_map lib node then
             for_each
               (\<lambda>(first, second) st.
                  case y_scalar lib first of
                    Inl e \<Rightarrow> Throw e st
                  | Inr key \<Rightarrow> ListAllMember env lib fuel (join_path perfix key) second st)
               (y_entries lib node) st1
           else Ok () st1)"

definition tolower_char :: "char \<Rightarrow> char" where
  "tolower_char c = (if CHR ''A'' \<le> c \<and> c \<le> CHR ''Z'' then char_of (of_char c + 32 :: nat) else c)"

text \<open>One pass of the loop of \<open>LoadFromYaml\<close>.\<close>

definition load_entry ::
  "'v config_env \<Rightarrow> 'n yaml_lib \<Rightarrow> string \<times> 'n \<Rightarrow> 'v config_sys \<Rightarrow> (unit, 'v config_sys) result"
where
  "load_entry env lib it s =
     (if fst it = [] then Ok () s
      else case Config_LookUpBase (map tolower_char (fst it)) s of
        None \<Rightarrow> Ok () s
      | Some a \<Rightarrow>
          and_then
            (if y_is_scalar lib (snd it) then
               (case y_scalar lib (snd it) of
                  Inl e \<Rightarrow> Throw e s
                | Inr t \<Rightarrow> ConfigVar_FromString env a t s)
             else ConfigVar_FromString env a (y_emit lib (snd it)) s)
            (\<lambda>_ s1. Ok () s1))"

definition Config_LoadFromYaml ::
  "'v config_env \<Rightarrow> 'n yaml_lib \<Rightarrow> nat \<Rightarrow> 'n \<Rightarrow> 'v config_sys \<Rightarrow> (unit, 'v config_sys) result"
where
  "Config_LoadFromYaml env lib fuel root s =
     (case ListAllMember env lib fuel [] root ([], s) of
        Ok _ st \<Rightarrow> for_each (load_entry env lib) (fst st) (snd st)
      | Throw e st \<Rightarrow> Throw e (snd st)
      | Crash c \<Rightarrow> Crash c)"

end
