(* ===== verification/Config_Facts.thy ===== *)
theory Config_Facts
  imports Config_System
begin

text \<open>
  The facts about the configuration system: logging from it returns and changes the logging
  system only, the registry of variables satisfies the contract of a registry, the listeners of a
  variable, and what loading a document does.
\<close>

named_theorems cfg_simps "how the store accessors act on updated configurations"

section \<open>Accessors of the store\<close>

lemma update_var_simps [cfg_simps]:
  "cfg_datas (update_var a f s) = cfg_datas s"
  "cfg_readers (update_var a f s) = cfg_readers s"
  "cfg_fun_ids (update_var a f s) = cfg_fun_ids s"
  "cfg_g_logger (update_var a f s) = cfg_g_logger s"
  "cfg_log (update_var a f s) = cfg_log s"
  "length (cfg_vars (update_var a f s)) = length (cfg_vars s)"
  by (simp_all add: update_var_def)

lemma nth_update_var [cfg_simps]:
  "b < length (cfg_vars s) \<Longrightarrow>
    cfg_vars (update_var a f s) ! b = (if b = a then f (cfg_vars s ! b) else cfg_vars s ! b)"
  by (simp add: update_var_def)

lemma update_var_log [cfg_simps]: "update_var a f (s\<lparr>cfg_log := l\<rparr>) = (update_var a f s)\<lparr>cfg_log := l\<rparr>"
  by (simp add: update_var_def)

lemma update_var_twice [cfg_simps]: "update_var a f (update_var a g s) = update_var a (\<lambda>cv. f (g cv)) s"
proof (cases "a < length (cfg_vars s)")
  case True
  then show ?thesis by (simp add: update_var_def)
next
  case False
  then show ?thesis by (simp add: update_var_def list_update_beyond)
qed

lemma update_var_same: "f (cfg_vars s ! a) = cfg_vars s ! a \<Longrightarrow> update_var a f s = s"
  by (simp add: update_var_def)

lemma lock_unlock [cfg_simps]: "var_unlock a (var_rdlock a s) = s"
  unfolding var_unlock_def var_rdlock_def update_var_twice by (rule update_var_same) simp

section \<open>Logging\<close>

lemma ZCS_LEVEL_returns:
  assumes wf: "wf_sys s" and l: "l < length (loggers s)" and ne: "effective_appenders s l \<noteq> []"
  shows "\<exists>s'. ZCS_LEVEL env l lvl line msg s = Ok () s' \<and> log_frame s s'"
proof -
  let ?s = "s\<lparr>ticks := Suc (ticks s)\<rparr>"
  let ?e = "new_LogEvent env l lvl line (env_clock env (ticks s))"
  have "\<exists>s'. Logger_Log env [] l lvl (?e\<lparr>ev_ss := ev_ss ?e @ msg\<rparr>) ?s = Ok () s' \<and> log_frame ?s s'"
    using assms by (intro Logger_Log_outcome(2)) (simp_all add: new_LogEvent_def effective_appenders_def cong: option.case_cong split: if_splits)
  then show ?thesis
    by (simp add: ZCS_LEVEL_def destroy_LogEventWrap_def Let_def new_LogEvent_def)
qed

text \<open>\<open>log_step s s'\<close>: at most records have been logged, and lines printed, between the states.\<close>

definition log_step :: "'v config_sys \<Rightarrow> 'v config_sys \<Rightarrow> bool" where
  "log_step s s' \<longleftrightarrow> s' = s\<lparr>cfg_log := cfg_log s'\<rparr> \<and> log_frame (cfg_log s) (cfg_log s')"

lemma log_step_refl [simp]: "log_step s s"
  by (simp add: log_step_def)

lemma log_step_trans: "log_step s t \<Longrightarrow> log_step t u \<Longrightarrow> log_step s u"
  unfolding log_step_def using log_frame_trans
  by (metis config_sys.select_convs(6) config_sys.surjective config_sys.update_convs(6))

lemma log_step_fields:
  assumes "log_step s s'"
  shows "cfg_vars s' = cfg_vars s" "cfg_datas s' = cfg_datas s" "cfg_readers s' = cfg_readers s"
    "cfg_fun_ids s' = cfg_fun_ids s" "cfg_g_logger s' = cfg_g_logger s"
    "log_frame (cfg_log s) (cfg_log s')"
  using assms unfolding log_step_def
  by (metis config_sys.select_convs(1-6) config_sys.surjective config_sys.update_convs(6))+

lemma log_step_ready: "log_step s s' \<Longrightarrow> log_ready (cfg_log s) \<Longrightarrow> log_ready (cfg_log s')"
  by (auto simp: log_step_def intro: log_ready_frame)

lemma cfg_print_step [simp]: "log_step s (cfg_print s t)"
  by (simp add: log_step_def cfg_print_def)

lemma cfg_print_nothing [simp]: "cfg_print s [] = s"
  by (simp add: cfg_print_def print_cout_def)

lemma log_root_returns:
  assumes "log_ready (cfg_log s)"
  shows "\<exists>s'. log_root env lvl line msg s = Ok () s' \<and> log_step s s'"
proof -
  let ?l = "cfg_log s"
  have "wf_sys ?l" "mgr_root ?l < length (loggers ?l)" "effective_appenders ?l (mgr_root ?l) \<noteq> []"
    using assms by (auto simp: log_ready_def wf_sys_root effective_appenders_def)
  from ZCS_LEVEL_returns [OF this, of "cenv_log env" lvl line msg]
  show ?thesis by (auto simp: log_root_def log_step_def)
qed

lemma log_g_logger_returns:
  assumes "log_ready (cfg_log s)"
    and "map_find string_lt name (mgr_loggers (cfg_log s)) = Some (cfg_g_logger s)"
  shows "\<exists>s'. on_log (ZCS_LEVEL lenv (cfg_g_logger s) lvl line msg) s = Ok () s' \<and> log_step s s'"
proof -
  let ?l = "cfg_log s"
  have wf: "wf_sys ?l" and root: "lg_appenders (loggers ?l ! mgr_root ?l) \<noteq> []"
    using assms(1) by (simp_all add: log_ready_def)
  have "cfg_g_logger s < length (loggers ?l)" using wf_sys_registered(1) [OF wf assms(2)] .
  moreover have "effective_appenders ?l (cfg_g_logger s) \<noteq> []"
    using effective_nonempty [OF wf assms(2)] root by simp
  ultimately show ?thesis
    using ZCS_LEVEL_returns [OF wf, of "cfg_g_logger s" lenv lvl line msg]
    by (auto simp: log_step_def)
qed

section \<open>The registry\<close>

text \<open>
  \<open>typing\<close> gives the type at which each name is requested. Every registered variable has its
  name and that type.
\<close>

definition name_ok :: "string \<Rightarrow> bool" where
  "name_ok name \<longleftrightarrow> \<not> has_char_not_of name lookup_chars"

definition config_inv :: "(string \<Rightarrow> nat) \<Rightarrow> 'v config_sys \<Rightarrow> bool" where
  "config_inv typing s \<longleftrightarrow>
     log_ready (cfg_log s) \<and> cfg_readers s = 0 \<and>
     (\<forall>name a. cfg_datas s name = Some a \<longrightarrow>
        a < length (cfg_vars s) \<and> cv_name (cfg_vars s ! a) = name \<and>
        cv_type (cfg_vars s ! a) = typing name \<and> name_ok name)"

lemma config_inv_log_step: "log_step s s' \<Longrightarrow> config_inv typing s \<Longrightarrow> config_inv typing s'"
  using log_step_ready by (auto simp: config_inv_def log_step_fields)

lemma LookUp_found:
  assumes "config_inv typing s" and "cfg_datas s name = Some a"
  shows "\<exists>s'. Config_LookUp env (typing name) name d desc s = Ok (Some a) s' \<and> log_step s s'"
proof -
  have "log_ready (cfg_log s)" using assms(1) by (simp add: config_inv_def)
  from log_root_returns [OF this]
  obtain s' where "log_root env INFO 378 (''LookUp name: '' @ name @ ''exists'') s = Ok () s'"
    and "log_step s s'" by blast
  with assms show ?thesis by (auto simp: Config_LookUp_def config_inv_def)
qed

lemma LookUp_fresh:
  assumes "config_inv typing s" and "cfg_datas s name = None" and "name_ok name"
  shows "Config_LookUp env T name d desc s =
    Ok (Some (length (cfg_vars s)))
      (s\<lparr>cfg_vars := cfg_vars s @ [new_ConfigVar T name d desc],
         cfg_datas := (cfg_datas s)(name \<mapsto> length (cfg_vars s))\<rparr>)"
  using assms by (simp add: Config_LookUp_def config_inv_def name_ok_def Let_def)

definition config_get ::
  "'v config_env \<Rightarrow> (string \<Rightarrow> nat) \<Rightarrow> (string \<Rightarrow> 'v) \<Rightarrow> string \<Rightarrow> 'v config_sys \<Rightarrow> nat \<times> 'v config_sys"
where
  "config_get env typing dflt name s =
     (case Config_LookUp env (typing name) name (dflt name) [] s of
        Ok (Some a) s' \<Rightarrow> (a, s')
      | _ \<Rightarrow> (0, s))"

lemma config_get_fresh:
  assumes "config_inv typing s" and "cfg_datas s name = None" and "name_ok name"
  shows "config_get env typing dflt name s =
    (length (cfg_vars s),
     s\<lparr>cfg_vars := cfg_vars s @ [new_ConfigVar (typing name) name (dflt name) []],
       cfg_datas := (cfg_datas s)(name \<mapsto> length (cfg_vars s))\<rparr>)"
  by (simp add: config_get_def LookUp_fresh [OF assms])

lemma config_get_found:
  assumes "config_inv typing s" and "cfg_datas s name = Some a"
  shows "fst (config_get env typing dflt name s) = a \<and> log_step s (snd (config_get env typing dflt name s))"
proof -
  obtain s' where "Config_LookUp env (typing name) name (dflt name) [] s = Ok (Some a) s'"
    and "log_step s s'" using LookUp_found [OF assms] by blast
  then show ?thesis by (simp add: config_get_def)
qed

lemma config_inv_get:
  assumes inv: "config_inv typing s" and ok: "name_ok name"
  shows "config_inv typing (snd (config_get env typing dflt name s))"
proof (cases "cfg_datas s name")
  case None
  with inv ok show ?thesis
    by (auto simp: config_get_fresh [OF inv None ok] config_inv_def nth_append new_ConfigVar_def
        less_SucI)
next
  case (Some a)
  then show ?thesis using config_get_found [OF inv Some] config_inv_log_step [OF _ inv] by blast
qed

interpretation vars_registry: get_or_create
  "config_get env typing dflt" cfg_datas name_ok "config_inv typing"
  for env :: "'v config_env" and typing and dflt
proof (unfold_locales, goal_cases)
  case (2 s k v)
  then show ?case using config_get_found by blast
next
  case (3 s k)
  then show ?case
    using config_get_found [of typing s k _ env dflt]
    by (cases "cfg_datas s k") (auto simp: config_get_fresh log_step_fields)
next
  case (4 s k j)
  then show ?case
    using config_get_found [of typing s k _ env dflt]
    by (cases "cfg_datas s k") (auto simp: config_get_fresh log_step_fields)
next
  case (5 s j v k)
  then show ?case by (auto simp: config_inv_def)
qed (rule config_inv_get)

section \<open>Setting a variable\<close>

text \<open>
  What is asked of listeners: they return, or throw a standard exception where \<open>thr\<close> allows it,
  and act on the logging system only, which stays able to log.
\<close>

definition log_changed :: "'v config_sys \<Rightarrow> 'v config_sys \<Rightarrow> bool" where
  "log_changed s t \<longleftrightarrow> t = s\<lparr>cfg_log := cfg_log t\<rparr> \<and> log_ready (cfg_log t)"

fun listener_result :: "bool \<Rightarrow> 'v config_sys \<Rightarrow> (unit, 'v config_sys) result \<Rightarrow> bool" where
  "listener_result thr s (Ok u t) = log_changed s t"
| "listener_result thr s (Throw e t) = (thr \<and> is_std_exception e \<and> log_changed s t)"
| "listener_result thr s (Crash c) = False"

definition listeners_ok :: "bool \<Rightarrow> 'v config_env \<Rightarrow> bool" where
  "listeners_ok thr env \<longleftrightarrow>
     (\<forall>cb v old s. log_ready (cfg_log s) \<longrightarrow> listener_result thr s (cenv_run env cb v old s))"

text \<open>What is asked of the types: \<open>operator==\<close> is equality, the casts throw standard exceptions.\<close>

definition classes_ok :: "'v config_env \<Rightarrow> bool" where
  "classes_ok env \<longleftrightarrow>
     (\<forall>T x y. cls_eq (cenv_class env T) x y \<longleftrightarrow> x = y) \<and>
     (\<forall>T t e. snd (cls_from (cenv_class env T) t) = Inl e \<longrightarrow> is_std_exception e)"

lemma log_changed_refl: "log_ready (cfg_log s) \<Longrightarrow> log_changed s s"
  by (simp add: log_changed_def)

lemma log_changed_fields:
  assumes "log_changed s t"
  shows "cfg_vars t = cfg_vars s" "cfg_datas t = cfg_datas s" "cfg_readers t = cfg_readers s"
    "cfg_fun_ids t = cfg_fun_ids s" "cfg_g_logger t = cfg_g_logger s" "log_ready (cfg_log t)"
  using assms unfolding log_changed_def
  by (metis config_sys.select_convs(1-5) config_sys.surjective config_sys.update_convs(6))+

lemma log_changed_trans: "log_changed s t \<Longrightarrow> log_changed t u \<Longrightarrow> log_changed s u"
  unfolding log_changed_def
  by (metis config_sys.select_convs(6) config_sys.surjective config_sys.update_convs(6))

lemma log_step_changed: "log_step s t \<Longrightarrow> log_ready (cfg_log s) \<Longrightarrow> log_changed s t"
  using log_step_ready by (auto simp: log_changed_def log_step_def)

lemma log_changed_update: "log_changed s t \<Longrightarrow> log_changed (update_var a f s) (update_var a f t)"
proof -
  assume "log_changed s t"
  then have t: "t = s\<lparr>cfg_log := cfg_log t\<rparr>" and "log_ready (cfg_log t)"
    by (simp_all add: log_changed_def)
  have "update_var a f t = (update_var a f s)\<lparr>cfg_log := cfg_log t\<rparr>"
    by (subst t) (rule update_var_log)
  with \<open>log_ready (cfg_log t)\<close> show ?thesis by (simp add: log_changed_def cfg_simps)
qed

lemma listeners_run:
  assumes "listeners_ok thr env" and "log_ready (cfg_log s)"
  shows "listener_result thr s (for_each (\<lambda>(fid, cb). cenv_run env cb v old) cbs s)"
  using assms(2)
proof (induction cbs arbitrary: s)
  case Nil
  then show ?case by (simp add: log_changed_refl)
next
  case (Cons c cbs)
  obtain fid cb where c: "c = (fid, cb)" by (cases c)
  let ?r = "cenv_run env cb v old s"
  have res: "listener_result thr s ?r" using assms(1) Cons.prems by (simp add: listeners_ok_def)
  show ?case
  proof (cases ?r)
    case (Ok u t)
    with res have st: "log_changed s t" by simp
    then have "listener_result thr t (for_each (\<lambda>(fid, cb). cenv_run env cb v old) cbs t)"
      by (intro Cons.IH) (simp add: log_changed_fields)
    with Ok st show ?thesis
      by (cases "for_each (\<lambda>(fid, cb). cenv_run env cb v old) cbs t")
        (auto simp: c intro: log_changed_trans)
  qed (use res in \<open>simp_all add: c\<close>)
qed

text \<open>
  \<open>SetValue\<close> assigns the value, or throws what a listener threw and assigns nothing; apart from
  the value only the logging system changes.
\<close>

lemma SetValue_cases:
  assumes ls: "listeners_ok thr env" and eq: "classes_ok env" and ready: "log_ready (cfg_log s)"
    and a: "a < length (cfg_vars s)" and free: "cv_readers (cfg_vars s ! a) = 0"
  obtains t where "ConfigVar_SetValue env a v s = Ok () t"
      "log_changed (update_var a (\<lambda>cv. cv\<lparr>cv_val := v\<rparr>) s) t"
  | e t where "thr" "is_std_exception e" "ConfigVar_SetValue env a v s = Throw e t"
      "log_changed s t"
proof (cases "cv_val (cfg_vars s ! a) = v")
  case True
  then have "ConfigVar_SetValue env a v s = Ok () s"
    using a eq by (simp add: ConfigVar_SetValue_def classes_ok_def Let_def cfg_simps)
  moreover have "update_var a (\<lambda>cv. cv\<lparr>cv_val := v\<rparr>) s = s"
    using True by (intro update_var_same) simp
  ultimately show thesis using that(1) [of s] ready by (simp add: log_changed_refl)
next
  case False
  let ?s = "var_rdlock a s"
  let ?r = "for_each (\<lambda>(fid, cb). cenv_run env cb v (cv_val (cfg_vars s ! a))) (cv_cbs (cfg_vars s ! a)) ?s"
  have "listener_result thr ?s ?r"
    using ready by (intro listeners_run [OF ls]) (simp add: var_rdlock_def cfg_simps)
  then consider t where "?r = Ok () t" "log_changed ?s t"
    | e t where "thr" "is_std_exception e" "?r = Throw e t" "log_changed ?s t"
    by (cases ?r) auto
  then show thesis
  proof cases
    case (1 t)
    have st: "log_changed s (var_unlock a t)"
      using log_changed_update [OF 1(2)] lock_unlock [of a s] unfolding var_unlock_def by metis
    have "ConfigVar_SetValue env a v s = Ok () (update_var a (\<lambda>cv. cv\<lparr>cv_val := v\<rparr>) (var_unlock a t))"
      using 1(1) False a eq free
      by (simp add: ConfigVar_SetValue_def classes_ok_def Let_def with_wrlock_def log_changed_fields [OF st])
    then show thesis using that(1) log_changed_update [OF st] by blast
  next
    case (2 e t)
    have st: "log_changed s (var_unlock a t)"
      using log_changed_update [OF 2(4)] lock_unlock [of a s] unfolding var_unlock_def by metis
    have "ConfigVar_SetValue env a v s = Throw e (var_unlock a t)"
      using 2(3) False a eq by (simp add: ConfigVar_SetValue_def classes_ok_def Let_def)
    then show thesis using that(2) 2(1,2) st by blast
  qed
qed

lemma log_ready_print: "log_ready (cfg_log s) \<Longrightarrow> log_changed s (cfg_print s out)"
  by (rule log_step_changed) simp_all

text \<open>
  \<open>FromString\<close> returns: \<open>true\<close> and the value assigned, or \<open>false\<close> and nothing assigned, the
  latter because the cast threw or, where \<open>thr\<close> allows it, a listener did.
\<close>

lemma FromString_cases:
  assumes ls: "listeners_ok thr env" and eq: "classes_ok env" and ready: "log_ready (cfg_log s)"
    and a: "a < length (cfg_vars s)" and free: "cv_readers (cfg_vars s ! a) = 0"
  obtains v t where "snd (cls_from (cenv_class env (cv_type (cfg_vars s ! a))) val) = Inr v"
      "ConfigVar_FromString env a val s = Ok True t"
      "log_changed (update_var a (\<lambda>cv. cv\<lparr>cv_val := v\<rparr>) s) t"
  | t where "thr \<or> isl (snd (cls_from (cenv_class env (cv_type (cfg_vars s ! a))) val))"
      "ConfigVar_FromString env a val s = Ok False t" "log_changed s t"
proof -
  let ?var = "cfg_vars s ! a"
  let ?cls = "cenv_class env (cv_type ?var)"
  obtain out r where from_str: "cls_from ?cls val = (out, r)" by (cases "cls_from ?cls val")
  let ?s1 = "cfg_print s out"
  have s1: "log_changed s ?s1" using ready by (rule log_ready_print)
  have vars1: "cfg_vars ?s1 = cfg_vars s" "log_ready (cfg_log ?s1)"
    using log_changed_fields [OF s1] by simp_all
  let ?out = "case r of Inl e \<Rightarrow> Throw e ?s1 | Inr v \<Rightarrow> ConfigVar_SetValue env a v ?s1"
  have unfold: "ConfigVar_FromString env a val s =
      (case ?out of
         Ok _ s2 \<Rightarrow> Ok True s2
       | Throw e s2 \<Rightarrow>
           if is_std_exception e then
             and_then
               (log_root env ERROR 304 (''Configvar::FromString exception '' @ what e @
                  '' convert : string to'' @ cls_name ?cls @ '' name='' @ cv_name ?var @
                  '' - val='' @ val) s2)
               (\<lambda>_ s3. Ok False s3)
           else Throw e s2
       | Crash c \<Rightarrow> Crash c)"
    using a by (simp add: ConfigVar_FromString_def Let_def from_str)
  have failed: "\<exists>t. ConfigVar_FromString env a val s = Ok False t \<and> log_changed s t"
    if "?out = Throw e s2" "is_std_exception e" "log_changed s s2" for e s2
  proof -
    have "log_ready (cfg_log s2)" using that(3) by (simp add: log_changed_fields)
    from log_root_returns [OF this]
    obtain t where "log_root env ERROR 304 (''Configvar::FromString exception '' @ what e @
        '' convert : string to'' @ cls_name ?cls @ '' name='' @ cv_name ?var @
        '' - val='' @ val) s2 = Ok () t" and "log_step s2 t" by blast
    moreover from this have "log_changed s t"
      using log_changed_trans [OF that(3) log_step_changed] \<open>log_ready (cfg_log s2)\<close> by blast
    ultimately show ?thesis unfolding unfold that(1) using that(2) by simp
  qed
  show thesis
  proof (cases r)
    case (Inl e)
    then have "is_std_exception e" using eq from_str by (metis classes_ok_def snd_conv)
    with failed [of e ?s1] s1 Inl from_str show thesis by (auto intro: that(2))
  next
    case (Inr v)
    have a1: "a < length (cfg_vars ?s1)" "cv_readers (cfg_vars ?s1 ! a) = 0"
      using a free vars1(1) by simp_all
    show thesis
    proof (rule SetValue_cases [OF ls eq vars1(2) a1, where v = v])
      fix t
      assume st: "ConfigVar_SetValue env a v ?s1 = Ok () t"
        "log_changed (update_var a (\<lambda>cv. cv\<lparr>cv_val := v\<rparr>) ?s1) t"
      have "log_changed (update_var a (\<lambda>cv. cv\<lparr>cv_val := v\<rparr>) s) t"
        using log_changed_trans [OF log_changed_update [OF s1] st(2)] .
      then show thesis using that(1) [of v t] st(1) Inr from_str unfold by simp
    next
      fix e t
      assume st: "thr" "is_std_exception e" "ConfigVar_SetValue env a v ?s1 = Throw e t"
        "log_changed ?s1 t"
      with failed [of e t] log_changed_trans [OF s1 st(4)] Inr show thesis by (auto intro: that(2))
    qed
  qed
qed

section \<open>Loading a document\<close>

text \<open>
  \<open>depth_ok lib d n\<close>: the maps of the document are nested less than \<open>d\<close> deep and their keys are
  scalars. \<open>dotted\<close> is the list of the members with their dotted paths, in document order; the
  subtree below a key with a character that is not allowed is left out.
\<close>

fun depth_ok :: "'n yaml_lib \<Rightarrow> nat \<Rightarrow> 'n \<Rightarrow> bool" where
  "depth_ok lib 0 n = False"
| "depth_ok lib (Suc d) n =
     (y_is_map lib n \<longrightarrow>
       list_all (\<lambda>(k, v). \<not> isl (y_scalar lib k) \<and> depth_ok lib d v) (y_entries lib n))"

fun dotted :: "'n yaml_lib \<Rightarrow> nat \<Rightarrow> string \<Rightarrow> 'n \<Rightarrow> (string \<times> 'n) list" where
  "dotted lib 0 p n = []"
| "dotted lib (Suc d) p n =
     (if has_char_not_of p member_chars then []
      else (p, n) #
        (if y_is_map lib n
         then concat (map (\<lambda>(k, v). dotted lib d (join_path p (projr (y_scalar lib k))) v)
           (y_entries lib n))
         else []))"

definition system_registered :: "'v config_sys \<Rightarrow> bool" where
  "system_registered s \<longleftrightarrow>
     (\<exists>name. map_find string_lt name (mgr_loggers (cfg_log s)) = Some (cfg_g_logger s))"

lemma system_registered_step: "log_step s t \<Longrightarrow> system_registered t = system_registered s"
  using log_step_fields [of s t] by (simp add: system_registered_def log_frame_def)

lemma ListAllMember_dotted:
  assumes "depth_ok lib fuel node" and "log_ready (cfg_log s)" and "system_registered s"
  shows "\<exists>t. ListAllMember env lib fuel p node (out, s) = Ok () (out @ dotted lib fuel p node, t) \<and>
    log_step s t"
  using assms
proof (induction fuel arbitrary: p node out s)
  case (Suc fuel)
  show ?case
  proof (cases "has_char_not_of p member_chars")
    case True
    obtain t where "on_log (ZCS_LEVEL (cenv_log env) (cfg_g_logger s) ERROR 11
        (''Config invalid name : '' @ p @ '' node : '' @ y_emit lib node)) s = Ok () t" "log_step s t"
      using log_g_logger_returns [OF Suc.prems(2)] Suc.prems(3) by (metis system_registered_def)
    with True show ?thesis by (simp del: on_log.simps)
  next
    case False
    let ?body = "\<lambda>(first, second) st. case y_scalar lib first of
        Inl e \<Rightarrow> Throw e st
      | Inr key \<Rightarrow> ListAllMember env lib fuel (join_path p key) second st"
    let ?spec = "\<lambda>es. concat (map (\<lambda>(k, v). dotted lib fuel (join_path p (projr (y_scalar lib k))) v) es)"
    have "\<exists>t. for_each ?body es (out, s) = Ok () (out @ ?spec es, t) \<and> log_step s t"
      if "list_all (\<lambda>(k, v). \<not> isl (y_scalar lib k) \<and> depth_ok lib fuel v) es"
        "log_ready (cfg_log s)" "system_registered s" for es out s
      using that
    proof (induction es arbitrary: out s)
      case (Cons e es)
      obtain k v where e: "e = (k, v)" by (cases e)
      with Cons.prems obtain key where key: "y_scalar lib k = Inr key" and "depth_ok lib fuel v"
        by (cases "y_scalar lib k") auto
      then obtain t where t: "ListAllMember env lib fuel (join_path p key) v (out, s) =
          Ok () (out @ dotted lib fuel (join_path p key) v, t)" "log_step s t"
        using Suc.IH [of v s "join_path p key" out] Cons.prems by blast
      from Cons.IH [of t "out @ dotted lib fuel (join_path p key) v"] Cons.prems t(2)
      obtain u where "for_each ?body es (out @ dotted lib fuel (join_path p key) v, t) =
          Ok () (out @ dotted lib fuel (join_path p key) v @ ?spec es, u)" "log_step t u"
        by (auto simp: log_step_ready system_registered_step)
      with t show ?case by (auto simp: e key intro: log_step_trans)
    qed simp
    from this [of "y_entries lib node" s "out @ [(p, node)]"] Suc.prems False show ?thesis by auto
  qed
qed simp

lemma depth_ok_mono:
  "depth_ok lib d n \<Longrightarrow> d \<le> fuel \<Longrightarrow> depth_ok lib fuel n \<and> dotted lib fuel p n = dotted lib d p n"
proof (induction d arbitrary: n fuel p)
  case (Suc d)
  then obtain f where f: "fuel = Suc f" "d \<le> f" by (cases fuel) auto
  have "depth_ok lib f v \<and> dotted lib f q v = dotted lib d q v"
    if "y_is_map lib n" "(k, v) \<in> set (y_entries lib n)" for k v q
    using Suc.prems(1) that f(2) by (intro Suc.IH) (auto simp: list_all_iff)
  with f Suc.prems(1) show ?case
    by (auto simp: list_all_iff split_beta intro!: arg_cong [of _ _ concat])
qed simp

lemma member_chars_lower: "c \<in> set member_chars \<Longrightarrow> tolower_char c = c"
proof -
  have "list_all (\<lambda>c. tolower_char c = c) member_chars" by code_simp
  then show "c \<in> set member_chars \<Longrightarrow> tolower_char c = c" by (simp add: list_all_iff)
qed

lemma dotted_lower: "(k, n) \<in> set (dotted lib d p m) \<Longrightarrow> map tolower_char k = k"
proof (induction d arbitrary: p m)
  case (Suc d)
  show ?case
  proof (cases "k = p \<and> n = m")
    case True
    with Suc.prems have "\<not> has_char_not_of p member_chars" by (auto split: if_splits)
    with True show ?thesis by (auto simp: has_char_not_of_def member_chars_lower intro: map_idI)
  next
    case False
    with Suc.prems Suc.IH show ?thesis by (auto split: if_splits)
  qed
qed simp

definition node_text :: "'n yaml_lib \<Rightarrow> 'n \<Rightarrow> string" where
  "node_text lib n = (if y_is_scalar lib n then projr (y_scalar lib n) else y_emit lib n)"

definition scalars_ok :: "'n yaml_lib \<Rightarrow> bool" where
  "scalars_ok lib \<longleftrightarrow> (\<forall>n. y_is_scalar lib n \<longrightarrow> \<not> isl (y_scalar lib n))"

text \<open>
  \<open>loaded cls v t\<close> is the value of a variable that held \<open>v\<close> after it has been given the text
  \<open>t\<close>; \<open>load_one\<close> is what one member of a document does to the variables.
\<close>

definition loaded :: "'v config_class \<Rightarrow> 'v \<Rightarrow> string \<Rightarrow> 'v" where
  "loaded cls v t = (case snd (cls_from cls t) of Inr w \<Rightarrow> w | Inl e \<Rightarrow> v)"

definition load_one ::
  "'v config_env \<Rightarrow> 'n yaml_lib \<Rightarrow> string \<times> 'n \<Rightarrow> 'v config_sys \<Rightarrow> 'v config_sys"
where
  "load_one env lib it s =
     (case (if fst it = [] then None else cfg_datas s (fst it)) of
        None \<Rightarrow> s
      | Some a \<Rightarrow>
          update_var a
            (\<lambda>cv. cv\<lparr>cv_val := loaded (cenv_class env (cv_type cv)) (cv_val cv) (node_text lib (snd it))\<rparr>) s)"

definition vars_unlocked :: "'v config_sys \<Rightarrow> bool" where
  "vars_unlocked s \<longleftrightarrow> list_all (\<lambda>cv. cv_readers cv = 0) (cfg_vars s)"

lemma load_one_inv:
  "config_inv typing s \<Longrightarrow> config_inv typing (load_one env lib it s)"
  by (auto simp: load_one_def config_inv_def cfg_simps split: option.splits)

lemma load_one_unlocked: "vars_unlocked s \<Longrightarrow> vars_unlocked (load_one env lib it s)"
  by (auto simp: load_one_def vars_unlocked_def list_all_length cfg_simps split: option.splits)

lemma log_changed_load_one: "log_changed s t \<Longrightarrow> log_changed (load_one env lib it s) (load_one env lib it t)"
  by (auto simp: load_one_def log_changed_fields log_changed_update split: option.splits)

lemma config_inv_log_changed: "log_changed s t \<Longrightarrow> config_inv typing s \<Longrightarrow> config_inv typing t"
  by (auto simp: config_inv_def log_changed_fields)

lemma vars_unlocked_log_changed: "log_changed s t \<Longrightarrow> vars_unlocked s \<Longrightarrow> vars_unlocked t"
  by (simp add: vars_unlocked_def log_changed_fields)

lemma load_entry_load_one:
  assumes ls: "listeners_ok False env" and eq: "classes_ok env" and sc: "scalars_ok lib"
    and inv: "config_inv typing s" and free: "vars_unlocked s"
    and low: "map tolower_char (fst it) = fst it"
  shows "\<exists>t. load_entry env lib it s = Ok () t \<and> log_changed (load_one env lib it s) t"
proof (cases "if fst it = [] then None else cfg_datas s (fst it)")
  case None
  with inv low show ?thesis
    by (auto simp: load_entry_def load_one_def Config_LookUpBase_def config_inv_def log_changed_refl
        split: if_splits)
next
  case (Some a)
  let ?txt = "node_text lib (snd it)"
  have ready: "log_ready (cfg_log s)" and a: "a < length (cfg_vars s)"
    using inv Some by (auto simp: config_inv_def split: if_splits)
  have unlocked: "cv_readers (cfg_vars s ! a) = 0" using free a by (simp add: vars_unlocked_def list_all_length)
  have entry: "load_entry env lib it s =
      and_then (ConfigVar_FromString env a ?txt s) (\<lambda>_ s1. Ok () s1)"
    using Some low sc
    by (auto simp: load_entry_def Config_LookUpBase_def node_text_def scalars_ok_def
        split: if_splits sum.splits)
  let ?cast = "snd (cls_from (cenv_class env (cv_type (cfg_vars s ! a))) ?txt)"
  have one: "load_one env lib it s = update_var a
      (\<lambda>cv. cv\<lparr>cv_val := loaded (cenv_class env (cv_type cv)) (cv_val cv) ?txt\<rparr>) s"
    using Some by (simp add: load_one_def)
  show ?thesis
  proof (rule FromString_cases [OF ls eq ready a unlocked, where val = ?txt])
    fix v t
    assume st: "?cast = Inr v" "ConfigVar_FromString env a ?txt s = Ok True t"
      "log_changed (update_var a (\<lambda>cv. cv\<lparr>cv_val := v\<rparr>) s) t"
    have "load_one env lib it s = update_var a (\<lambda>cv. cv\<lparr>cv_val := v\<rparr>) s"
      using st(1) by (simp add: one update_var_def loaded_def)
    with st entry show ?thesis by simp
  next
    fix t
    assume st: "False \<or> isl ?cast" "ConfigVar_FromString env a ?txt s = Ok False t" "log_changed s t"
    then have "load_one env lib it s = s"
      unfolding one by (intro update_var_same) (auto simp: loaded_def split: sum.splits)
    with st entry show ?thesis by simp
  qed
qed

lemma load_entries:
  assumes ls: "listeners_ok False env" and eq: "classes_ok env" and sc: "scalars_ok lib"
    and low: "\<forall>it \<in> set es. map tolower_char (fst it) = fst it"
    and "config_inv typing s" and "vars_unlocked s"
  shows "\<exists>t. for_each (load_entry env lib) es s = Ok () t \<and>
    log_changed (fold (load_one env lib) es s) t \<and> config_inv typing t \<and> vars_unlocked t"
  using assms(4-)
proof (induction es arbitrary: s)
  case Nil
  then show ?case by (auto simp: config_inv_def log_changed_refl)
next
  case (Cons e es)
  obtain t where t: "load_entry env lib e s = Ok () t" "log_changed (load_one env lib e s) t"
    using load_entry_load_one [OF ls eq sc] Cons.prems by fastforce
  have inv: "config_inv typing t" "vars_unlocked t"
    using config_inv_log_changed [OF t(2) load_one_inv] vars_unlocked_log_changed [OF t(2)
        load_one_unlocked] Cons.prems by auto
  have mono: "log_changed u v \<Longrightarrow> log_changed (fold (load_one env lib) es u) (fold (load_one env lib) es v)"
    for u v by (induction es arbitrary: u v) (auto intro: log_changed_load_one)
  from Cons.IH [OF _ inv] Cons.prems obtain u where u: "for_each (load_entry env lib) es t = Ok () u"
    "log_changed (fold (load_one env lib) es t) u" "config_inv typing u" "vars_unlocked u" by auto
  with t(1) log_changed_trans [OF mono [OF t(2)] u(2)] show ?case by auto
qed

lemma fold_load_one_value:
  assumes "config_inv typing s" and "cfg_datas s name = Some a" and "name \<noteq> []"
  shows "cv_val (cfg_vars (fold (load_one env lib) es s) ! a) =
    foldl (loaded (cenv_class env (typing name))) (cv_val (cfg_vars s ! a))
      (map (\<lambda>it. node_text lib (snd it)) (filter (\<lambda>it. fst it = name) es))"
  using assms(1,2)
proof (induction es arbitrary: s)
  case (Cons e es)
  let ?t = "load_one env lib e s"
  have a: "a < length (cfg_vars s)" "cv_type (cfg_vars s ! a) = typing name"
    using Cons.prems by (auto simp: config_inv_def)
  have "cfg_datas ?t name = Some a"
    using Cons.prems by (auto simp: load_one_def cfg_simps split: option.splits)
  from Cons.IH [OF load_one_inv [OF Cons.prems(1)] this]
  have "cv_val (cfg_vars (fold (load_one env lib) es ?t) ! a) =
      foldl (loaded (cenv_class env (typing name))) (cv_val (cfg_vars ?t ! a))
        (map (\<lambda>it. node_text lib (snd it)) (filter (\<lambda>it. fst it = name) es))" .
  moreover have "cv_val (cfg_vars ?t ! a) =
      (if fst e = name then loaded (cenv_class env (typing name)) (cv_val (cfg_vars s ! a))
        (node_text lib (snd e)) else cv_val (cfg_vars s ! a))"
  proof (cases "fst e = name")
    case True
    with Cons.prems assms(3) a show ?thesis by (simp add: load_one_def cfg_simps)
  next
    case False
    have "b \<noteq> a" if "cfg_datas s (fst e) = Some b" for b
      using that False Cons.prems unfolding config_inv_def by metis
    with False a show ?thesis by (auto simp: load_one_def cfg_simps split: option.splits if_splits)
  qed
  ultimately show ?case by (auto simp: split_beta)
qed simp

section \<open>Requests for variables\<close>

lemma LookUp_is_get:
  assumes "config_inv typing s" and "name_ok name"
  shows "Config_LookUp env (typing name) name (dflt name) [] s =
    Ok (Some (fst (config_get env typing dflt name s))) (snd (config_get env typing dflt name s))"
proof (cases "cfg_datas s name")
  case None
  with assms show ?thesis by (simp add: config_get_fresh LookUp_fresh)
next
  case (Some a)
  from LookUp_found [OF assms(1) Some, of env "dflt name" "[]"] show ?thesis
    by (auto simp: config_get_def)
qed

lemma config_get_keeps_var:
  assumes "config_inv typing s" and "name_ok name" and "a < length (cfg_vars s)"
  shows "a < length (cfg_vars (snd (config_get env typing dflt name s))) \<and>
    cfg_vars (snd (config_get env typing dflt name s)) ! a = cfg_vars s ! a"
proof (cases "cfg_datas s name")
  case None
  with assms show ?thesis by (simp add: config_get_fresh nth_append)
next
  case (Some b)
  have "log_step s (snd (config_get env typing dflt name s))"
    using config_get_found [OF assms(1) Some, of env dflt] by simp
  from log_step_fields(1) [OF this] assms(3) show ?thesis by simp
qed

lemma LookUps_are_get_all:
  assumes "config_inv typing s" and "list_all name_ok names"
  shows "for_each (\<lambda>n s. and_then (Config_LookUp env (typing n) n (dflt n) [] s) (\<lambda>_ s. Ok () s)) names s =
      Ok () (vars_registry.get_all env typing dflt names s) \<and>
    config_inv typing (vars_registry.get_all env typing dflt names s) \<and>
    (\<forall>a. a < length (cfg_vars s) \<longrightarrow>
      a < length (cfg_vars (vars_registry.get_all env typing dflt names s)) \<and>
      cfg_vars (vars_registry.get_all env typing dflt names s) ! a = cfg_vars s ! a)"
  using assms
proof (induction names arbitrary: s)
  case Nil
  then show ?case by (simp add: vars_registry.get_all_def)
next
  case (Cons n names)
  let ?t = "snd (config_get env typing dflt n s)"
  have inv: "config_inv typing ?t" using Cons.prems by (intro config_inv_get) simp_all
  have "vars_registry.get_all env typing dflt (n # names) s =
      vars_registry.get_all env typing dflt names ?t"
    by (simp add: vars_registry.get_all_def)
  with Cons.IH [OF inv] Cons.prems config_get_keeps_var [of typing s n _ env dflt] show ?case
    by (simp add: LookUp_is_get)
qed

end
