(* ===== verification/Config_Properties.thy ===== *)
theory Config_Properties
  imports Config_Facts Yaml_Tree
begin

text \<open>
  The properties of the configuration system: the registry of variables, the notification of
  listeners, assignment from text, and loading a document.
\<close>

section \<open>The registry\<close>

text \<open>
  C23: \<open>LookUp\<close> returns the variable registered under the name if it has the requested type, leaving
  its value alone; returns null if it has another type; registers a new variable with the default
  value if the name is free and has only the allowed characters; and throws
  \<open>std::invalid_argument\<close> otherwise. In every case nothing else changes but the log.
\<close>

theorem LookUp_outcome:
  assumes "config_inv typing s"
  shows "case cfg_datas s name of
      Some a \<Rightarrow>
        if T = typing name
        then \<exists>t. Config_LookUp env T name d desc s = Ok (Some a) t \<and> log_step s t
        else Config_LookUp env T name d desc s = Ok None s
    | None \<Rightarrow>
        if name_ok name
        then Config_LookUp env T name d desc s = Ok (Some (length (cfg_vars s)))
          (s\<lparr>cfg_vars := cfg_vars s @ [new_ConfigVar T name d desc],
             cfg_datas := (cfg_datas s)(name \<mapsto> length (cfg_vars s))\<rparr>)
        else \<exists>t. Config_LookUp env T name d desc s = Throw (InvalidArgument name) t \<and> log_step s t"
proof (cases "cfg_datas s name")
  case None
  have "log_ready (cfg_log s)" using assms by (simp add: config_inv_def)
  from log_root_returns [OF this, of env ERROR 387 "''Config::LookUp name invalid '' @ name"]
  show ?thesis
    using assms None LookUp_fresh [OF assms None]
    by (auto simp: Config_LookUp_def config_inv_def name_ok_def)
next
  case (Some a)
  with assms LookUp_found [OF assms Some] show ?thesis
    by (auto simp: Config_LookUp_def config_inv_def)
qed

definition example_log :: log_sys where
  "example_log =
     \<lparr>loggers = [(new_Logger ''root'')\<lparr>lg_appenders := [0]\<rparr>],
      appenders = [new_StdoutLogAppender\<lparr>ap_formatter := Some (new_LogFormatter default_pattern)\<rparr>],
      mgr_root = 0, mgr_loggers = [(''root'', 0)], cout = [], files = (\<lambda>_. []), disk = (\<lambda>_. []), ticks = 0\<rparr>"

definition example_config :: "'v config_sys" where
  "example_config =
     \<lparr>cfg_vars = [], cfg_datas = Map.empty, cfg_readers = 0, cfg_fun_ids = (\<lambda>_. 0), cfg_g_logger = 0,
      cfg_log = example_log\<rparr>"

lemma example_config_inv: "config_inv typing example_config"
proof -
  have "wf_sys (cfg_log example_config)"
    by (rule wf_sys_initial) (simp add: new_LoggerManager_state example_config_def example_log_def)
  then show ?thesis by (simp add: config_inv_def log_ready_def) (simp add: example_config_def example_log_def)
qed

lemma example_ready: "log_ready (cfg_log example_config)" "system_registered example_config"
proof -
  show "log_ready (cfg_log example_config)"
    using example_config_inv [of "\<lambda>_. 0"] unfolding config_inv_def by (rule conjunct1)
  show "system_registered example_config"
    by (auto simp: system_registered_def example_config_def example_log_def string_lt_def intro!: exI [of _ "''root''"])
qed

lemma example_log_ready: "log_ready example_log"
  using example_ready(1) by (simp add: example_config_def)

definition nat_class :: "nat config_class" where
  "nat_class = \<lparr>cls_name = ''i'', cls_from = nat_from_string, cls_to = nat_to_string, cls_eq = (=)\<rparr>"

definition example_env :: "nat config_env" where
  "example_env =
     \<lparr>cenv_log = \<lparr>env_time_text = (\<lambda>fmt t. ''now''), env_open_ok = (\<lambda>n fn. True),
        env_write_ok = (\<lambda>n fn. True), env_close_ok = (\<lambda>n fn. True),
        env_taken = (\<lambda>n fn. 0), env_written = (\<lambda>n fn. 0), env_clock = (\<lambda>n. 7), env_thread_id = 1, env_fiber_id = 0,
        env_thread_name = ''main'', env_file = ''config.h''\<rparr>,
      cenv_class = (\<lambda>_. nat_class),
      cenv_run = (\<lambda>cb v old s. Ok () (cfg_print s (dec_nat cb @ '': '' @ dec_nat old @ '' -> '' @ dec_nat v)))\<rparr>"

lemma example_env_ok: "classes_ok example_env" "listeners_ok thr example_env"
proof -
  show "classes_ok example_env"
    by (auto simp: classes_ok_def example_env_def nat_class_def nat_from_string_def split: if_splits)
  show "listeners_ok thr example_env"
    by (simp add: listeners_ok_def example_env_def log_ready_print)
qed

text \<open>A name with an upper-case letter is refused; the port registered first is found again.\<close>

theorem LookUp_outcome_witness:
  "(\<exists>t. Config_LookUp example_env 0 ''Port'' 80 [] example_config =
      Throw (InvalidArgument ''Port'') t) \<and>
   (\<exists>t. Config_LookUp example_env 0 ''port'' 80 [] example_config = Ok (Some 0) t)"
  using LookUp_outcome [OF example_config_inv, where typing = "\<lambda>_. 0" and name = "''Port''" and T = 0
      and env = example_env and d = 80 and desc = "[]"]
    LookUp_outcome [OF example_config_inv, where typing = "\<lambda>_. 0" and name = "''port''" and T = 0
      and env = example_env and d = 80 and desc = "[]"]
  by (auto simp: example_config_def example_log_def name_ok_def has_char_not_of_def lookup_chars_def)

text \<open>
  The first \<open>LookUp\<close> of a free name decides: whatever variables are looked up in between, with
  whatever defaults, a later \<open>LookUp\<close> returns the variable that the first one created, and it
  still has the first default value.
\<close>

theorem LookUp_keeps_first:
  assumes inv: "config_inv typing s" and ok: "name_ok name" and free: "cfg_datas s name = None"
    and names: "list_all name_ok names"
  shows "\<exists>a t u v. Config_LookUp env (typing name) name d [] s = Ok (Some a) t \<and>
    for_each (\<lambda>n s. and_then (Config_LookUp env (typing n) n (dflt n) [] s) (\<lambda>_ s. Ok () s)) names t = Ok () u \<and>
    Config_LookUp env (typing name) name d' [] u = Ok (Some a) v \<and>
    cv_val (cfg_vars v ! a) = d"
proof -
  let ?dflt = "dflt(name := d)" and ?get = "config_get env typing (dflt(name := d)) name s"
  let ?t = "snd ?get" and ?a = "length (cfg_vars s)"
  let ?u = "vars_registry.get_all env typing dflt names ?t"
  have get: "?get = (?a, s\<lparr>cfg_vars := cfg_vars s @ [new_ConfigVar (typing name) name d []],
      cfg_datas := (cfg_datas s)(name \<mapsto> ?a)\<rparr>)"
    by (simp add: config_get_fresh [OF inv free ok])
  have t: "Config_LookUp env (typing name) name d [] s = Ok (Some ?a) ?t"
    using LookUp_is_get [OF inv ok, of env ?dflt] get by simp
  have inv_t: "config_inv typing ?t" using inv ok by (rule config_inv_get)
  have a: "?a < length (cfg_vars ?t)" "cfg_vars ?t ! ?a = new_ConfigVar (typing name) name d []"
    by (simp_all add: get)
  note u = LookUps_are_get_all [OF inv_t names, of env dflt]
  have "cfg_datas ?u name = Some ?a"
    using vars_registry.get_all_kept [OF inv_t names, of name ?a env dflt] get by simp
  from LookUp_found [OF conjunct1 [OF conjunct2 [OF u]] this, of env d' "[]"]
  obtain v where "Config_LookUp env (typing name) name d' [] ?u = Ok (Some ?a) v" "log_step ?u v"
    by blast
  with t u a show ?thesis by (auto simp: log_step_fields new_ConfigVar_def)
qed

theorem LookUp_keeps_first_witness:
  "\<exists>a t u v. Config_LookUp example_env 0 ''port'' 80 [] example_config = Ok (Some a) t \<and>
    for_each (\<lambda>n s. and_then (Config_LookUp example_env 0 n 1 [] s) (\<lambda>_ s. Ok () s))
      [''host'', ''port''] t = Ok () u \<and>
    Config_LookUp example_env 0 ''port'' 8080 [] u = Ok (Some a) v \<and> cv_val (cfg_vars v ! a) = 80"
proof -
  have "name_ok ''port''" "list_all name_ok [''host'', ''port'']"
    by (simp_all add: name_ok_def has_char_not_of_def lookup_chars_def)
  from LookUp_keeps_first [OF example_config_inv [of "\<lambda>_. 0"] this(1) _ this(2),
      where d = 80 and env = example_env and dflt = "\<lambda>_. 1" and d' = 8080]
  show ?thesis by (simp add: example_config_def example_log_def)
qed

section \<open>Listeners\<close>



text \<open>Two listeners, and what they print.\<close>

definition watched_config :: "nat config_sys" where
  "watched_config =
     example_config\<lparr>cfg_vars := [(new_ConfigVar 0 ''port'' 80 [])\<lparr>cv_cbs := [(1, 5), (2, 6)]\<rparr>],
       cfg_datas := [''port'' \<mapsto> 0]\<rparr>"


text \<open>
  The ids of the listeners of a type never repeat while the counter has not wrapped around:
  \<open>ids_bounded\<close> says that no listener has an id above the counter of its type.
\<close>

definition ids_bounded :: "'v config_sys \<Rightarrow> bool" where
  "ids_bounded s \<longleftrightarrow>
     list_all (\<lambda>cv. map_sorted u64_lt (cv_cbs cv) \<and>
       (\<forall>i \<in> map_keys (cv_cbs cv). i \<le> cfg_fun_ids s (cv_type cv))) (cfg_vars s)"

text \<open>
  C25: Adding a listener returns an id that no listener of any variable of the type has, and puts the
  listener behind the others; deleting that id gives back the listeners there were. Only at
  \<open>2 ^ 64 - 1\<close> additions does the counter start again.
\<close>

theorem AddListener_DelListener:
  assumes "ids_bounded s" and a: "a < length (cfg_vars s)" and free: "cv_readers (cfg_vars s ! a) = 0"
    and max: "cfg_fun_ids s (cv_type (cfg_vars s ! a)) \<noteq> - 1"
  shows "\<exists>fid t u. ConfigVar_AddListener a cb s = Ok fid t \<and>
    cv_cbs (cfg_vars t ! a) = cv_cbs (cfg_vars s ! a) @ [(fid, cb)] \<and>
    list_all (\<lambda>cv. cv_type cv = cv_type (cfg_vars s ! a) \<longrightarrow> fid \<notin> map_keys (cv_cbs cv)) (cfg_vars s) \<and>
    ids_bounded t \<and>
    ConfigVar_DelListener a fid t = Ok () u \<and> cfg_vars u = cfg_vars s"
proof -
  let ?T = "cv_type (cfg_vars s ! a)" and ?cbs = "cv_cbs (cfg_vars s ! a)"
  let ?fid = "cfg_fun_ids s ?T + 1"
  have above: "i < ?fid" if "i \<le> cfg_fun_ids s ?T" for i
  proof -
    have "1 + cfg_fun_ids s ?T \<noteq> 0" using max by (metis add.commute add_eq_0_iff)
    then have "unat ?fid = Suc (unat (cfg_fun_ids s ?T))" by (simp add: unatSuc add.commute)
    with that show ?thesis by (simp add: word_less_nat_alt word_le_nat_alt)
  qed
  have sorted: "map_sorted u64_lt ?cbs" and below: "\<And>i. i \<in> map_keys ?cbs \<Longrightarrow> u64_lt i ?fid"
    using assms(1) a above by (auto simp: ids_bounded_def list_all_length u64_lt_def)
  have set: "map_set u64_lt ?fid cb ?cbs = ?cbs @ [(?fid, cb)]"
    using below by (rule u64_order.map_set_above)
  let ?t = "update_var a (\<lambda>cv. cv\<lparr>cv_cbs := ?cbs @ [(?fid, cb)]\<rparr>)
    (s\<lparr>cfg_fun_ids := (cfg_fun_ids s)(?T := ?fid)\<rparr>)"
  have add: "ConfigVar_AddListener a cb s = Ok ?fid ?t"
    using a free by (simp add: ConfigVar_AddListener_def with_wrlock_def Let_def set update_var_def)
  have "map_erase u64_lt ?fid (?cbs @ [(?fid, cb)]) = ?cbs"
    using below by (rule u64_order.map_erase_last)
  then have del: "ConfigVar_DelListener a ?fid ?t =
      Ok () (s\<lparr>cfg_fun_ids := (cfg_fun_ids s)(?T := ?fid)\<rparr>)"
    using a free by (simp add: ConfigVar_DelListener_def with_wrlock_def update_var_def)
  have new: "fid_new \<notin> map_keys (cv_cbs cv)"
    if "cv \<in> set (cfg_vars s)" "cv_type cv = ?T" "fid_new = ?fid" for cv fid_new
    using assms(1) that above by (fastforce simp: ids_bounded_def list_all_iff)
  have "ids_bounded ?t"
    unfolding ids_bounded_def list_all_length
  proof (intro allI impI)
    fix b
    assume b: "b < length (cfg_vars ?t)"
    then have "map_sorted u64_lt (cv_cbs (cfg_vars s ! b))"
        "\<forall>i \<in> map_keys (cv_cbs (cfg_vars s ! b)). i \<le> cfg_fun_ids s (cv_type (cfg_vars s ! b))"
      using assms(1) by (auto simp: ids_bounded_def list_all_length cfg_simps)
    with b a below above show "map_sorted u64_lt (cv_cbs (cfg_vars ?t ! b)) \<and>
        (\<forall>i \<in> map_keys (cv_cbs (cfg_vars ?t ! b)). i \<le> cfg_fun_ids ?t (cv_type (cfg_vars ?t ! b)))"
      by (auto simp: cfg_simps map_sorted_append order_less_imp_le)
  qed
  with add del a new show ?thesis by (auto simp: cfg_simps list_all_iff)
qed

theorem AddListener_DelListener_witness:
  "\<exists>fid t u. ConfigVar_AddListener 0 9 (watched_config\<lparr>cfg_fun_ids := (\<lambda>_. 4)\<rparr>) = Ok fid t \<and>
    cv_cbs (cfg_vars t ! 0) = [(1, 5), (2, 6), (fid, 9)] \<and> ConfigVar_DelListener 0 fid t = Ok () u \<and>
    cfg_vars u = cfg_vars watched_config"
proof -
  let ?s = "watched_config\<lparr>cfg_fun_ids := (\<lambda>_. 4)\<rparr>"
  have "ids_bounded ?s" "0 < length (cfg_vars ?s)" "cv_readers (cfg_vars ?s ! 0) = 0"
    "cfg_fun_ids ?s (cv_type (cfg_vars ?s ! 0)) \<noteq> - 1"
    by (simp_all add: ids_bounded_def watched_config_def new_ConfigVar_def u64_lt_def)
  from AddListener_DelListener [OF this, of 9] show ?thesis
    by (auto simp: watched_config_def new_ConfigVar_def)
qed

lemma wrlock_deadlock:
  "a < length (cfg_vars s) \<Longrightarrow> 0 < cv_readers (cfg_vars s ! a) \<Longrightarrow> with_wrlock a f s = Crash Deadlock"
  by (simp add: with_wrlock_def)

text \<open>Code that returns and leaves the lock of the variable as it was.\<close>

definition returns_locked :: "nat \<Rightarrow> ('v config_sys \<Rightarrow> (unit, 'v config_sys) result) \<Rightarrow> bool" where
  "returns_locked a f \<longleftrightarrow>
     (\<forall>t. log_ready (cfg_log t) \<and> a < length (cfg_vars t) \<longrightarrow>
       (\<exists>u. f t = Ok () u \<and> log_ready (cfg_log u) \<and> a < length (cfg_vars u) \<and>
         cv_readers (cfg_vars u ! a) = cv_readers (cfg_vars t ! a)))"

lemma for_each_returns_locked:
  "\<forall>x \<in> set xs. returns_locked a (f x) \<Longrightarrow> returns_locked a (for_each f xs)"
proof (induction xs)
  case Nil
  then show ?case by (simp add: returns_locked_def)
next
  case (Cons x xs)
  then have x: "returns_locked a (f x)" and xs: "returns_locked a (for_each f xs)" by simp_all
  show ?case
    unfolding returns_locked_def
  proof (intro allI impI)
    fix t :: "'b config_sys"
    assume t: "log_ready (cfg_log t) \<and> a < length (cfg_vars t)"
    with x obtain u where u: "f x t = Ok () u" "log_ready (cfg_log u) \<and> a < length (cfg_vars u)"
      "cv_readers (cfg_vars u ! a) = cv_readers (cfg_vars t ! a)" unfolding returns_locked_def by blast
    with xs obtain v where "for_each f xs u = Ok () v" "log_ready (cfg_log v)" "a < length (cfg_vars v)"
      "cv_readers (cfg_vars v ! a) = cv_readers (cfg_vars u ! a)" unfolding returns_locked_def by blast
    with u show "\<exists>u. for_each f (x # xs) t = Ok () u \<and> log_ready (cfg_log u) \<and> a < length (cfg_vars u) \<and>
        cv_readers (cfg_vars u ! a) = cv_readers (cfg_vars t ! a)" by simp
  qed
qed

text \<open>
  C26: A listener, at any place among those of its variable, that deletes itself or any other listener
  of the variable, adds one or clears them never returns: \<open>SetValue\<close> runs the listeners under the
  read lock of the variable, and those calls wait for the write lock. The listener may do anything
  before that call that returns and leaves the lock of the variable alone, and anything after it;
  so may the listeners in front of it.
\<close>

theorem listener_changing_listeners_deadlocks:
  assumes a: "a < length (cfg_vars s)" and ready: "log_ready (cfg_log s)"
    and cbs: "cv_cbs (cfg_vars s ! a) = pre @ (fid, cb) # rest"
    and new: "\<not> cls_eq (cenv_class env (cv_type (cfg_vars s ! a))) (cv_val (cfg_vars s ! a)) v"
    and pre: "\<forall>(i, c) \<in> set pre. returns_locked a (cenv_run env c v (cv_val (cfg_vars s ! a)))"
    and before: "returns_locked a before"
    and body: "cenv_run env cb v (cv_val (cfg_vars s ! a)) = (\<lambda>t. and_then (before t) (\<lambda>_. change))"
    and change: "change \<in> {\<lambda>u. and_then (ConfigVar_DelListener a fid' u) after,
      \<lambda>u. and_then (ConfigVar_ClearListener a u) after, \<lambda>u. and_then (ConfigVar_AddListener a cb' u) after'}"
  shows "ConfigVar_SetValue env a v s = Crash Deadlock"
proof -
  let ?run = "\<lambda>(i, c). cenv_run env c v (cv_val (cfg_vars s ! a))"
  have "log_ready (cfg_log (var_rdlock a s)) \<and> a < length (cfg_vars (var_rdlock a s))"
    and held: "0 < cv_readers (cfg_vars (var_rdlock a s) ! a)"
    using a ready by (simp_all add: var_rdlock_def cfg_simps)
  moreover have "returns_locked a (for_each ?run pre)" using pre by (intro for_each_returns_locked) auto
  ultimately obtain t where t: "for_each ?run pre (var_rdlock a s) = Ok () t"
    "log_ready (cfg_log t) \<and> a < length (cfg_vars t)" "0 < cv_readers (cfg_vars t ! a)"
    unfolding returns_locked_def by (metis (no_types, lifting))
  with before obtain u where u: "before t = Ok () u" "a < length (cfg_vars u)" "0 < cv_readers (cfg_vars u ! a)"
    unfolding returns_locked_def by (metis (no_types, lifting))
  then have "change u = Crash Deadlock"
    using change by (auto simp: ConfigVar_DelListener_def ConfigVar_ClearListener_def ConfigVar_AddListener_def
        wrlock_deadlock)
  with u have "?run (fid, cb) t = Crash Deadlock" by (simp add: body)
  then have "for_each ?run (pre @ (fid, cb) # rest) (var_rdlock a s) = Crash Deadlock"
    by (simp add: for_each_append t(1))
  with a new show ?thesis by (simp add: ConfigVar_SetValue_def Let_def cbs)
qed

text \<open>The second of two listeners logs a line and deletes itself.\<close>

definition self_deleting_env :: "nat config_env" where
  "self_deleting_env = example_env\<lparr>cenv_run := (\<lambda>cb v old t.
     if cb = 6 then and_then (log_root example_env INFO 1 ''bye'' t) (\<lambda>_ u. and_then (ConfigVar_DelListener 0 2 u) (\<lambda>_. Ok ()))
     else Ok () t)\<rparr>"

theorem listener_changing_listeners_deadlocks_witness:
  "ConfigVar_SetValue self_deleting_env 0 81 watched_config = Crash Deadlock"
proof (rule listener_changing_listeners_deadlocks [where pre = "[(1, 5)]" and fid = 2 and cb = 6 and rest = "[]"
      and before = "log_root example_env INFO 1 ''bye''"
      and change = "\<lambda>u. and_then (ConfigVar_DelListener 0 2 u) (\<lambda>_. Ok ())" and fid' = 2
      and after = "\<lambda>_. Ok ()" and cb' = 0 and after' = "\<lambda>_. Ok ()"])
  show "returns_locked 0 (log_root example_env INFO 1 ''bye'')"
    unfolding returns_locked_def
  proof (intro allI impI, elim conjE)
    fix t :: "nat config_sys"
    assume t: "log_ready (cfg_log t)" "0 < length (cfg_vars t)"
    from log_root_returns [OF t(1)] obtain u where u: "log_root example_env INFO 1 ''bye'' t = Ok () u" "log_step t u"
      by blast
    with t log_step_ready [OF u(2)] log_step_fields [OF u(2)]
    show "\<exists>u. log_root example_env INFO 1 ''bye'' t = Ok () u \<and> log_ready (cfg_log u) \<and> 0 < length (cfg_vars u) \<and>
        cv_readers (cfg_vars u ! 0) = cv_readers (cfg_vars t ! 0)" by auto
  qed
qed (auto simp: watched_config_def new_ConfigVar_def example_env_def nat_class_def returns_locked_def self_deleting_env_def
    fun_eq_iff example_ready(1))

section \<open>Assignment from text\<close>

text \<open>
  C27: \<open>FromString\<close> never lets a standard exception out, whether the cast throws it or a listener
  does, and it is all or nothing: it returns \<open>true\<close> and the variable has the value that the text
  stands for, or it returns \<open>false\<close> and no variable has changed. With listeners that do not throw
  it returns \<open>false\<close> only if the text has no value of the type.
\<close>

theorem FromString_all_or_nothing:
  assumes "listeners_ok thr env" and "classes_ok env" and "log_ready (cfg_log s)"
    and "a < length (cfg_vars s)" and "cv_readers (cfg_vars s ! a) = 0"
  shows "\<exists>ok t. ConfigVar_FromString env a val s = Ok ok t \<and> log_ready (cfg_log t) \<and>
    (if ok
     then \<exists>v. snd (cls_from (cenv_class env (cv_type (cfg_vars s ! a))) val) = Inr v \<and>
       cfg_vars t = (cfg_vars s)[a := (cfg_vars s ! a)\<lparr>cv_val := v\<rparr>]
     else cfg_vars t = cfg_vars s \<and>
       (thr \<or> isl (snd (cls_from (cenv_class env (cv_type (cfg_vars s ! a))) val))))"
proof (rule FromString_cases [OF assms, where val = val])
  fix v t
  assume st: "snd (cls_from (cenv_class env (cv_type (cfg_vars s ! a))) val) = Inr v"
    "ConfigVar_FromString env a val s = Ok True t"
    "log_changed (update_var a (\<lambda>cv. cv\<lparr>cv_val := v\<rparr>) s) t"
  then show ?thesis
    using log_changed_fields(1,6) [OF st(3)] by (intro exI [of _ True] exI [of _ t]) (simp add: update_var_def)
next
  fix t
  assume st: "thr \<or> isl (snd (cls_from (cenv_class env (cv_type (cfg_vars s ! a))) val))"
    "ConfigVar_FromString env a val s = Ok False t" "log_changed s t"
  then show ?thesis
    using log_changed_fields(1,6) [OF st(3)] by (intro exI [of _ False] exI [of _ t]) simp
qed

definition picky_env :: "nat config_env" where
  "picky_env = example_env\<lparr>cenv_run := (\<lambda>cb v old s. Throw (LogicError ''no'') s)\<rparr>"

text \<open>With listeners that throw, and with a text that is no number.\<close>

theorem FromString_all_or_nothing_witness:
  "(\<exists>ok t. ConfigVar_FromString picky_env 0 ''81'' watched_config = Ok ok t \<and> log_ready (cfg_log t)) \<and>
   (\<exists>t. ConfigVar_FromString example_env 0 ''x'' watched_config = Ok False t \<and>
      cfg_vars t = cfg_vars watched_config)"
proof -
  have picky: "listeners_ok True picky_env" "classes_ok picky_env"
    using example_env_ok(1)
    by (simp_all add: listeners_ok_def picky_env_def log_changed_refl classes_ok_def)
  have ready: "log_ready (cfg_log watched_config)"
    using example_config_inv [of "\<lambda>_. 0"]
    by (simp add: config_inv_def watched_config_def) (simp add: example_config_def example_log_def)
  have var: "0 < length (cfg_vars watched_config)" "cv_readers (cfg_vars watched_config ! 0) = 0"
    by (simp_all add: watched_config_def new_ConfigVar_def)
  have x: "isl (snd (cls_from (cenv_class example_env T) ''x''))" for T
    by (simp add: example_env_def nat_class_def nat_from_string_def)
  have "\<exists>t. ConfigVar_FromString example_env 0 ''x'' watched_config = Ok False t \<and>
      cfg_vars t = cfg_vars watched_config"
    using FromString_all_or_nothing [OF example_env_ok(2) [of False] example_env_ok(1) ready var, where val = "''x''"]
      x [of "cv_type (cfg_vars watched_config ! 0)"]
    by (auto split: if_splits)
  with FromString_all_or_nothing [OF picky ready var, of "''81''"] show ?thesis by blast
qed

section \<open>Loading a document\<close>

text \<open>
  C28: \<open>ListAllMember\<close> returns for every document whose maps are nested less deep than the stack, and
  appends the members of the document under their dotted paths, in document order; it skips the
  subtree of a key with a character that is not allowed, which it logs, and goes on with the rest.
\<close>

theorem ListAllMember_lists_dotted_paths:
  assumes "depth_ok lib d node" and "d \<le> fuel" and "log_ready (cfg_log s)" and "system_registered s"
  shows "\<exists>t. ListAllMember env lib fuel p node (out, s) = Ok () (out @ dotted lib d p node, t) \<and>
    log_step s t"
  using ListAllMember_dotted [of lib fuel node s env p out] depth_ok_mono [OF assms(1,2), of p] assms(3,4)
  by simp

definition example_document :: tree where
  "example_document =
     Map [(Scalar ''port'', Scalar ''81''), (Scalar ''Bad'', Map [(Scalar ''port'', Scalar ''1'')]),
          (Scalar ''sys'', Map [(Scalar ''port'', Scalar ''82''), (Scalar ''hosts'', Seq [Scalar ''a''])])]"

lemma example_dotted:
  "depth_ok tree_lib 3 example_document"
  "dotted tree_lib 3 [] example_document =
     [([], example_document), (''port'', Scalar ''81''),
      (''sys'', Map [(Scalar ''port'', Scalar ''82''), (Scalar ''hosts'', Seq [Scalar ''a''])]),
      (''sys.port'', Scalar ''82''), (''sys.hosts'', Seq [Scalar ''a''])]"
  by code_simp+

theorem ListAllMember_lists_dotted_paths_witness:
  "\<exists>t. ListAllMember example_env tree_lib 1000 [] example_document ([], example_config) =
    Ok () ([([], example_document), (''port'', Scalar ''81''),
      (''sys'', Map [(Scalar ''port'', Scalar ''82''), (Scalar ''hosts'', Seq [Scalar ''a''])]),
      (''sys.port'', Scalar ''82''), (''sys.hosts'', Seq [Scalar ''a''])], t) \<and>
    log_step example_config t"
  using ListAllMember_lists_dotted_paths [OF example_dotted(1) _ example_ready, of 1000 example_env "[]" "[]"]
  by (simp add: example_dotted(2))




end
