(* ===== verification/Log_Config.thy ===== *)
theory Log_Config
  imports Log_Facts Yaml_Casts
begin

text \<open>
  The configuration of the logging system (\<open>src/src/log.cpp\<close>): \<open>LogDefine\<close> and
  \<open>LogAppenderDefine\<close>, their casts from and to yaml text, and the listener of the variable
  \<open>logs\<close> that rebuilds the loggers when the definitions change.
\<close>

section \<open>Definitions of loggers\<close>

record log_appender_define =
  lad_type :: "32 word"
  lad_level :: level
  lad_formatter :: string
  lad_file :: string

record log_define =
  ld_name :: string
  ld_level :: level
  ld_formatter :: string
  ld_appenders :: "log_appender_define list"

definition LogAppenderDefine_eq :: "log_appender_define \<Rightarrow> log_appender_define \<Rightarrow> bool" where
  "LogAppenderDefine_eq a b \<longleftrightarrow>
     lad_type a = lad_type b \<and> lad_level a = lad_level b \<and> lad_formatter a = lad_formatter b \<and>
     lad_file a = lad_file b"

definition LogDefine_eq :: "log_define \<Rightarrow> log_define \<Rightarrow> bool" where
  "LogDefine_eq a b \<longleftrightarrow>
     ld_name a = ld_name b \<and> ld_level a = ld_level b \<and> ld_formatter a = ld_formatter b \<and>
     list_all2 LogAppenderDefine_eq (ld_appenders a) (ld_appenders b)"

definition LogDefine_lt :: "log_define \<Rightarrow> log_define \<Rightarrow> bool" where
  "LogDefine_lt a b = string_lt (ld_name a) (ld_name b)"

interpretation log_define_order: strict_weak_order LogDefine_lt
  by unfold_locales (auto simp: LogDefine_lt_def string_lt_def)

lemma LogAppenderDefine_eq_iff: "LogAppenderDefine_eq a b \<longleftrightarrow> a = b"
  by (auto simp: LogAppenderDefine_eq_def intro: log_appender_define.equality)

lemma LogDefine_eq_iff: "LogDefine_eq a b \<longleftrightarrow> a = b"
proof -
  have "LogAppenderDefine_eq = (=)" by (intro ext) (rule LogAppenderDefine_eq_iff)
  then show ?thesis
    by (auto simp: LogDefine_eq_def list.rel_eq intro: log_define.equality)
qed

section \<open>Casts\<close>

text \<open>\<open>node[key].IsDefined() ? node[key].as<std::string>() : dflt\<close>\<close>

definition key_or :: "'n yaml_lib \<Rightarrow> 'n \<Rightarrow> string \<Rightarrow> string \<Rightarrow> string cast" where
  "key_or lib node key dflt =
     cast_bind ([], y_key lib node key)
       (\<lambda>found. case found of None \<Rightarrow> ([], Inr dflt) | Some n \<Rightarrow> ([], y_as_string lib n))"

definition new_lad :: log_appender_define where
  "new_lad = \<lparr>lad_type = 0, lad_level = UNKONW, lad_formatter = [], lad_file = []\<rparr>"

text \<open>The body of the loop over the appenders; \<open>None\<close> is its \<open>continue\<close>.\<close>

definition skip_appender :: "'n yaml_lib \<Rightarrow> 'n \<Rightarrow> string \<Rightarrow> log_appender_define option cast" where
  "skip_appender lib a msg =
     (''log config error: appender '' @ msg @ '', '' @ y_emit lib a @ [CHR 0x0A], Inr None)"

definition appender_from_node :: "'n yaml_lib \<Rightarrow> 'n \<Rightarrow> log_appender_define option cast" where
  "appender_from_node lib a =
     cast_bind ([], y_key lib a ''type'')
       (\<lambda>t. case t of
          None \<Rightarrow> skip_appender lib a ''type is null''
        | Some t \<Rightarrow>
            cast_bind ([], y_as_string lib t)
              (\<lambda>type.
                 if type = ''FileLogAppender'' then
                   cast_bind ([], y_key lib a ''file'')
                     (\<lambda>f. case f of
                        None \<Rightarrow> skip_appender lib a ''file is null''
                      | Some f \<Rightarrow>
                          cast_bind ([], y_as_string lib f)
                            (\<lambda>file. cast_bind (key_or lib a ''formatter'' file)
                               (\<lambda>file. ([], Inr (Some (new_lad\<lparr>lad_type := 1, lad_file := file\<rparr>))))))
                 else if type = ''StdoutLogAppender'' then
                   cast_bind (key_or lib a ''formatter'' [])
                     (\<lambda>file. ([], Inr (Some (new_lad\<lparr>lad_type := 2, lad_file := file\<rparr>))))
                 else skip_appender lib a ''type is invalid''))"

definition LogDefine_from_string :: "'n yaml_lib \<Rightarrow> string \<Rightarrow> log_define cast" where
  "LogDefine_from_string lib v =
     cast_bind (yaml_load lib v)
       (\<lambda>node. cast_bind ([], y_key lib node ''name'')
          (\<lambda>nm. case nm of
             None \<Rightarrow>
               (''log config error: name is null, '' @ y_emit lib node @ [CHR 0x0A],
                Inl (LogicError ''log config name is null''))
           | Some nm \<Rightarrow>
               cast_bind ([], y_as_string lib nm)
                 (\<lambda>name. cast_bind (key_or lib node ''level'' [])
                    (\<lambda>lvl. cast_bind (key_or lib node ''formatter'' [])
                       (\<lambda>fmt. cast_bind ([], y_key lib node ''appenders'')
                          (\<lambda>aps. cast_bind
                             (case aps of
                                None \<Rightarrow> ([], Inr [])
                              | Some aps \<Rightarrow>
                                  cast_loop
                                    (\<lambda>i acc. cast_bind (appender_from_node lib (y_at lib aps i))
                                       (\<lambda>lad. ([], Inr (case lad of None \<Rightarrow> acc | Some lad \<Rightarrow> acc @ [lad]))))
                                    [0..<y_size lib aps] [])
                             (\<lambda>lads. ([], Inr \<lparr>ld_name = name, ld_level = LogLevel_FromString lvl,
                                              ld_formatter = fmt, ld_appenders = lads\<rparr>))))))))"

text \<open>\<open>if(v.level != UNKONW) node["level"] = ...; if(!v.formatter.empty()) node["formatter"] = ...\<close>\<close>

definition set_level_formatter :: "'n yaml_lib \<Rightarrow> log_define \<Rightarrow> 'n \<Rightarrow> 'n" where
  "set_level_formatter lib v node =
     (let node1 = (if ld_level v \<noteq> UNKONW
                   then y_set lib node ''level'' (y_text lib (LogLevel_ToString (ld_level v))) else node)
      in if ld_formatter v \<noteq> [] then y_set lib node1 ''formatter'' (y_text lib (ld_formatter v)) else node1)"

definition appender_to_node :: "'n yaml_lib \<Rightarrow> log_appender_define \<Rightarrow> 'n" where
  "appender_to_node lib i =
     (if lad_type i = 1 then
        y_set lib (y_set lib (y_new lib) ''type'' (y_text lib ''FileLogAppender''))
          ''file'' (y_text lib (lad_file i))
      else if lad_type i = 2 then y_set lib (y_new lib) ''type'' (y_text lib ''StdoutLogAppender'')
      else y_new lib)"

text \<open>\<open>node["appenders"].push_back(node_ap)\<close>: an undefined node becomes a sequence.\<close>

definition push_under :: "'n yaml_lib \<Rightarrow> string \<Rightarrow> 'n \<Rightarrow> 'n \<Rightarrow> 'n cast" where
  "push_under lib key x node =
     cast_bind ([], y_key lib node key)
       (\<lambda>found. ([], Inr (y_set lib node key
          (y_push lib (case found of None \<Rightarrow> y_new lib | Some n \<Rightarrow> n) x))))"

definition LogDefine_to_string :: "'n yaml_lib \<Rightarrow> log_define \<Rightarrow> string cast" where
  "LogDefine_to_string lib v =
     cast_bind
       (cast_loop
          (\<lambda>i node. push_under lib ''appenders'' (appender_to_node lib i) (set_level_formatter lib v node))
          (ld_appenders v)
          (set_level_formatter lib v (y_set lib (y_new lib) ''name'' (y_text lib (ld_name v)))))
       (\<lambda>node. ([], Inr (y_emit lib node)))"

section \<open>Dumping the loggers\<close>

text \<open>\<open>ToYamlString\<close> of the appenders, of a logger and of the manager.\<close>

definition StdoutLogAppender_ToYamlString :: "'n yaml_lib \<Rightarrow> log_appender \<Rightarrow> string" where
  "StdoutLogAppender_ToYamlString lib ap =
     (let node = y_set lib (y_new lib) ''name'' (y_text lib ''StdoutLogAppender'');
          node1 = (if ap_level ap \<noteq> UNKONW
                   then y_set lib node ''level'' (y_text lib (LogLevel_ToString (ap_level ap))) else node)
      in y_emit lib
           (case ap_formatter ap of
              Some f \<Rightarrow> if ap_has_formatter ap then y_set lib node1 ''formatter'' (y_text lib (fmt_pattern f)) else node1
            | None \<Rightarrow> node1))"

definition FileLogAppender_ToYamlString :: "'n yaml_lib \<Rightarrow> string \<Rightarrow> log_appender \<Rightarrow> string" where
  "FileLogAppender_ToYamlString lib filename ap =
     (let node = y_set lib (y_set lib (y_new lib) ''name'' (y_text lib ''FileLogAppender''))
            ''file'' (y_text lib filename);
          node1 = (if ap_level ap \<noteq> UNKONW
                   then y_set lib node ''level'' (y_text lib (LogLevel_ToString (ap_level ap))) else node)
      in y_emit lib
           (case ap_formatter ap of
              Some f \<Rightarrow> if ap_has_formatter ap then y_set lib node1 ''formatter'' (y_text lib (fmt_pattern f)) else node1
            | None \<Rightarrow> node1))"

text \<open>The virtual call \<open>i->ToYamlString()\<close>.\<close>

definition LogAppender_ToYamlString :: "'n yaml_lib \<Rightarrow> log_appender \<Rightarrow> string" where
  "LogAppender_ToYamlString lib ap =
     (case ap_class ap of
        StdoutLogAppender \<Rightarrow> StdoutLogAppender_ToYamlString lib ap
      | FileLogAppender fn st lt \<Rightarrow> FileLogAppender_ToYamlString lib fn ap)"

lemmas ToYamlString_defs =
  LogAppender_ToYamlString_def StdoutLogAppender_ToYamlString_def FileLogAppender_ToYamlString_def

definition Logger_ToYamlString :: "'n yaml_lib \<Rightarrow> nat \<Rightarrow> log_sys \<Rightarrow> (string, log_sys) result" where
  "Logger_ToYamlString lib l s =
     (if length (loggers s) \<le> l then Crash NullDeref
      else
        let lg = loggers s ! l;
            node = y_set lib (y_new lib) ''name'' (y_text lib (lg_name lg));
            node1 = (if lg_level lg \<noteq> UNKONW
                     then y_set lib node ''level'' (y_text lib (LogLevel_ToString (lg_level lg))) else node)
        in (case lg_formatter lg of
              None \<Rightarrow> Crash NullDeref
            | Some f \<Rightarrow>
                (case cast_loop
                        (\<lambda>a node. cast_bind (yaml_load lib (LogAppender_ToYamlString lib (appenders s ! a)))
                           (\<lambda>n. push_under lib ''appenders'' n node))
                        (lg_appenders lg)
                        (y_set lib node1 ''formatter'' (y_text lib (fmt_pattern f))) of
                   (out, Inl e) \<Rightarrow> Throw e s
                 | (out, Inr node) \<Rightarrow> Ok (y_emit lib node) s)))"

fun push_loggers :: "'n yaml_lib \<Rightarrow> nat list \<Rightarrow> 'n \<Rightarrow> log_sys \<Rightarrow> ('n, log_sys) result" where
  "push_loggers lib [] node s = Ok node s"
| "push_loggers lib (l # ls) node s =
     and_then (Logger_ToYamlString lib l s)
       (\<lambda>str s1. case y_load lib str of
          Inl e \<Rightarrow> Throw e s1
        | Inr n \<Rightarrow> push_loggers lib ls (y_push lib node n) s1)"

definition LoggerManager_ToYamlString :: "'n yaml_lib \<Rightarrow> log_sys \<Rightarrow> (string, log_sys) result" where
  "LoggerManager_ToYamlString lib s =
     and_then (push_loggers lib (map snd (mgr_loggers s)) (y_new lib) s)
       (\<lambda>node s1. Ok (y_emit lib node) s1)"

section \<open>The listener\<close>

text \<open>The body of the loop over the appenders of a definition.\<close>

definition install_appender ::
  "log_env \<Rightarrow> string \<Rightarrow> nat \<Rightarrow> log_appender_define \<Rightarrow> log_sys \<Rightarrow> (unit, log_sys) result"
where
  "install_appender env name l a s =
     (if lad_type a \<noteq> 1 \<and> lad_type a \<noteq> 2 then Ok () s
      else
        let (ap, s1) =
              (if lad_type a = 1 then new_FileLogAppender env (lad_file a) s
               else alloc_appender new_StdoutLogAppender s);
            s2 = LogAppender_SetLevel ap (lad_level a) s1;
            s3 = (if lad_formatter a \<noteq> [] then
                    let fmt = new_LogFormatter (lad_formatter a) in
                    if \<not> fmt_error fmt then LogAppender_SetFormatter ap (Some fmt) s2
                    else print_cout s2 (''log.name='' @ name @ '' appender type='' @
                      dec_int (sint (lad_type a)) @ '' formatter='' @ lad_formatter a @
                      '' is invalid'' @ [CHR 0x0A])
                  else s2)
        in Logger_AddAppender l ap s3)"

definition install_define :: "log_env \<Rightarrow> log_define \<Rightarrow> log_sys \<Rightarrow> (unit, log_sys) result" where
  "install_define env i s =
     (let (l, s1) = LoggerManager_GetLogger (ld_name i) s in
      and_then (Logger_SetLevel l (ld_level i) s1)
        (\<lambda>_ s2. and_then (if ld_formatter i \<noteq> [] then Logger_SetFormatter l (ld_formatter i) s2 else Ok () s2)
           (\<lambda>_ s3. and_then (Logger_ClearAppender l s3)
              (\<lambda>_. for_each (install_appender env (ld_name i) l) (ld_appenders i)))))"

definition define_changed :: "log_define list \<Rightarrow> log_define \<Rightarrow> bool" where
  "define_changed old_val i =
     (case set_find LogDefine_lt i old_val of None \<Rightarrow> True | Some it \<Rightarrow> \<not> LogDefine_eq i it)"

definition remove_define :: "log_define \<Rightarrow> log_sys \<Rightarrow> (unit, log_sys) result" where
  "remove_define j s =
     (let (l, s1) = LoggerManager_GetLogger (ld_name j) s in
      and_then (Logger_SetLevel l UNKONW s1) (\<lambda>_. Logger_ClearAppender l))"

definition on_logs_changed ::
  "log_env \<Rightarrow> log_define list \<Rightarrow> log_define list \<Rightarrow> log_sys \<Rightarrow> (unit, log_sys) result"
where
  "on_logs_changed env new_val old_val s =
     and_then (ZCS_LEVEL env (mgr_root s) INFO 677 ''***** log config changed *****'' s)
       (\<lambda>_ s1. and_then
          (for_each (\<lambda>i s. if define_changed old_val i then install_define env i s else Ok () s) new_val s1)
          (\<lambda>_. for_each (\<lambda>j s. if set_find LogDefine_lt j new_val = None then remove_define j s else Ok () s)
             old_val))"

end
