(* ===== verification/Log_Config_Facts.thy ===== *)
theory Log_Config_Facts
  imports Log_Config
begin

text \<open>
  What the casts of logger definitions do on documents, and what the listener of the variable
  \<open>logs\<close> does to the logging system.
\<close>

section \<open>Casts\<close>

lemma y_set_map: "y_set lib (yaml_map lib n kvs) k v = yaml_map lib n (kvs @ [(k, v)])"
  by (simp add: yaml_map_def)

lemma y_push_seq: "y_push lib (yaml_seq lib ns) n = yaml_seq lib (ns @ [n])"
  by (simp add: yaml_seq_def)

lemma y_new_map: "y_new lib = yaml_map lib (y_new lib) []"
  by (simp add: yaml_map_def)

lemma laws_key: "yaml_laws lib \<Longrightarrow> y_key lib (yaml_map lib (y_new lib) kvs) k = Inr (map_of (rev kvs) k)"
  and laws_text: "yaml_laws lib \<Longrightarrow> y_as_string lib (y_text lib t) = Inr t"
  and laws_push: "yaml_laws lib \<Longrightarrow> y_push lib (y_new lib) n = yaml_seq lib [n]"
  and laws_load: "yaml_laws lib \<Longrightarrow> y_load lib (y_emit lib n) = Inr n"
  and laws_size: "yaml_laws lib \<Longrightarrow> y_size lib (yaml_seq lib ns) = length ns"
  and laws_at: "yaml_laws lib \<Longrightarrow> i < length ns \<Longrightarrow> y_at lib (yaml_seq lib ns) i = ns ! i"
  by (simp_all add: yaml_laws_def)

text \<open>The appenders that the cast from text can yield and the cast to text can show.\<close>

definition storable_appender :: "log_appender_define \<Rightarrow> bool" where
  "storable_appender i \<longleftrightarrow>
     lad_level i = UNKONW \<and> lad_formatter i = [] \<and>
     (lad_type i = 1 \<or> lad_type i = 2 \<and> lad_file i = [])"

lemma appender_roundtrip:
  assumes laws: "yaml_laws lib" and "storable_appender i"
  shows "appender_from_node lib (appender_to_node lib i) = ([], Inr (Some i))"
proof -
  let ?file = "[(''type'', y_text lib ''FileLogAppender''), (''file'', y_text lib (lad_file i))]"
  let ?stdout = "[(''type'', y_text lib ''StdoutLogAppender'')]"
  have node: "appender_to_node lib i = yaml_map lib (y_new lib) (if lad_type i = 1 then ?file else ?stdout)"
    using assms(2) by (auto simp: appender_to_node_def storable_appender_def yaml_map_def)
  have "i = new_lad\<lparr>lad_type := lad_type i, lad_file := lad_file i\<rparr>"
    using assms(2) by (intro log_appender_define.equality) (auto simp: storable_appender_def new_lad_def)
  then show ?thesis
    using assms(2) unfolding node
    by (cases "lad_type i = 1")
      (auto simp: appender_from_node_def key_or_def laws_key [OF laws] laws_text [OF laws]
        storable_appender_def split: if_splits)
qed

definition set_level_formatter_keys :: "'n yaml_lib \<Rightarrow> log_define \<Rightarrow> (string \<times> 'n) list" where
  "set_level_formatter_keys lib v =
     (if ld_level v \<noteq> UNKONW then [(''level'', y_text lib (LogLevel_ToString (ld_level v)))] else []) @
     (if ld_formatter v \<noteq> [] then [(''formatter'', y_text lib (ld_formatter v))] else [])"

lemma set_level_formatter_map:
  "set_level_formatter lib v (yaml_map lib n kvs) = yaml_map lib n (kvs @ set_level_formatter_keys lib v)"
  by (simp add: set_level_formatter_def set_level_formatter_keys_def y_set_map Let_def)

text \<open>What the keys of the node hold after the appenders \<open>as\<close> have been pushed.\<close>

definition define_node_keys ::
  "'n yaml_lib \<Rightarrow> log_define \<Rightarrow> log_appender_define list \<Rightarrow> string \<Rightarrow> 'n option"
where
  "define_node_keys lib v as k =
     (if k = ''name'' then Some (y_text lib (ld_name v))
      else if k = ''level'' \<and> ld_level v \<noteq> UNKONW then Some (y_text lib (LogLevel_ToString (ld_level v)))
      else if k = ''formatter'' \<and> ld_formatter v \<noteq> [] then Some (y_text lib (ld_formatter v))
      else if k = ''appenders'' \<and> as \<noteq> [] then Some (yaml_seq lib (map (appender_to_node lib) as))
      else None)"

lemma push_appenders:
  assumes laws: "yaml_laws lib" and "map_of (rev kvs) = define_node_keys lib v done_as"
  shows "\<exists>kvs'. cast_loop
      (\<lambda>i node. push_under lib ''appenders'' (appender_to_node lib i) (set_level_formatter lib v node))
      as (yaml_map lib (y_new lib) kvs) = ([], Inr (yaml_map lib (y_new lib) kvs')) \<and>
    map_of (rev kvs') = define_node_keys lib v (done_as @ as)"
  using assms(2)
proof (induction as arbitrary: kvs done_as)
  case (Cons a as)
  obtain K where node: "set_level_formatter lib v (yaml_map lib (y_new lib) kvs) = yaml_map lib (y_new lib) K"
    and keys: "map_of (rev K) = define_node_keys lib v done_as"
  proof
    show "set_level_formatter lib v (yaml_map lib (y_new lib) kvs) =
        yaml_map lib (y_new lib) (kvs @ set_level_formatter_keys lib v)"
      by (rule set_level_formatter_map)
    have "map_of (rev (kvs @ set_level_formatter_keys lib v)) k = define_node_keys lib v done_as k" for k
      by (auto simp: Cons.prems set_level_formatter_keys_def define_node_keys_def map_add_def)
    then show "map_of (rev (kvs @ set_level_formatter_keys lib v)) = define_node_keys lib v done_as" ..
  qed
  let ?x = "yaml_seq lib (map (appender_to_node lib) (done_as @ [a]))"
  have "y_push lib (case define_node_keys lib v done_as ''appenders'' of
      None \<Rightarrow> y_new lib | Some n \<Rightarrow> n) (appender_to_node lib a) = ?x"
    by (simp add: define_node_keys_def laws_push [OF laws] y_push_seq)
  then have "push_under lib ''appenders'' (appender_to_node lib a)
      (set_level_formatter lib v (yaml_map lib (y_new lib) kvs)) =
      ([], Inr (yaml_map lib (y_new lib) (K @ [(''appenders'', ?x)])))"
    by (simp add: push_under_def node laws_key [OF laws] keys y_set_map)
  moreover have "map_of (rev (K @ [(''appenders'', ?x)])) k = define_node_keys lib v (done_as @ [a]) k" for k
    using keys by (simp add: define_node_keys_def)
  ultimately show ?case
    using Cons.IH [of "K @ [(''appenders'', ?x)]" "done_as @ [a]"] by (simp add: ext)
qed auto

lemma FromString_empty: "LogLevel_FromString [] = UNKONW"
  by (simp add: LogLevel_FromString_def)

lemma LogDefine_casts_back:
  assumes laws: "yaml_laws lib" and ok: "\<forall>i \<in> set (ld_appenders v). storable_appender i"
  shows "casts_back lib (LogDefine_to_string lib) (LogDefine_from_string lib) v"
proof -
  let ?as = "ld_appenders v"
  let ?kvs = "(''name'', y_text lib (ld_name v)) # set_level_formatter_keys lib v"
  have "map_of (rev ?kvs) = define_node_keys lib v []"
    by (auto simp: set_level_formatter_keys_def define_node_keys_def fun_eq_iff)
  from push_appenders [OF laws this, of ?as] obtain kvs where
    loop: "cast_loop
      (\<lambda>i node. push_under lib ''appenders'' (appender_to_node lib i) (set_level_formatter lib v node))
      ?as (yaml_map lib (y_new lib) ?kvs) = ([], Inr (yaml_map lib (y_new lib) kvs))"
    and keys: "map_of (rev kvs) = define_node_keys lib v ?as" by auto
  have start: "set_level_formatter lib v (y_set lib (y_new lib) ''name'' (y_text lib (ld_name v))) =
      yaml_map lib (y_new lib) ?kvs"
    using set_level_formatter_map [of lib v "y_new lib" "[(''name'', y_text lib (ld_name v))]"]
    by (simp add: yaml_map_def)
  let ?node = "yaml_map lib (y_new lib) kvs"
  note key = laws_key [OF laws, of kvs, unfolded keys]
  have lads: "cast_loop
      (\<lambda>i acc. cast_bind (appender_from_node lib (y_at lib (yaml_seq lib (map (appender_to_node lib) ?as)) i))
         (\<lambda>lad. ([], Inr (case lad of None \<Rightarrow> acc | Some lad \<Rightarrow> acc @ [lad]))))
      [0..<length ?as] [] = ([], Inr ?as)"
  proof -
    have "cast_loop
      (\<lambda>i acc. cast_bind (appender_from_node lib (y_at lib (yaml_seq lib (map (appender_to_node lib) ?as)) i))
         (\<lambda>lad. ([], Inr (case lad of None \<Rightarrow> acc | Some lad \<Rightarrow> acc @ [lad]))))
      [0..<length ?as] [] = ([], Inr (fold (\<lambda>i acc. acc @ [?as ! i]) [0..<length ?as] []))"
      using ok by (intro cast_loop_returns) (simp add: laws_at [OF laws] appender_roundtrip [OF laws])
    then show ?thesis
      using fold_upt_nth [of "\<lambda>x vec. vec @ [x]" ?as "[]"] fold_push_back [of ?as "[]"] by simp
  qed
  show ?thesis
  proof (rule casts_back_emitted [OF laws])
    show "LogDefine_to_string lib v = ([], Inr (y_emit lib ?node))"
      by (simp add: LogDefine_to_string_def start loop)
    show "LogDefine_from_string lib (y_emit lib ?node) = ([], Inr v)"
      using lads
      by (cases "?as = []"; cases "ld_level v = UNKONW"; cases "ld_formatter v = []")
        (simp_all add: LogDefine_from_string_def yaml_load_def laws_load [OF laws] key key_or_def
          define_node_keys_def laws_text [OF laws] laws_size [OF laws] FromString_empty)
  qed
qed

section \<open>Dumped loggers\<close>

lemma push_all_under:
  assumes laws: "yaml_laws lib"
    and "map_of (rev kvs) key = (if ms = [] then None else Some (yaml_seq lib ms))"
  shows "\<exists>kvs'. cast_loop (push_under lib key) ns (yaml_map lib (y_new lib) kvs) =
      ([], Inr (yaml_map lib (y_new lib) kvs')) \<and>
    map_of (rev kvs') = (map_of (rev kvs))(key := if ms @ ns = [] then None else Some (yaml_seq lib (ms @ ns)))"
  using assms(2)
proof (induction ns arbitrary: kvs ms)
  case Nil
  then show ?case by (intro exI [of _ kvs]) (auto simp: fun_eq_iff)
next
  case (Cons n ns)
  let ?x = "yaml_seq lib (ms @ [n])"
  have "y_push lib (case map_of (rev kvs) key of None \<Rightarrow> y_new lib | Some n \<Rightarrow> n) n = ?x"
    by (simp add: Cons.prems laws_push [OF laws] y_push_seq)
  then have "push_under lib key n (yaml_map lib (y_new lib) kvs) =
      ([], Inr (yaml_map lib (y_new lib) (kvs @ [(key, ?x)])))"
    by (simp add: push_under_def laws_key [OF laws] y_set_map)
  then show ?case using Cons.IH [of "kvs @ [(key, ?x)]" "ms @ [n]"] by (simp cong: if_cong)
qed

lemma dumped_appender_has_no_type:
  assumes laws: "yaml_laws lib" and "y_load lib (LogAppender_ToYamlString lib ap) = Inr n"
  shows "y_key lib n ''type'' = Inr None"
proof -
  let ?start = "case ap_class ap of
      StdoutLogAppender \<Rightarrow> [(''name'', y_text lib ''StdoutLogAppender'')]
    | FileLogAppender fn st lt \<Rightarrow> [(''name'', y_text lib ''FileLogAppender''), (''file'', y_text lib fn)]"
  let ?level = "if ap_level ap \<noteq> UNKONW then [(''level'', y_text lib (LogLevel_ToString (ap_level ap)))] else []"
  let ?fmt = "case ap_formatter ap of
      Some f \<Rightarrow> if ap_has_formatter ap then [(''formatter'', y_text lib (fmt_pattern f))] else []
    | None \<Rightarrow> []"
  have "LogAppender_ToYamlString lib ap = y_emit lib (yaml_map lib (y_new lib) (?start @ ?level @ ?fmt))"
    by (simp add: ToYamlString_defs yaml_map_def Let_def split: appender_class.split option.split)
  with assms(2) have "n = yaml_map lib (y_new lib) (?start @ ?level @ ?fmt)"
    by (simp add: laws_load [OF laws])
  then show ?thesis
    by (simp add: laws_key [OF laws] map_add_def split: appender_class.split option.split)
qed

section \<open>Installing a definition\<close>

text \<open>\<open>realizes ap d f\<close>: the appender is what the definition \<open>d\<close> says, in a logger with formatter \<open>f\<close>.\<close>

definition realizes :: "log_appender \<Rightarrow> log_appender_define \<Rightarrow> log_formatter option \<Rightarrow> bool" where
  "realizes ap d f \<longleftrightarrow>
     ap_level ap = lad_level d \<and>
     (case ap_class ap of
        StdoutLogAppender \<Rightarrow> lad_type d = 2
      | FileLogAppender fn st lt \<Rightarrow> lad_type d = 1 \<and> fn = lad_file d) \<and>
     ap_formatter ap =
       (if lad_formatter d \<noteq> [] \<and> \<not> fmt_error (new_LogFormatter (lad_formatter d))
        then Some (new_LogFormatter (lad_formatter d)) else f)"

definition known_type :: "log_appender_define \<Rightarrow> bool" where
  "known_type d \<longleftrightarrow> lad_type d = 1 \<or> lad_type d = 2"

lemma alloc_defined:
  assumes "known_type d"
  obtains ap s1 n where
    "(if lad_type d = 1 then new_FileLogAppender env (lad_file d) s
      else alloc_appender new_StdoutLogAppender s) = (length (appenders s), s1)"
    "s1 = s\<lparr>appenders := appenders s @ [ap], ticks := n\<rparr>" "ap_has_formatter ap = False"
    "ap_formatter ap = None" "appender_ok ap"
    "case ap_class ap of
        StdoutLogAppender \<Rightarrow> lad_type d = 2
      | FileLogAppender fn st lt \<Rightarrow> lad_type d = 1 \<and> fn = lad_file d"
proof (cases "lad_type d = 1")
  case True
  let ?st = "ofstream_open (env_open_ok env (ticks s) (lad_file d))
    \<lparr>os_open = False, os_fail = True, os_buf = []\<rparr>"
  show thesis
    by (rule that [where ap = "\<lparr>ap_level = DEBUG, ap_has_formatter = False, ap_formatter = None,
            ap_class = FileLogAppender (lad_file d) ?st 0\<rparr>" and n = "Suc (ticks s)"])
      (simp_all add: True new_FileLogAppender_def alloc_appender_def FileLogAppender_Reopen_def
        Let_def update_appender_def appender_ok_def ofstream_open_ok_or_fail ofstream_close_def write_disk_def)
next
  case False
  with assms show thesis
    by (intro that [where ap = new_StdoutLogAppender and n = "ticks s"])
      (auto simp: known_type_def alloc_appender_def new_StdoutLogAppender_def appender_ok_def)
qed

lemma install_unknown: "\<not> known_type d \<Longrightarrow> install_appender env name l d s = Ok () s"
  by (simp add: install_appender_def known_type_def)

text \<open>
  Installing an appender allocates it, puts it behind the appenders of the logger, and leaves
  everything else in the store alone.
\<close>

lemma install_appender_result:
  assumes d: "known_type d" and wf: "wf_sys s" and l: "l < length (loggers s)"
  obtains ap t where "install_appender env name l d s = Ok () t" "wf_sys t"
    "appenders t = appenders s @ [ap]" "realizes ap d (lg_formatter (loggers s ! l))"
    "loggers t = (loggers s)[l := (loggers s ! l)\<lparr>lg_appenders := lg_appenders (loggers s ! l) @ [length (appenders s)]\<rparr>]"
    "mgr_root t = mgr_root s" "mgr_loggers t = mgr_loggers s"
proof -
  obtain ap0 s1 n where new: "(if lad_type d = 1 then new_FileLogAppender env (lad_file d) s
      else alloc_appender new_StdoutLogAppender s) = (length (appenders s), s1)"
    and s1: "s1 = s\<lparr>appenders := appenders s @ [ap0], ticks := n\<rparr>"
    and ap0: "ap_has_formatter ap0 = False" "ap_formatter ap0 = None" "appender_ok ap0"
    and cls: "case ap_class ap0 of
        StdoutLogAppender \<Rightarrow> lad_type d = 2
      | FileLogAppender fn st lt \<Rightarrow> lad_type d = 1 \<and> fn = lad_file d"
    using alloc_defined [OF d] by metis
  let ?a = "length (appenders s)"
  let ?fmt = "new_LogFormatter (lad_formatter d)"
  let ?s2 = "LogAppender_SetLevel ?a (lad_level d) s1"
  let ?s3 = "if lad_formatter d \<noteq> [] then
      if \<not> fmt_error ?fmt then LogAppender_SetFormatter ?a (Some ?fmt) ?s2
      else print_cout ?s2 (''log.name='' @ name @ '' appender type='' @
        dec_int (sint (lad_type d)) @ '' formatter='' @ lad_formatter d @ '' is invalid'' @ [CHR 0x0A])
    else ?s2"
  have "(snd (alloc_appender ap0 s))\<lparr>ticks := n\<rparr> = s1" by (simp add: s1 alloc_appender_def)
  with wf_sys_alloc_appender [OF wf ap0(3)] have wf1: "wf_sys s1" by (metis wf_sys_ticks)
  have len: "?a < length (appenders s1)" by (simp add: s1)
  have "wf_sys ?s2" using wf_sys_LogAppender_SetLevel [OF wf1 len] .
  moreover have "?a < length (appenders ?s2)" using len by (simp add: LogAppender_SetLevel_def sys_simps)
  ultimately have wf3: "wf_sys ?s3" using wf_sys_LogAppender_SetFormatter by simp
  let ?ok = "lad_formatter d \<noteq> [] \<and> \<not> fmt_error ?fmt"
  let ?ap3 = "if ?ok then ap0\<lparr>ap_level := lad_level d, ap_formatter := Some ?fmt, ap_has_formatter := True\<rparr>
    else ap0\<lparr>ap_level := lad_level d\<rparr>"
  have s3: "loggers ?s3 = loggers s" "appenders ?s3 = appenders s @ [?ap3]" "mgr_root ?s3 = mgr_root s"
      "mgr_loggers ?s3 = mgr_loggers s"
    by (auto simp: s1 LogAppender_SetLevel_def LogAppender_SetFormatter_def update_appender_def
        print_cout_def)
  let ?f = "lg_formatter (loggers s ! l)"
  let ?ap = "if ?ok then ?ap3 else ?ap3\<lparr>ap_formatter := ?f\<rparr>"
  obtain t where add: "Logger_AddAppender l ?a ?s3 = Ok () t"
    using l s3 by (simp add: Logger_AddAppender_def Let_def)
  have "install_appender env name l d s = Ok () t"
    using d add new by (simp add: install_appender_def known_type_def Let_def split: if_splits)
  moreover have "wf_sys t" using wf_sys_AddAppender [OF wf3 add] .
  moreover have "appenders t = appenders s @ [?ap]" "mgr_root t = mgr_root s" "mgr_loggers t = mgr_loggers s"
    "loggers t = (loggers s)[l := (loggers s ! l)\<lparr>lg_appenders := lg_appenders (loggers s ! l) @ [?a]\<rparr>]"
    using add l s3 ap0(2)
    by (auto simp: Logger_AddAppender_def Let_def update_appender_def update_logger_def split: if_splits)
  moreover have "realizes ?ap d ?f" using cls by (auto simp: realizes_def)
  ultimately show thesis using that by blast
qed

text \<open>
  \<open>op_on m s t\<close>: from \<open>s\<close> to \<open>t\<close> only the logger \<open>m\<close> and the appenders attached to it have
  changed, and it has been given new appenders at most.
\<close>

definition op_on :: "nat \<Rightarrow> log_sys \<Rightarrow> log_sys \<Rightarrow> bool" where
  "op_on m s t \<longleftrightarrow>
     length (loggers t) = length (loggers s) \<and> length (appenders s) \<le> length (appenders t) \<and>
     mgr_root t = mgr_root s \<and> mgr_loggers t = mgr_loggers s \<and>
     (\<forall>k < length (loggers s). k \<noteq> m \<longrightarrow> loggers t ! k = loggers s ! k) \<and>
     (\<forall>a < length (appenders s). a \<notin> set (lg_appenders (loggers s ! m)) \<longrightarrow> appenders t ! a = appenders s ! a) \<and>
     set (lg_appenders (loggers t ! m)) \<subseteq> set (lg_appenders (loggers s ! m)) \<union> {length (appenders s)..}"

lemma op_on_refl [simp]: "op_on m s s"
  by (simp add: op_on_def)

lemma op_on_trans: "op_on m s t \<Longrightarrow> op_on m t u \<Longrightarrow> op_on m s u"
proof -
  assume st: "op_on m s t" and tu: "op_on m t u"
  have "appenders u ! a = appenders s ! a"
    if a: "a < length (appenders s)" "a \<notin> set (lg_appenders (loggers s ! m))" for a
  proof -
    have "a \<notin> set (lg_appenders (loggers t ! m))" "a < length (appenders t)"
      using st a by (auto simp: op_on_def)
    with st tu a show ?thesis by (simp add: op_on_def)
  qed
  moreover have "set (lg_appenders (loggers u ! m)) \<subseteq> set (lg_appenders (loggers s ! m)) \<union> {length (appenders s)..}"
    using st tu by (fastforce simp: op_on_def)
  ultimately show "op_on m s u" using st tu by (simp add: op_on_def)
qed

lemma op_on_update_logger:
  "m < length (loggers s) \<Longrightarrow> set (lg_appenders (f (loggers s ! m))) \<subseteq> set (lg_appenders (loggers s ! m)) \<Longrightarrow>
    op_on m s (update_logger m f s)"
  by (auto simp: op_on_def sys_simps)

lemma op_on_SetFormatter:
  assumes "m < length (loggers s)"
  shows "\<exists>t. Logger_SetFormatter m fmt s = Ok () t \<and> op_on m s t \<and>
    lg_appenders (loggers t ! m) = lg_appenders (loggers s ! m) \<and>
    lg_level (loggers t ! m) = lg_level (loggers s ! m) \<and>
    (\<not> fmt_error (new_LogFormatter fmt) \<longrightarrow> lg_formatter (loggers t ! m) = Some (new_LogFormatter fmt))"
proof -
  have inherit: "appenders (inherit_formatter f as t) ! a = appenders t ! a"
    if "a < length (appenders t)" "a \<notin> set as" for f as t a
    using that by (induction as arbitrary: t) (simp_all add: sys_simps)
  show ?thesis
    using assms
    by (auto simp: Logger_SetFormatter_def Logger_SetFormatter_ptr_def Let_def op_on_def sys_simps inherit)
qed

definition logger_realizes :: "log_sys \<Rightarrow> nat \<Rightarrow> log_define \<Rightarrow> bool" where
  "logger_realizes s l i \<longleftrightarrow>
     lg_level (loggers s ! l) = ld_level i \<and>
     (ld_formatter i \<noteq> [] \<and> \<not> fmt_error (new_LogFormatter (ld_formatter i)) \<longrightarrow>
       lg_formatter (loggers s ! l) = Some (new_LogFormatter (ld_formatter i))) \<and>
     list_all2 (\<lambda>a d. a < length (appenders s) \<and> realizes (appenders s ! a) d (lg_formatter (loggers s ! l)))
       (lg_appenders (loggers s ! l)) (filter known_type (ld_appenders i))"

definition owns :: "log_sys \<Rightarrow> nat \<Rightarrow> bool" where
  "owns s l \<longleftrightarrow>
     (\<forall>m < length (loggers s). m \<noteq> l \<longrightarrow>
       set (lg_appenders (loggers s ! l)) \<inter> set (lg_appenders (loggers s ! m)) = {})"

text \<open>The appenders of a definition, installed one after the other.\<close>

lemma install_appenders:
  assumes "wf_sys s" and "l < length (loggers s)" and "owns s l"
  shows "\<exists>t as. for_each (install_appender env name l) ds s = Ok () t \<and> wf_sys t \<and> op_on l s t \<and> owns t l \<and>
    loggers t ! l = (loggers s ! l)\<lparr>lg_appenders := lg_appenders (loggers s ! l) @ as\<rparr> \<and>
    (\<forall>a < length (appenders s). appenders t ! a = appenders s ! a) \<and>
    list_all2 (\<lambda>a d. a < length (appenders t) \<and> realizes (appenders t ! a) d (lg_formatter (loggers s ! l)))
      as (filter known_type ds)"
  using assms
proof (induction ds arbitrary: s)
  case Nil
  then show ?case by (auto intro!: exI [of _ "[]"])
next
  case (Cons d ds)
  show ?case
  proof (cases "known_type d")
    case False
    with Cons show ?thesis by (simp add: install_unknown)
  next
    case True
    obtain ap t where t: "install_appender env name l d s = Ok () t" "wf_sys t"
      "appenders t = appenders s @ [ap]" "realizes ap d (lg_formatter (loggers s ! l))"
      "loggers t = (loggers s)[l := (loggers s ! l)\<lparr>lg_appenders := lg_appenders (loggers s ! l) @ [length (appenders s)]\<rparr>]"
      "mgr_root t = mgr_root s" "mgr_loggers t = mgr_loggers s"
      using install_appender_result [OF True Cons.prems(1,2)] by metis
    have lt: "l < length (loggers t)" using t(5) Cons.prems(2) by simp
    have att: "a < length (appenders s)" if "m < length (loggers s)" "a \<in> set (lg_appenders (loggers s ! m))" for m a
      using wf_sys_logger [OF Cons.prems(1) that(1)] that(2) by (auto simp: logger_ok_def attached_ok_def)
    have st: "op_on l s t" using t Cons.prems(2) by (auto simp: op_on_def nth_append)
    have "owns t l"
      using Cons.prems(2,3) att by (force simp: owns_def t(5) nth_list_update)
    from Cons.IH [OF t(2) lt this] obtain u as where u:
      "for_each (install_appender env name l) ds t = Ok () u" "wf_sys u" "op_on l t u" "owns u l"
      "loggers u ! l = (loggers t ! l)\<lparr>lg_appenders := lg_appenders (loggers t ! l) @ as\<rparr>"
      "\<forall>a < length (appenders t). appenders u ! a = appenders t ! a"
      "list_all2 (\<lambda>a d. a < length (appenders u) \<and> realizes (appenders u ! a) d (lg_formatter (loggers t ! l)))
        as (filter known_type ds)" by blast
    have "length (appenders t) \<le> length (appenders u)" using u(3) by (simp add: op_on_def)
    then have "appenders u ! length (appenders s) = ap" "length (appenders s) < length (appenders u)"
      using u(6) t(3) by (auto simp: nth_append)
    with t u True Cons.prems(2) op_on_trans [OF st u(3)] show ?thesis
      by (intro exI [of _ u] exI [of _ "length (appenders s) # as"]) (simp add: nth_append)
  qed
qed

lemma SetLevel_result:
  assumes "wf_sys s" and "l < length (loggers s)"
  obtains t where "Logger_SetLevel l lvl s = Ok () t" "op_on l s t" "wf_sys t" "l < length (loggers t)"
    "loggers t ! l = (loggers s ! l)\<lparr>lg_level := lvl\<rparr>"
proof -
  let ?t = "update_logger l (\<lambda>lg. lg\<lparr>lg_level := lvl\<rparr>) s"
  have run: "Logger_SetLevel l lvl s = Ok () ?t" using assms(2) by (simp add: Logger_SetLevel_def)
  have "op_on l s ?t" using assms(2) by (intro op_on_update_logger) auto
  with that [OF run] wf_sys_SetLevel [OF assms(1) run] assms(2) show thesis by (simp add: sys_simps)
qed

lemma ClearAppender_result:
  assumes "wf_sys s" and "l < length (loggers s)"
  obtains t where "Logger_ClearAppender l s = Ok () t" "op_on l s t" "wf_sys t" "l < length (loggers t)"
    "loggers t ! l = (loggers s ! l)\<lparr>lg_appenders := []\<rparr>"
proof -
  let ?t = "update_logger l (\<lambda>lg. lg\<lparr>lg_appenders := []\<rparr>) s"
  have run: "Logger_ClearAppender l s = Ok () ?t" using assms(2) by (simp add: Logger_ClearAppender_def)
  have "op_on l s ?t" using assms(2) by (intro op_on_update_logger) auto
  with that [OF run] wf_sys_ClearAppender [OF assms(1) run] assms(2) show thesis by (simp add: sys_simps)
qed

section \<open>The loops of the listener\<close>

text \<open>What the listener establishes for a definition that it installs or removes.\<close>

definition installed :: "log_sys \<Rightarrow> log_define \<Rightarrow> bool" where
  "installed s i \<longleftrightarrow>
     (\<exists>l. map_find string_lt (ld_name i) (mgr_loggers s) = Some l \<and> logger_realizes s l i \<and> owns s l)"

definition removed :: "log_sys \<Rightarrow> string \<Rightarrow> bool" where
  "removed s name \<longleftrightarrow>
     (\<exists>l. map_find string_lt name (mgr_loggers s) = Some l \<and> lg_level (loggers s ! l) = UNKONW \<and>
       lg_appenders (loggers s ! l) = [])"

lemma installed_op_on:
  assumes wf: "wf_sys s" and ins: "installed s i" and op: "op_on m s t" and m: "m < length (loggers s)"
    and reg: "map_find string_lt name (mgr_loggers s) = Some m" and ne: "ld_name i \<noteq> name"
  shows "installed t i"
proof -
  obtain l where l: "map_find string_lt (ld_name i) (mgr_loggers s) = Some l" "logger_realizes s l i" "owns s l"
    using ins by (auto simp: installed_def)
  have lm: "l \<noteq> m" using registry_injective [OF wf l(1)] reg ne by blast
  have len: "l < length (loggers s)" using wf_sys_registered(1) [OF wf l(1)] .
  have att: "a < length (appenders s)" if "a \<in> set (lg_appenders (loggers s ! l))" for a
    using wf_sys_logger [OF wf len] that by (auto simp: logger_ok_def attached_ok_def)
  have same: "loggers t ! l = loggers s ! l" using op len lm by (simp add: op_on_def)
  have ap: "appenders t ! a = appenders s ! a \<and> a < length (appenders t)"
    if "a \<in> set (lg_appenders (loggers s ! l))" for a
    using op att [OF that] l(3) m lm that by (auto simp: op_on_def owns_def)
  have "logger_realizes t l i"
    using l(2) ap by (auto simp: logger_realizes_def same intro: list.rel_mono_strong)
  moreover have "owns t l"
    unfolding owns_def same
  proof (intro allI impI)
    fix k
    assume k: "k < length (loggers t)" "k \<noteq> l"
    then have "set (lg_appenders (loggers s ! l)) \<inter> set (lg_appenders (loggers s ! k)) = {}"
      using l(3) op by (simp add: owns_def op_on_def)
    then show "set (lg_appenders (loggers s ! l)) \<inter> set (lg_appenders (loggers t ! k)) = {}"
      using op k att by (cases "k = m") (fastforce simp: op_on_def)+
  qed
  ultimately show ?thesis using l(1) op by (auto simp: installed_def op_on_def)
qed

lemma removed_op_on:
  assumes wf: "wf_sys s" and rem: "removed s n" and op: "op_on m s t"
    and reg: "map_find string_lt name (mgr_loggers s) = Some m" and ne: "n \<noteq> name"
  shows "removed t n"
proof -
  obtain l where l: "map_find string_lt n (mgr_loggers s) = Some l"
    "lg_level (loggers s ! l) = UNKONW \<and> lg_appenders (loggers s ! l) = []"
    using rem by (auto simp: removed_def)
  have "l \<noteq> m" using registry_injective [OF wf l(1)] reg ne by blast
  with l op wf_sys_registered(1) [OF wf l(1)] show ?thesis by (auto simp: removed_def op_on_def)
qed

lemma GetLogger_keeps:
  assumes wf: "wf_sys s"
  shows "installed s i \<Longrightarrow> installed (snd (LoggerManager_GetLogger name s)) i"
    and "removed s n \<Longrightarrow> removed (snd (LoggerManager_GetLogger name s)) n"
proof -
  let ?t = "snd (LoggerManager_GetLogger name s)"
  have t: "appenders ?t = appenders s" "length (loggers s) \<le> length (loggers ?t)"
    "\<And>l. l < length (loggers s) \<Longrightarrow> loggers ?t ! l = loggers s ! l"
    "\<And>l. length (loggers s) \<le> l \<Longrightarrow> l < length (loggers ?t) \<Longrightarrow> lg_appenders (loggers ?t ! l) = []"
    by (cases "map_find string_lt name (mgr_loggers s)";
        auto simp: GetLogger_found GetLogger_fresh nth_append new_Logger_def)+
  have reg: "map_find string_lt k (mgr_loggers ?t) = Some l"
    if "map_find string_lt k (mgr_loggers s) = Some l" for k l
    using loggers_registry.lookup_kept [OF wf _ that] by simp
  show "installed s i \<Longrightarrow> installed ?t i"
  proof -
    assume "installed s i"
    then obtain l where l: "map_find string_lt (ld_name i) (mgr_loggers s) = Some l" "logger_realizes s l i"
      "owns s l" by (auto simp: installed_def)
    have "l < length (loggers s)" using wf_sys_registered(1) [OF wf l(1)] .
    moreover from this have "owns ?t l"
      unfolding owns_def
    proof (intro allI impI)
      fix m
      assume m: "m < length (loggers ?t)" "m \<noteq> l"
      show "set (lg_appenders (loggers ?t ! l)) \<inter> set (lg_appenders (loggers ?t ! m)) = {}"
        using l(3) t(3,4) m \<open>l < length (loggers s)\<close>
        by (cases "m < length (loggers s)") (simp_all add: owns_def)
    qed
    ultimately show ?thesis
      using l reg t by (auto simp: installed_def logger_realizes_def)
  qed
  show "removed s n \<Longrightarrow> removed ?t n"
    using reg t(3) wf_sys_registered(1) [OF wf] by (fastforce simp: removed_def)
qed

definition reg_kept :: "log_sys \<Rightarrow> log_sys \<Rightarrow> bool" where
  "reg_kept s t \<longleftrightarrow> mgr_root t = mgr_root s \<and>
     (\<forall>k l. map_find string_lt k (mgr_loggers s) = Some l \<longrightarrow> map_find string_lt k (mgr_loggers t) = Some l)"

lemma reg_kept_GetLogger:
  assumes "wf_sys s" and "LoggerManager_GetLogger name s = (l, s1)" and "op_on l s1 t"
  shows "reg_kept s t"
proof -
  have "mgr_root s1 = mgr_root s"
    using assms(2) by (cases "map_find string_lt name (mgr_loggers s)") (auto simp: GetLogger_found GetLogger_fresh)
  moreover have "map_find string_lt k (mgr_loggers s1) = Some v"
    if "map_find string_lt k (mgr_loggers s) = Some v" for k v
    using loggers_registry.lookup_kept [OF assms(1) TrueI that, of name] assms(2) by simp
  ultimately show ?thesis using assms(3) by (simp add: reg_kept_def op_on_def)
qed

lemma install_define_result:
  assumes wf: "wf_sys s"
  shows "\<exists>t. install_define env i s = Ok () t \<and> wf_sys t \<and> reg_kept s t \<and> installed t i \<and>
    (\<forall>j. ld_name j \<noteq> ld_name i \<and> installed s j \<longrightarrow> installed t j) \<and>
    (\<forall>n. n \<noteq> ld_name i \<and> removed s n \<longrightarrow> removed t n)"
proof -
  obtain l s1 where get: "LoggerManager_GetLogger (ld_name i) s = (l, s1)" by fastforce
  have wf1: "wf_sys s1" using wf_sys_GetLogger [OF wf, of "ld_name i"] get by simp
  have reg: "map_find string_lt (ld_name i) (mgr_loggers s1) = Some l"
    using loggers_registry.get_stored [OF wf, of "ld_name i"] get by simp
  have l1: "l < length (loggers s1)" using wf_sys_registered(1) [OF wf1 reg] .
  obtain s2 where s2: "Logger_SetLevel l (ld_level i) s1 = Ok () s2" "op_on l s1 s2" "wf_sys s2"
      and l2: "l < length (loggers s2)" and "loggers s2 ! l = (loggers s1 ! l)\<lparr>lg_level := ld_level i\<rparr>"
    using SetLevel_result [OF wf1 l1] by blast
  then have lvl: "lg_level (loggers s2 ! l) = ld_level i" by simp
  obtain s3 where s3: "(if ld_formatter i \<noteq> [] then Logger_SetFormatter l (ld_formatter i) s2 else Ok () s2) = Ok () s3"
      "op_on l s2 s3" "wf_sys s3" "lg_level (loggers s3 ! l) = ld_level i"
      "ld_formatter i \<noteq> [] \<and> \<not> fmt_error (new_LogFormatter (ld_formatter i)) \<longrightarrow>
        lg_formatter (loggers s3 ! l) = Some (new_LogFormatter (ld_formatter i))"
    using op_on_SetFormatter [OF l2, of "ld_formatter i"] wf_sys_SetFormatter [OF s2(3)] s2(3) lvl
    by (cases "ld_formatter i = []") auto
  have l3: "l < length (loggers s3)" using l2 s3(2) by (simp add: op_on_def)
  obtain s4 where s4: "Logger_ClearAppender l s3 = Ok () s4" "op_on l s3 s4" "wf_sys s4"
      and l4: "l < length (loggers s4)"
      and s4_l: "loggers s4 ! l = (loggers s3 ! l)\<lparr>lg_appenders := []\<rparr>"
    using ClearAppender_result [OF s3(3) l3] by blast
  have "owns s4 l" using s4_l by (simp add: owns_def)
  from install_appenders [OF s4(3) l4 this, of env "ld_name i" "ld_appenders i"] s4_l
  obtain t as where t: "for_each (install_appender env (ld_name i) l) (ld_appenders i) s4 = Ok () t"
      "wf_sys t" "op_on l s4 t" "owns t l" "loggers t ! l = (loggers s3 ! l)\<lparr>lg_appenders := as\<rparr>"
      "list_all2 (\<lambda>a d. a < length (appenders t) \<and> realizes (appenders t ! a) d (lg_formatter (loggers s3 ! l)))
        as (filter known_type (ld_appenders i))" by auto
  have op: "op_on l s1 t" using s2(2) s3(2) s4(2) t(3) op_on_trans by blast
  have run: "install_define env i s = Ok () t"
    using s2(1) s3(1) s4(1) t(1) by (simp add: install_define_def get)
  have "installed t i"
    using reg op t s3 by (auto simp: installed_def logger_realizes_def op_on_def)
  moreover have "installed t j" if "ld_name j \<noteq> ld_name i" "installed s j" for j
    using installed_op_on [OF wf1 _ op l1 reg that(1)] GetLogger_keeps(1) [OF wf that(2), of "ld_name i"] get by simp
  moreover have "removed t n" if "n \<noteq> ld_name i" "removed s n" for n
    using removed_op_on [OF wf1 _ op reg that(1)] GetLogger_keeps(2) [OF wf that(2), of "ld_name i"] get by simp
  moreover have "reg_kept s t" using reg_kept_GetLogger [OF wf get op] .
  ultimately show ?thesis using run t(2) by blast
qed

lemma remove_define_result:
  assumes wf: "wf_sys s"
  shows "\<exists>t. remove_define j s = Ok () t \<and> wf_sys t \<and> reg_kept s t \<and> removed t (ld_name j) \<and>
    (\<forall>i. ld_name i \<noteq> ld_name j \<and> installed s i \<longrightarrow> installed t i) \<and>
    (\<forall>n. n \<noteq> ld_name j \<and> removed s n \<longrightarrow> removed t n)"
proof -
  obtain l s1 where get: "LoggerManager_GetLogger (ld_name j) s = (l, s1)" by fastforce
  have wf1: "wf_sys s1" using wf_sys_GetLogger [OF wf, of "ld_name j"] get by simp
  have reg: "map_find string_lt (ld_name j) (mgr_loggers s1) = Some l"
    using loggers_registry.get_stored [OF wf, of "ld_name j"] get by simp
  have l1: "l < length (loggers s1)" using wf_sys_registered(1) [OF wf1 reg] .
  obtain s2 where s2: "Logger_SetLevel l UNKONW s1 = Ok () s2" "op_on l s1 s2" "wf_sys s2"
      "l < length (loggers s2)" "loggers s2 ! l = (loggers s1 ! l)\<lparr>lg_level := UNKONW\<rparr>"
    using SetLevel_result [OF wf1 l1] by blast
  obtain t where t: "Logger_ClearAppender l s2 = Ok () t" "op_on l s2 t" "wf_sys t"
      "loggers t ! l = (loggers s2 ! l)\<lparr>lg_appenders := []\<rparr>"
    using ClearAppender_result [OF s2(3,4)] by blast
  have op: "op_on l s1 t" using s2(2) t(2) op_on_trans by blast
  have "remove_define j s = Ok () t" using s2(1) t(1) by (simp add: remove_define_def get)
  moreover have "removed t (ld_name j)"
    using reg op t(4) s2(5) by (auto simp: removed_def op_on_def)
  moreover have "installed t i" if "ld_name i \<noteq> ld_name j" "installed s i" for i
    using installed_op_on [OF wf1 _ op l1 reg that(1)] GetLogger_keeps(1) [OF wf that(2), of "ld_name j"] get by simp
  moreover have "removed t n" if "n \<noteq> ld_name j" "removed s n" for n
    using removed_op_on [OF wf1 _ op reg that(1)] GetLogger_keeps(2) [OF wf that(2), of "ld_name j"] get by simp
  moreover have "reg_kept s t" using reg_kept_GetLogger [OF wf get op] .
  ultimately show ?thesis using t(3) by blast
qed

lemma reg_kept_trans: "reg_kept s t \<Longrightarrow> reg_kept t u \<Longrightarrow> reg_kept s u"
  by (simp add: reg_kept_def)

lemma install_loop:
  assumes "wf_sys s" and "distinct (map ld_name xs)"
  shows "\<exists>t. for_each (\<lambda>i s. if P i then install_define env i s else Ok () s) xs s = Ok () t \<and> wf_sys t \<and>
    reg_kept s t \<and> (\<forall>i \<in> set xs. P i \<longrightarrow> installed t i) \<and>
    (\<forall>j. ld_name j \<notin> ld_name ` set xs \<and> installed s j \<longrightarrow> installed t j)"
  using assms
proof (induction xs arbitrary: s)
  case Nil
  then show ?case by (simp add: reg_kept_def)
next
  case (Cons i xs)
  obtain t where t: "(if P i then install_define env i s else Ok () s) = Ok () t" "wf_sys t" "reg_kept s t"
      "P i \<longrightarrow> installed t i" "\<forall>j. ld_name j \<noteq> ld_name i \<and> installed s j \<longrightarrow> installed t j"
    using install_define_result [OF Cons.prems(1), of env i] Cons.prems(1)
    by (cases "P i") (auto simp: reg_kept_def)
  from Cons.IH [OF t(2)] Cons.prems(2)
  obtain u where u: "for_each (\<lambda>i s. if P i then install_define env i s else Ok () s) xs t = Ok () u"
    "wf_sys u" "reg_kept t u" "\<forall>i \<in> set xs. P i \<longrightarrow> installed u i"
    "\<forall>j. ld_name j \<notin> ld_name ` set xs \<and> installed t j \<longrightarrow> installed u j" by auto
  have "P i \<longrightarrow> installed u i" using t(4) u(5) Cons.prems(2) by auto
  with t u reg_kept_trans [OF t(3) u(3)] show ?case by (intro exI [of _ u]) auto
qed

lemma remove_loop:
  assumes "wf_sys s"
  shows "\<exists>t. for_each (\<lambda>j s. if Q j then remove_define j s else Ok () s) ys s = Ok () t \<and> wf_sys t \<and>
    reg_kept s t \<and> (\<forall>j \<in> set ys. Q j \<longrightarrow> removed t (ld_name j)) \<and> (\<forall>n. removed s n \<longrightarrow> removed t n) \<and>
    (\<forall>i. (\<forall>j \<in> set ys. Q j \<longrightarrow> ld_name j \<noteq> ld_name i) \<and> installed s i \<longrightarrow> installed t i)"
  using assms
proof (induction ys arbitrary: s)
  case Nil
  then show ?case by (simp add: reg_kept_def)
next
  case (Cons j ys)
  obtain t where t: "(if Q j then remove_define j s else Ok () s) = Ok () t" "wf_sys t" "reg_kept s t"
      "Q j \<longrightarrow> removed t (ld_name j)" "\<forall>n. removed s n \<longrightarrow> removed t n"
      "\<forall>i. (Q j \<longrightarrow> ld_name j \<noteq> ld_name i) \<and> installed s i \<longrightarrow> installed t i"
  proof (cases "Q j")
    case True
    obtain t where t: "remove_define j s = Ok () t" "wf_sys t" "reg_kept s t" "removed t (ld_name j)"
        "\<forall>i. ld_name i \<noteq> ld_name j \<and> installed s i \<longrightarrow> installed t i"
        "\<forall>n. n \<noteq> ld_name j \<and> removed s n \<longrightarrow> removed t n"
      using remove_define_result [OF Cons.prems, of j] by blast
    then have "\<forall>n. removed s n \<longrightarrow> removed t n" by metis
    with t True that show thesis by metis
  next
    case False
    with Cons.prems that [of s] show thesis by (simp add: reg_kept_def)
  qed
  from Cons.IH [OF t(2)]
  obtain u where u: "for_each (\<lambda>j s. if Q j then remove_define j s else Ok () s) ys t = Ok () u"
    "wf_sys u" "reg_kept t u" "\<forall>j \<in> set ys. Q j \<longrightarrow> removed u (ld_name j)"
    "\<forall>n. removed t n \<longrightarrow> removed u n"
    "\<forall>i. (\<forall>j \<in> set ys. Q j \<longrightarrow> ld_name j \<noteq> ld_name i) \<and> installed t i \<longrightarrow> installed u i" by blast
  with t reg_kept_trans [OF t(3) u(3)] show ?case by (intro exI [of _ u]) auto
qed

end
