(* ===== verification/Log_Config_Properties.thy ===== *)
theory Log_Config_Properties
  imports Log_Config_Facts Config_Properties
begin

text \<open>
  The properties of the configuration of the logging system: the round trip of logger
  definitions, what the cast from text never reads, what the listener of the variable \<open>logs\<close>
  establishes, and what happens when the root logger is removed from the configuration.
\<close>

section \<open>Definitions as text\<close>

text \<open>
  A set of logger definitions is what its cast to text is cast back to, whenever every appender
  in it has a known type, no formatter and no level of its own, and a file only if it is a file
  appender. (A formatter or a level of an appender is neither written nor read.)
\<close>

theorem log_config_roundtrip:
  assumes "yaml_laws lib" and "sorted_wrt LogDefine_lt lds"
    and "\<forall>ld \<in> set lds. \<forall>i \<in> set (ld_appenders ld). storable_appender i"
  shows "casts_back lib (set_to_string lib (LogDefine_to_string lib))
    (set_from_string lib LogDefine_lt (LogDefine_from_string lib)) lds"
  unfolding set_to_string_def set_from_string_def
  using assms LogDefine_casts_back [OF assms(1)]
  by (intro log_define_order.set_roundtrip) auto

definition example_defines :: "log_define list" where
  "example_defines =
     [\<lparr>ld_name = ''net'', ld_level = WARN, ld_formatter = ''%m%n'',
       ld_appenders = [new_lad\<lparr>lad_type := 1, lad_file := ''net.log''\<rparr>, new_lad\<lparr>lad_type := 2\<rparr>]\<rparr>,
      \<lparr>ld_name = ''root'', ld_level = UNKONW, ld_formatter = [], ld_appenders = []\<rparr>]"

theorem log_config_roundtrip_witness:
  "casts_back tree_lib (set_to_string tree_lib (LogDefine_to_string tree_lib))
    (set_from_string tree_lib LogDefine_lt (LogDefine_from_string tree_lib)) example_defines"
  by (rule log_config_roundtrip [OF tree_laws])
    (simp_all add: example_defines_def LogDefine_lt_def string_lt_def storable_appender_def new_lad_def)

text \<open>
  The formatter of an appender is read into its file: for an appender with a type that is known,
  the result has no formatter, and a \<open>formatter\<close> key replaces the \<open>file\<close> of a file appender. The
  level of an appender is not read at all.
\<close>

theorem appender_formatter_read_as_file:
  assumes "y_key lib a ''type'' = Inr (Some t)" and "y_as_string lib t = Inr type"
    and "type = ''FileLogAppender'' \<or> type = ''StdoutLogAppender''"
    and "y_key lib a ''file'' = Inr (Some f)" and "y_as_string lib f = Inr file"
    and "y_key lib a ''formatter'' = Inr (Some p)" and "y_as_string lib p = Inr formatter"
  shows "appender_from_node lib a =
    ([], Inr (Some \<lparr>lad_type = (if type = ''FileLogAppender'' then 1 else 2), lad_level = UNKONW,
                    lad_formatter = [], lad_file = formatter\<rparr>))"
  using assms by (auto simp: appender_from_node_def key_or_def new_lad_def)

theorem appender_formatter_read_as_file_witness:
  "appender_from_node tree_lib
     (Map [(Scalar ''type'', Scalar ''FileLogAppender''), (Scalar ''file'', Scalar ''net.log''),
           (Scalar ''level'', Scalar ''ERROR''), (Scalar ''formatter'', Scalar ''%m%n'')]) =
   ([], Inr (Some \<lparr>lad_type = 1, lad_level = UNKONW, lad_formatter = [], lad_file = ''%m%n''\<rparr>))"
proof -
  let ?a = "Map [(Scalar ''type'', Scalar ''FileLogAppender''), (Scalar ''file'', Scalar ''net.log''),
           (Scalar ''level'', Scalar ''ERROR''), (Scalar ''formatter'', Scalar ''%m%n'')]"
  show ?thesis
    using appender_formatter_read_as_file [of tree_lib ?a "Scalar ''FileLogAppender''" "''FileLogAppender''"
        "Scalar ''net.log''" "''net.log''" "Scalar ''%m%n''" "''%m%n''"]
    by (simp add: tree_key_def)
qed

section \<open>The listener\<close>

lemma changed_iff: "sorted_wrt LogDefine_lt old \<Longrightarrow> define_changed old i \<longleftrightarrow> i \<notin> set old"
proof -
  assume old: "sorted_wrt LogDefine_lt old"
  show ?thesis
  proof (cases "set_find LogDefine_lt i old")
    case None
    then show ?thesis
      using log_define_order.set_find_None_iff [OF old, of i]
      by (auto simp: define_changed_def)
  next
    case (Some it)
    then show ?thesis
      using log_define_order.set_find_member [OF old, of i] log_define_order.set_find_Some [OF Some]
      by (auto simp: define_changed_def LogDefine_eq_iff)
  qed
qed

lemma find_name_iff:
  assumes "sorted_wrt LogDefine_lt lds"
  shows "set_find LogDefine_lt j lds = None \<longleftrightarrow> ld_name j \<notin> ld_name ` set lds"
proof -
  have "same_key LogDefine_lt a b \<longleftrightarrow> ld_name a = ld_name b" for a b
    using string_same_key [of "ld_name a" "ld_name b"] by (simp add: same_key_def LogDefine_lt_def)
  then show ?thesis using log_define_order.set_find_None_iff [OF assms, of j] by (force simp: image_iff)
qed

lemma distinct_names: "sorted_wrt LogDefine_lt lds \<Longrightarrow> distinct (map ld_name lds)"
  by (induction lds) (auto simp: LogDefine_lt_def string_lt_def)

lemma on_logs_changed_result:
  assumes ready: "log_ready s" and new: "sorted_wrt LogDefine_lt new" and old: "sorted_wrt LogDefine_lt old"
  shows "\<exists>t. on_logs_changed env new old s = Ok () t \<and> wf_sys t \<and> reg_kept s t \<and>
    (\<forall>i \<in> set new. i \<notin> set old \<longrightarrow> installed t i) \<and>
    (\<forall>j \<in> set old. ld_name j \<notin> ld_name ` set new \<longrightarrow> removed t (ld_name j))"
proof -
  have wf: "wf_sys s" using ready by (simp add: log_ready_def)
  have "effective_appenders s (mgr_root s) \<noteq> []" using ready by (simp add: log_ready_def effective_appenders_def)
  from ZCS_LEVEL_returns [OF wf wf_sys_root [OF wf] this]
  obtain s1 where s1: "ZCS_LEVEL env (mgr_root s) INFO 677 ''***** log config changed *****'' s = Ok () s1"
    "log_frame s s1" by blast
  have wf1: "wf_sys s1" using wf_sys_log_frame [OF s1(2) wf] .
  have kept1: "reg_kept s s1" using s1(2) by (simp add: reg_kept_def log_frame_def)
  from install_loop [OF wf1 distinct_names [OF new], of "define_changed old" env]
  obtain s2 where s2: "for_each (\<lambda>i s. if define_changed old i then install_define env i s else Ok () s) new s1 = Ok () s2"
    "wf_sys s2" "reg_kept s1 s2" "\<forall>i \<in> set new. define_changed old i \<longrightarrow> installed s2 i" by blast
  from remove_loop [OF s2(2), of "\<lambda>j. set_find LogDefine_lt j new = None" old]
  obtain t where t: "for_each (\<lambda>j s. if set_find LogDefine_lt j new = None then remove_define j s else Ok () s) old s2 = Ok () t"
    "wf_sys t" "reg_kept s2 t" "\<forall>j \<in> set old. set_find LogDefine_lt j new = None \<longrightarrow> removed t (ld_name j)"
    "\<forall>i. (\<forall>j \<in> set old. set_find LogDefine_lt j new = None \<longrightarrow> ld_name j \<noteq> ld_name i) \<and> installed s2 i \<longrightarrow>
      installed t i" by blast
  have "installed t i" if "i \<in> set new" "i \<notin> set old" for i
    using that s2(4) t(5) by (auto simp: changed_iff [OF old] find_name_iff [OF new])
  moreover have "reg_kept s t" using kept1 s2(3) t(3) reg_kept_trans by blast
  moreover have "on_logs_changed env new old s = Ok () t"
    using s1(1) s2(1) t(1) by (simp add: on_logs_changed_def)
  ultimately show ?thesis using t(2,4) by (auto simp: find_name_iff [OF new])
qed

text \<open>
  C10: When the variable \<open>logs\<close> changes, the listener returns and brings the logging system in line
  with the new definitions: every logger whose definition is new or different gets its level, its
  formatter if the pattern is valid, and exactly the appenders of the definition, in order, each
  with the file, level and formatter defined for it and shared with no other logger; every logger
  that is no longer defined gets level \<open>UNKONW\<close> and no appenders.
\<close>

theorem logs_listener_reconfigures:
  assumes "log_ready s" and "sorted_wrt LogDefine_lt new" and "sorted_wrt LogDefine_lt old"
  shows "\<exists>t. on_logs_changed env new old s = Ok () t \<and> wf_sys t \<and>
    (\<forall>i \<in> set new. i \<notin> set old \<longrightarrow> installed t i) \<and>
    (\<forall>j \<in> set old. ld_name j \<notin> ld_name ` set new \<longrightarrow> removed t (ld_name j))"
  using on_logs_changed_result [OF assms, of env] by blast

text \<open>Two loggers are defined, then the definition of the first is removed.\<close>

theorem logs_listener_reconfigures_witness:
  "\<exists>t. on_logs_changed (cenv_log example_env) example_defines [] example_log = Ok () t \<and>
    installed t (example_defines ! 0) \<and>
   (\<exists>u. on_logs_changed (cenv_log example_env) [] (take 1 example_defines) example_log = Ok () u \<and>
    removed u ''net'')"
proof -
  have sorted: "sorted_wrt LogDefine_lt example_defines" "sorted_wrt LogDefine_lt (take 1 example_defines)"
    by (simp_all add: example_defines_def LogDefine_lt_def string_lt_def)
  from logs_listener_reconfigures [OF example_log_ready sorted(1), of "[]" "cenv_log example_env"]
  obtain t where "on_logs_changed (cenv_log example_env) example_defines [] example_log = Ok () t"
    "installed t (example_defines ! 0)" by (auto simp: example_defines_def)
  moreover from logs_listener_reconfigures [OF example_log_ready _ sorted(2), of "[]" "cenv_log example_env"]
  obtain u where "on_logs_changed (cenv_log example_env) [] (take 1 example_defines) example_log = Ok () u"
    "removed u ''net''" by (auto simp: example_defines_def)
  ultimately show ?thesis by blast
qed

lemma ZCS_LEVEL_root_crashes:
  assumes wf: "wf_sys t" and "lg_appenders (loggers t ! mgr_root t) = []"
  shows "ZCS_LEVEL env (mgr_root t) lvl line msg t = Crash NullDeref"
proof -
  let ?s = "t\<lparr>ticks := Suc (ticks t)\<rparr>"
  let ?e = "new_LogEvent env (mgr_root t) lvl line (env_clock env (ticks t))"
  have "Logger_Log env [] (mgr_root t) lvl (?e\<lparr>ev_ss := ev_ss ?e @ msg\<rparr>) ?s = Crash NullDeref"
    using assms wf_sys_root [OF wf] wf_sys_root_root [OF wf]
    by (intro Logger_Log_outcome(1)) (simp_all add: new_LogEvent_def effective_appenders_def)
  then show ?thesis by (simp add: ZCS_LEVEL_def destroy_LogEventWrap_def Let_def new_LogEvent_def)
qed

text \<open>
  C30: Removing the root logger from the configuration breaks the program: the listener takes the
  appenders of the root logger away, and the next record logged to it dereferences a null
  pointer, which includes the record that the listener itself logs at the next change.
\<close>

theorem removing_root_breaks_logging:
  assumes "log_ready s" and "sorted_wrt LogDefine_lt new" and "sorted_wrt LogDefine_lt old"
    and "j \<in> set old" and "map_find string_lt (ld_name j) (mgr_loggers s) = Some (mgr_root s)"
    and "ld_name j \<notin> ld_name ` set new"
  shows "\<exists>t. on_logs_changed env new old s = Ok () t \<and>
    ZCS_LEVEL env' (mgr_root t) lvl line msg t = Crash NullDeref \<and>
    on_logs_changed env' new' old' t = Crash NullDeref"
proof -
  obtain t where t: "on_logs_changed env new old s = Ok () t" "wf_sys t" "reg_kept s t"
    "removed t (ld_name j)"
    using on_logs_changed_result [OF assms(1-3), of env] assms(4,6) by blast
  have "map_find string_lt (ld_name j) (mgr_loggers t) = Some (mgr_root t)"
    using t(3) assms(5) by (simp add: reg_kept_def)
  with t(4) have "lg_appenders (loggers t ! mgr_root t) = []" by (auto simp: removed_def)
  note crash = ZCS_LEVEL_root_crashes [OF t(2) this]
  show ?thesis using t(1) crash by (auto simp: on_logs_changed_def)
qed

theorem removing_root_breaks_logging_witness:
  "\<exists>t. on_logs_changed (cenv_log example_env) [] (drop 1 example_defines) example_log = Ok () t \<and>
    ZCS_LEVEL (cenv_log example_env) (mgr_root t) INFO 1 ''hello'' t = Crash NullDeref \<and>
    on_logs_changed (cenv_log example_env) example_defines [] t = Crash NullDeref"
  by (rule removing_root_breaks_logging [OF example_log_ready, where j = "example_defines ! 1"])
    (simp_all add: example_defines_def LogDefine_lt_def string_lt_def example_log_def)

section \<open>Dumping and reading back\<close>

text \<open>
  C31: What \<open>Logger::ToYamlString\<close> writes is not what the configuration reads: reading the dump of a
  logger back gives a definition with its name, its level and the pattern of its formatter, but
  without any of its appenders, because an appender is dumped under \<open>name\<close> and read by \<open>type\<close>.
\<close>

theorem dumped_appenders_are_lost:
  assumes laws: "yaml_laws lib" and wf: "wf_sys s" and l: "l < length (loggers s)"
  shows "\<exists>str out f. Logger_ToYamlString lib l s = Ok str s \<and> lg_formatter (loggers s ! l) = Some f \<and>
    LogDefine_from_string lib str =
      (out, Inr \<lparr>ld_name = lg_name (loggers s ! l), ld_level = lg_level (loggers s ! l),
                 ld_formatter = fmt_pattern f, ld_appenders = []\<rparr>)"
proof -
  let ?lg = "loggers s ! l"
  obtain f where f: "lg_formatter ?lg = Some f"
    using wf_sys_logger [OF wf l] by (auto simp: logger_ok_def)
  let ?kvs = "[(''name'', y_text lib (lg_name ?lg))] @
    (if lg_level ?lg \<noteq> UNKONW then [(''level'', y_text lib (LogLevel_ToString (lg_level ?lg)))] else []) @
    [(''formatter'', y_text lib (fmt_pattern f))]"
  let ?ns = "map (\<lambda>a. projr (y_load lib (LogAppender_ToYamlString lib (appenders s ! a)))) (lg_appenders ?lg)"
  have dumps: "\<exists>n. y_load lib (LogAppender_ToYamlString lib ap) = Inr n \<and> y_key lib n ''type'' = Inr None" for ap
  proof -
    obtain n where "y_load lib (LogAppender_ToYamlString lib ap) = Inr n"
      by (cases "ap_class ap") (auto simp: ToYamlString_defs Let_def laws_load [OF laws])
    then show ?thesis using dumped_appender_has_no_type [OF laws] by blast
  qed
  have loop: "cast_loop
      (\<lambda>a node. cast_bind (yaml_load lib (LogAppender_ToYamlString lib (appenders s ! a)))
         (\<lambda>n. push_under lib ''appenders'' n node)) as =
      cast_loop (push_under lib ''appenders'')
        (map (\<lambda>a. projr (y_load lib (LogAppender_ToYamlString lib (appenders s ! a)))) as)" for as
  proof (induction as)
    case (Cons a as)
    obtain n where n: "y_load lib (LogAppender_ToYamlString lib (appenders s ! a)) = Inr n" using dumps by blast
    show ?case by (rule ext) (simp add: yaml_load_def n flip: Cons.IH)
  qed (simp add: fun_eq_iff)
  have "map_of (rev ?kvs) ''appenders'' = None" by simp
  then obtain kvs where kvs: "cast_loop (push_under lib ''appenders'') ?ns (yaml_map lib (y_new lib) ?kvs) =
      ([], Inr (yaml_map lib (y_new lib) kvs))"
    "map_of (rev kvs) = (map_of (rev ?kvs))(''appenders'' := if ?ns = [] then None else Some (yaml_seq lib ?ns))"
    using push_all_under [OF laws, of ?kvs "''appenders''" "[]" ?ns] by auto
  have str: "Logger_ToYamlString lib l s = Ok (y_emit lib (yaml_map lib (y_new lib) kvs)) s"
    using l f loop kvs(1) by (auto simp: Logger_ToYamlString_def Let_def yaml_map_def)
  let ?body = "\<lambda>i acc. cast_bind (appender_from_node lib (y_at lib (yaml_seq lib ?ns) i))
      (\<lambda>lad. ([], Inr (case lad of None \<Rightarrow> acc | Some lad \<Rightarrow> acc @ [lad])))"
  have "snd (cast_loop ?body is acc) = Inr acc" if "set is \<subseteq> {..<length ?ns}" for "is" acc
    using that
  proof (induction "is")
    case (Cons i "is")
    obtain n where n: "y_load lib (LogAppender_ToYamlString lib (appenders s ! (lg_appenders ?lg ! i))) = Inr n"
      "y_key lib n ''type'' = Inr None" using dumps by blast
    then have "y_at lib (yaml_seq lib ?ns) i = n" using Cons.prems by (simp add: laws_at [OF laws])
    then have "\<exists>out. appender_from_node lib (y_at lib (yaml_seq lib ?ns) i) = (out, Inr None)"
      using n(2) by (simp add: appender_from_node_def skip_appender_def)
    moreover have "snd (cast_loop ?body is acc) = Inr acc" using Cons by simp
    ultimately show ?case by auto
  qed simp
  then have "snd (cast_loop ?body [0..<length ?ns] []) = Inr []" by (simp add: atLeast_upt)
  then obtain out where lads: "cast_loop ?body [0..<length ?ns] [] = (out, Inr [])"
    by (cases "cast_loop ?body [0..<length ?ns] []") simp
  note key = laws_key [OF laws, of kvs, unfolded kvs(2)]
  have "\<exists>out. LogDefine_from_string lib (y_emit lib (yaml_map lib (y_new lib) kvs)) =
      (out, Inr \<lparr>ld_name = lg_name ?lg, ld_level = lg_level ?lg, ld_formatter = fmt_pattern f, ld_appenders = []\<rparr>)"
    using lads
    by (cases "?ns = []"; cases "lg_level ?lg = UNKONW")
      (simp_all add: LogDefine_from_string_def yaml_load_def laws_load [OF laws] key key_or_def
        laws_text [OF laws] laws_size [OF laws] FromString_empty)
  with str f show ?thesis by blast
qed

theorem dumped_appenders_are_lost_witness:
  "\<exists>str out. Logger_ToYamlString tree_lib 0 example_log = Ok str example_log \<and>
    LogDefine_from_string tree_lib str =
      (out, Inr \<lparr>ld_name = ''root'', ld_level = DEBUG, ld_formatter = default_pattern, ld_appenders = []\<rparr>)"
proof -
  have "wf_sys example_log" using example_log_ready by (simp add: log_ready_def)
  from dumped_appenders_are_lost [OF tree_laws this, of 0] show ?thesis
    by (auto simp: example_log_def new_Logger_def new_LogFormatter_def split: prod.splits)
qed

end
