(* ===== verification/Locks.thy ===== *)
theory Locks
  imports Zcs_Prelude
begin

text \<open>
  The locks of \<open>src/src/mutex.h\<close> and threads that use them through the scoped lock templates. A
  call of \<open>lock\<close> that has to wait is \<open>None\<close>; the thread makes it again once the lock has changed.
  Threads are numbered; memory orders are not modelled: every call is one atomic step.
\<close>

section \<open>The locks\<close>

text \<open>
  \<open>pthread_mutex_t\<close>, \<open>pthread_spinlock_t\<close>: the owner. \<open>pthread_rwlock_t\<close>: the readers or the
  writer. Unlocking what another thread owns is undefined in POSIX; here it has no effect.
\<close>

type_synonym pthread_lock = "nat option"

definition new_Mutex :: pthread_lock where
  "new_Mutex = None"

definition Mutex_lock :: "nat \<Rightarrow> pthread_lock \<Rightarrow> pthread_lock option" where
  "Mutex_lock t m = (if m = None then Some (Some t) else None)"

definition Mutex_unlock :: "nat \<Rightarrow> pthread_lock \<Rightarrow> pthread_lock" where
  "Mutex_unlock t m = (if m = Some t then None else m)"

definition new_SpinLock :: pthread_lock where
  "new_SpinLock = None"

definition SpinLock_lock :: "nat \<Rightarrow> pthread_lock \<Rightarrow> pthread_lock option" where
  "SpinLock_lock t m = (if m = None then Some (Some t) else None)"

definition SpinLock_unlock :: "nat \<Rightarrow> pthread_lock \<Rightarrow> pthread_lock" where
  "SpinLock_unlock t m = (if m = Some t then None else m)"

text \<open>
  \<open>CASLock\<close> spins on an atomic flag: \<open>test_and_set\<close> sets it and returns what it was. The loop is
  the one of the code; nobody else changes the flag while it runs.
\<close>

definition test_and_set :: "bool \<Rightarrow> bool \<times> bool" where
  "test_and_set flag = (flag, True)"

partial_function (option) CASLock_spin :: "bool \<Rightarrow> bool option" where
  "CASLock_spin flag =
     (let (old, flag1) = test_and_set flag in if old then CASLock_spin flag1 else Some flag1)"

definition new_CASLock :: bool where
  "new_CASLock = False"

definition CASLock_lock :: "nat \<Rightarrow> bool \<Rightarrow> bool option" where
  "CASLock_lock t flag = CASLock_spin flag"

definition CASLock_unlock :: "nat \<Rightarrow> bool \<Rightarrow> bool" where
  "CASLock_unlock t flag = False"

datatype rwlock = Readers "nat list" | Writer nat

definition new_RWMutex :: rwlock where
  "new_RWMutex = Readers []"

fun RWMutex_rdlock :: "nat \<Rightarrow> rwlock \<Rightarrow> rwlock option" where
  "RWMutex_rdlock t (Readers rs) = Some (Readers (t # rs))"
| "RWMutex_rdlock t (Writer w) = None"

fun RWMutex_wrlock :: "nat \<Rightarrow> rwlock \<Rightarrow> rwlock option" where
  "RWMutex_wrlock t (Readers rs) = (if rs = [] then Some (Writer t) else None)"
| "RWMutex_wrlock t (Writer w) = None"

fun RWMutex_unlock :: "nat \<Rightarrow> rwlock \<Rightarrow> rwlock" where
  "RWMutex_unlock t (Readers rs) = Readers (remove1 t rs)"
| "RWMutex_unlock t (Writer w) = (if w = t then Readers [] else Writer w)"

text \<open>\<open>NullMutex\<close> and \<open>NullRWMutex\<close> have no state and never wait.\<close>

definition NullMutex_lock :: "nat \<Rightarrow> unit \<Rightarrow> unit option" where
  "NullMutex_lock t m = Some ()"

definition NullMutex_unlock :: "nat \<Rightarrow> unit \<Rightarrow> unit" where
  "NullMutex_unlock t m = ()"

definition NullRWMutex_rdlock :: "nat \<Rightarrow> unit \<Rightarrow> unit option" where
  "NullRWMutex_rdlock t m = Some ()"

definition NullRWMutex_wrlock :: "nat \<Rightarrow> unit \<Rightarrow> unit option" where
  "NullRWMutex_wrlock t m = Some ()"

definition NullRWMutex_unlock :: "nat \<Rightarrow> unit \<Rightarrow> unit" where
  "NullRWMutex_unlock t m = ()"

section \<open>Scoped locks\<close>

text \<open>
  The templates, over the \<open>lock\<close> and \<open>unlock\<close> of their parameter: the member \<open>locked_\<close> and the
  lock. The read and the write variant differ in the member function they call.
\<close>

definition ScopedLockImpl :: "(nat \<Rightarrow> 'm \<Rightarrow> 'm option) \<Rightarrow> nat \<Rightarrow> 'm \<Rightarrow> (bool \<times> 'm) option" where
  "ScopedLockImpl lock t mutex = (case lock t mutex of None \<Rightarrow> None | Some mutex1 \<Rightarrow> Some (True, mutex1))"

definition ScopedLockImpl_Lock ::
  "(nat \<Rightarrow> 'm \<Rightarrow> 'm option) \<Rightarrow> nat \<Rightarrow> bool \<times> 'm \<Rightarrow> (bool \<times> 'm) option"
where
  "ScopedLockImpl_Lock lock t = (\<lambda>(locked, mutex).
     if \<not> locked then
       (case lock t mutex of None \<Rightarrow> None | Some mutex1 \<Rightarrow> Some (True, mutex1))
     else Some (locked, mutex))"

definition ScopedLockImpl_Unlock :: "(nat \<Rightarrow> 'm \<Rightarrow> 'm) \<Rightarrow> nat \<Rightarrow> bool \<times> 'm \<Rightarrow> bool \<times> 'm" where
  "ScopedLockImpl_Unlock unlock t = (\<lambda>(locked, mutex).
     if locked then (False, unlock t mutex) else (locked, mutex))"

definition destroy_ScopedLockImpl :: "(nat \<Rightarrow> 'm \<Rightarrow> 'm) \<Rightarrow> nat \<Rightarrow> bool \<times> 'm \<Rightarrow> 'm" where
  "destroy_ScopedLockImpl unlock t lk = snd (ScopedLockImpl_Unlock unlock t lk)"

definition ReadScopedLockImpl :: "(nat \<Rightarrow> 'm \<Rightarrow> 'm option) \<Rightarrow> nat \<Rightarrow> 'm \<Rightarrow> (bool \<times> 'm) option" where
  "ReadScopedLockImpl rdlock t mutex =
     (case rdlock t mutex of None \<Rightarrow> None | Some mutex1 \<Rightarrow> Some (True, mutex1))"

definition ReadScopedLockImpl_Lock ::
  "(nat \<Rightarrow> 'm \<Rightarrow> 'm option) \<Rightarrow> nat \<Rightarrow> bool \<times> 'm \<Rightarrow> (bool \<times> 'm) option"
where
  "ReadScopedLockImpl_Lock rdlock t = (\<lambda>(locked, mutex).
     if \<not> locked then
       (case rdlock t mutex of None \<Rightarrow> None | Some mutex1 \<Rightarrow> Some (True, mutex1))
     else Some (locked, mutex))"

definition ReadScopedLockImpl_Unlock :: "(nat \<Rightarrow> 'm \<Rightarrow> 'm) \<Rightarrow> nat \<Rightarrow> bool \<times> 'm \<Rightarrow> bool \<times> 'm" where
  "ReadScopedLockImpl_Unlock unlock t = (\<lambda>(locked, mutex).
     if locked then (False, unlock t mutex) else (locked, mutex))"

definition destroy_ReadScopedLockImpl :: "(nat \<Rightarrow> 'm \<Rightarrow> 'm) \<Rightarrow> nat \<Rightarrow> bool \<times> 'm \<Rightarrow> 'm" where
  "destroy_ReadScopedLockImpl unlock t lk = snd (ReadScopedLockImpl_Unlock unlock t lk)"

definition WriteScopedLockImpl :: "(nat \<Rightarrow> 'm \<Rightarrow> 'm option) \<Rightarrow> nat \<Rightarrow> 'm \<Rightarrow> (bool \<times> 'm) option" where
  "WriteScopedLockImpl wrlock t mutex =
     (case wrlock t mutex of None \<Rightarrow> None | Some mutex1 \<Rightarrow> Some (True, mutex1))"

definition WriteScopedLockImpl_Lock ::
  "(nat \<Rightarrow> 'm \<Rightarrow> 'm option) \<Rightarrow> nat \<Rightarrow> bool \<times> 'm \<Rightarrow> (bool \<times> 'm) option"
where
  "WriteScopedLockImpl_Lock wrlock t = (\<lambda>(locked, mutex).
     if \<not> locked then
       (case wrlock t mutex of None \<Rightarrow> None | Some mutex1 \<Rightarrow> Some (True, mutex1))
     else Some (locked, mutex))"

definition WriteScopedLockImpl_Unlock :: "(nat \<Rightarrow> 'm \<Rightarrow> 'm) \<Rightarrow> nat \<Rightarrow> bool \<times> 'm \<Rightarrow> bool \<times> 'm" where
  "WriteScopedLockImpl_Unlock unlock t = (\<lambda>(locked, mutex).
     if locked then (False, unlock t mutex) else (locked, mutex))"

definition destroy_WriteScopedLockImpl :: "(nat \<Rightarrow> 'm \<Rightarrow> 'm) \<Rightarrow> nat \<Rightarrow> bool \<times> 'm \<Rightarrow> 'm" where
  "destroy_WriteScopedLockImpl unlock t lk = snd (WriteScopedLockImpl_Unlock unlock t lk)"
section \<open>Threads that use one lock\<close>

text \<open>Which template a scoped object is an instance of, and the members a lock class has.\<close>

datatype scope = Scoped | Read_scoped | Write_scoped

record 'm lock_class =
  lc_scopes :: "scope set"
  lc_new :: 'm
  lc_lock :: "nat \<Rightarrow> 'm \<Rightarrow> 'm option"
  lc_rdlock :: "nat \<Rightarrow> 'm \<Rightarrow> 'm option"
  lc_wrlock :: "nat \<Rightarrow> 'm \<Rightarrow> 'm option"
  lc_unlock :: "nat \<Rightarrow> 'm \<Rightarrow> 'm"

fun scope_new :: "'m lock_class \<Rightarrow> scope \<Rightarrow> nat \<Rightarrow> 'm \<Rightarrow> (bool \<times> 'm) option" where
  "scope_new c Scoped t m = ScopedLockImpl (lc_lock c) t m"
| "scope_new c Read_scoped t m = ReadScopedLockImpl (lc_rdlock c) t m"
| "scope_new c Write_scoped t m = WriteScopedLockImpl (lc_wrlock c) t m"

fun scope_Lock :: "'m lock_class \<Rightarrow> scope \<Rightarrow> nat \<Rightarrow> bool \<times> 'm \<Rightarrow> (bool \<times> 'm) option" where
  "scope_Lock c Scoped t lk = ScopedLockImpl_Lock (lc_lock c) t lk"
| "scope_Lock c Read_scoped t lk = ReadScopedLockImpl_Lock (lc_rdlock c) t lk"
| "scope_Lock c Write_scoped t lk = WriteScopedLockImpl_Lock (lc_wrlock c) t lk"

fun scope_Unlock :: "'m lock_class \<Rightarrow> scope \<Rightarrow> nat \<Rightarrow> bool \<times> 'm \<Rightarrow> bool \<times> 'm" where
  "scope_Unlock c Scoped t lk = ScopedLockImpl_Unlock (lc_unlock c) t lk"
| "scope_Unlock c Read_scoped t lk = ReadScopedLockImpl_Unlock (lc_unlock c) t lk"
| "scope_Unlock c Write_scoped t lk = WriteScopedLockImpl_Unlock (lc_unlock c) t lk"

fun scope_delete :: "'m lock_class \<Rightarrow> scope \<Rightarrow> nat \<Rightarrow> bool \<times> 'm \<Rightarrow> 'm" where
  "scope_delete c Scoped t lk = destroy_ScopedLockImpl (lc_unlock c) t lk"
| "scope_delete c Read_scoped t lk = destroy_ReadScopedLockImpl (lc_unlock c) t lk"
| "scope_delete c Write_scoped t lk = destroy_WriteScopedLockImpl (lc_unlock c) t lk"

definition Mutex_class :: "pthread_lock lock_class" where
  "Mutex_class = \<lparr>lc_scopes = {Scoped}, lc_new = new_Mutex, lc_lock = Mutex_lock,
     lc_rdlock = (\<lambda>_ _. None), lc_wrlock = (\<lambda>_ _. None), lc_unlock = Mutex_unlock\<rparr>"

definition SpinLock_class :: "pthread_lock lock_class" where
  "SpinLock_class = \<lparr>lc_scopes = {Scoped}, lc_new = new_SpinLock, lc_lock = SpinLock_lock,
     lc_rdlock = (\<lambda>_ _. None), lc_wrlock = (\<lambda>_ _. None), lc_unlock = SpinLock_unlock\<rparr>"

definition CASLock_class :: "bool lock_class" where
  "CASLock_class = \<lparr>lc_scopes = {Scoped}, lc_new = new_CASLock, lc_lock = CASLock_lock,
     lc_rdlock = (\<lambda>_ _. None), lc_wrlock = (\<lambda>_ _. None), lc_unlock = CASLock_unlock\<rparr>"

definition RWMutex_class :: "rwlock lock_class" where
  "RWMutex_class = \<lparr>lc_scopes = {Read_scoped, Write_scoped}, lc_new = new_RWMutex,
     lc_lock = (\<lambda>_ _. None), lc_rdlock = RWMutex_rdlock, lc_wrlock = RWMutex_wrlock,
     lc_unlock = RWMutex_unlock\<rparr>"

definition NullMutex_class :: "unit lock_class" where
  "NullMutex_class = \<lparr>lc_scopes = {Scoped}, lc_new = (), lc_lock = NullMutex_lock,
     lc_rdlock = (\<lambda>_ _. None), lc_wrlock = (\<lambda>_ _. None), lc_unlock = NullMutex_unlock\<rparr>"

text \<open>
  A thread has calls to make and at most one scoped object at a time: its template and its
  \<open>locked_\<close>. \<open>Enter\<close> and \<open>Leave\<close> are the constructor and the destructor.
\<close>

datatype lock_call = Enter scope | Relock | Release | Leave

record lock_thread =
  lt_calls :: "lock_call list"
  lt_lock :: "(scope \<times> bool) option"

definition thread_step ::
  "'m lock_class \<Rightarrow> nat \<Rightarrow> 'm \<Rightarrow> lock_thread \<Rightarrow> ('m \<times> lock_thread) option"
where
  "thread_step c t m th =
     (case (lt_calls th, lt_lock th) of
        (Enter k # cs, None) \<Rightarrow>
          (case scope_new c k t m of
             None \<Rightarrow> None
           | Some (locked, m1) \<Rightarrow> Some (m1, \<lparr>lt_calls = cs, lt_lock = Some (k, locked)\<rparr>))
      | (Relock # cs, Some (k, locked)) \<Rightarrow>
          (case scope_Lock c k t (locked, m) of
             None \<Rightarrow> None
           | Some (locked1, m1) \<Rightarrow> Some (m1, \<lparr>lt_calls = cs, lt_lock = Some (k, locked1)\<rparr>))
      | (Release # cs, Some (k, locked)) \<Rightarrow>
          (case scope_Unlock c k t (locked, m) of
             (locked1, m1) \<Rightarrow> Some (m1, \<lparr>lt_calls = cs, lt_lock = Some (k, locked1)\<rparr>))
      | (Leave # cs, Some (k, locked)) \<Rightarrow>
          Some (scope_delete c k t (locked, m), \<lparr>lt_calls = cs, lt_lock = None\<rparr>)
      | _ \<Rightarrow> None)"

text \<open>The threads step in any order.\<close>

inductive lock_step ::
  "'m lock_class \<Rightarrow> 'm \<times> lock_thread list \<Rightarrow> 'm \<times> lock_thread list \<Rightarrow> bool" for c
where
  lock_stepI: "t < length ths \<Longrightarrow> thread_step c t m (ths ! t) = Some (m', th) \<Longrightarrow>
    lock_step c (m, ths) (m', ths[t := th])"

inductive_cases lock_stepE: "lock_step c s s'"

inductive lock_reach ::
  "'m lock_class \<Rightarrow> 'm \<times> lock_thread list \<Rightarrow> 'm \<times> lock_thread list \<Rightarrow> bool" for c s
where
  lock_start: "lock_reach c s s"
| lock_more: "lock_reach c s s' \<Longrightarrow> lock_step c s' s'' \<Longrightarrow> lock_reach c s s''"

text \<open>
  Calls in an order the scopes of the language allow, from a point where a scoped object exists or
  not, with objects the lock class has; the threads at the start.
\<close>

fun scoped_calls :: "'m lock_class \<Rightarrow> bool \<Rightarrow> lock_call list \<Rightarrow> bool" where
  "scoped_calls c inside [] = (\<not> inside)"
| "scoped_calls c inside (Enter k # cs) = (\<not> inside \<and> k \<in> lc_scopes c \<and> scoped_calls c True cs)"
| "scoped_calls c inside (Relock # cs) = (inside \<and> scoped_calls c True cs)"
| "scoped_calls c inside (Release # cs) = (inside \<and> scoped_calls c True cs)"
| "scoped_calls c inside (Leave # cs) = (inside \<and> scoped_calls c False cs)"

definition lock_threads :: "'m lock_class \<Rightarrow> lock_call list list \<Rightarrow> 'm \<times> lock_thread list" where
  "lock_threads c css = (lc_new c, map (\<lambda>cs. \<lparr>lt_calls = cs, lt_lock = None\<rparr>) css)"

section \<open>What a lock promises\<close>

text \<open>Who holds the lock, and how, according to \<open>locked_\<close>.\<close>

definition holders :: "lock_thread list \<Rightarrow> nat \<Rightarrow> scope option" where
  "holders ths t =
     (if t < length ths then
        (case lt_lock (ths ! t) of
           Some (k, locked) \<Rightarrow> if locked then Some k else None
         | None \<Rightarrow> None)
      else None)"

definition compatible :: "scope \<Rightarrow> (nat \<Rightarrow> scope option) \<Rightarrow> bool" where
  "compatible k H \<longleftrightarrow> (\<forall>u j. H u = Some j \<longrightarrow> k = Read_scoped \<and> j = Read_scoped)"

definition acquire :: "'m lock_class \<Rightarrow> scope \<Rightarrow> nat \<Rightarrow> 'm \<Rightarrow> 'm option" where
  "acquire c k = (case k of Scoped \<Rightarrow> lc_lock c | Read_scoped \<Rightarrow> lc_rdlock c | Write_scoped \<Rightarrow> lc_wrlock c)"

text \<open>The three templates do the same around the member function they call.\<close>

lemma scope_simps:
  "scope_new c k t m = map_option (Pair True) (acquire c k t m)"
  "scope_Lock c k t (locked, m) = (if locked then Some (locked, m) else map_option (Pair True) (acquire c k t m))"
  "scope_Unlock c k t (locked, m) = (if locked then (False, lc_unlock c t m) else (locked, m))"
  "scope_delete c k t (locked, m) = (if locked then lc_unlock c t m else m)"
  by (cases k; simp add: acquire_def ScopedLockImpl_def ReadScopedLockImpl_def WriteScopedLockImpl_def
      ScopedLockImpl_Lock_def ReadScopedLockImpl_Lock_def WriteScopedLockImpl_Lock_def
      ScopedLockImpl_Unlock_def ReadScopedLockImpl_Unlock_def WriteScopedLockImpl_Unlock_def
      destroy_ScopedLockImpl_def destroy_ReadScopedLockImpl_def destroy_WriteScopedLockImpl_def
      split: option.splits)+

definition hold :: "lock_thread \<Rightarrow> scope option" where
  "hold th = (case lt_lock th of Some (k, locked) \<Rightarrow> if locked then Some k else None | None \<Rightarrow> None)"

lemma holders_update: "t < length ths \<Longrightarrow> holders (ths[t := th]) = (holders ths)(t := hold th)"
  by (rule ext) (simp add: holders_def hold_def)

lemma holders_nth: "t < length ths \<Longrightarrow> holders ths t = hold (ths ! t)"
  by (simp add: holders_def hold_def)

text \<open>What a step does: a call gets the lock, gives it up, or changes nothing about it.\<close>

lemma thread_step_cases:
  assumes "thread_step c t m th = Some (m', th')"
    and "scoped_calls c (lt_lock th \<noteq> None) (lt_calls th)"
    and "\<And>k b. lt_lock th = Some (k, b) \<Longrightarrow> k \<in> lc_scopes c"
  obtains (got) k where "hold th = None" "hold th' = Some k" "k \<in> lc_scopes c" "acquire c k t m = Some m'"
      "lt_lock th' = Some (k, True)"
    | (gave) k where "hold th = Some k" "hold th' = None" "m' = lc_unlock c t m"
    | (kept) "hold th' = hold th" "m' = m"
  using assms
  by (auto simp: thread_step_def scope_simps hold_def split: list.splits lock_call.splits option.splits
      prod.splits if_splits)

lemma thread_step_calls:
  assumes "thread_step c t m th = Some (m', th')"
    and "scoped_calls c (lt_lock th \<noteq> None) (lt_calls th)"
    and "\<And>k b. lt_lock th = Some (k, b) \<Longrightarrow> k \<in> lc_scopes c"
  shows "scoped_calls c (lt_lock th' \<noteq> None) (lt_calls th')"
    and "Suc (length (lt_calls th')) = length (lt_calls th)"
    and "lt_lock th' = Some (k, b) \<Longrightarrow> k \<in> lc_scopes c"
  using assms
  by (auto simp: thread_step_def scope_simps hold_def ex_bool_eq split: list.splits lock_call.splits option.splits
      prod.splits if_splits)

text \<open>Every step makes one call, so a run has at most as many steps as there are calls.\<close>

definition calls_left :: "'m \<times> lock_thread list \<Rightarrow> nat" where
  "calls_left = (\<lambda>(m, ths). sum_list (map (\<lambda>th. length (lt_calls th)) ths))"

text \<open>
  The contract: \<open>rep m H\<close> says that the lock \<open>m\<close> stands for the holders \<open>H\<close>. A lock is only got
  when the holders allow it, it can be got when nobody holds it, and unlocking ends one hold.
\<close>

locale lockable =
  fixes c :: "'m lock_class" and rep :: "'m \<Rightarrow> (nat \<Rightarrow> scope option) \<Rightarrow> bool"
  assumes rep_new: "rep (lc_new c) (\<lambda>_. None)"
    and rep_acquire: "rep m H \<Longrightarrow> H t = None \<Longrightarrow> k \<in> lc_scopes c \<Longrightarrow> acquire c k t m = Some m' \<Longrightarrow>
      compatible k H \<and> rep m' (H(t := Some k))"
    and rep_free: "rep m (\<lambda>_. None) \<Longrightarrow> k \<in> lc_scopes c \<Longrightarrow> acquire c k t m \<noteq> None"
    and rep_unlock: "rep m H \<Longrightarrow> H t = Some k \<Longrightarrow> rep (lc_unlock c t m) (H(t := None))"
begin

definition lock_inv :: "'m \<times> lock_thread list \<Rightarrow> bool" where
  "lock_inv = (\<lambda>(m, ths).
     rep m (holders ths) \<and>
     (\<forall>th \<in> set ths. scoped_calls c (lt_lock th \<noteq> None) (lt_calls th) \<and>
        (\<forall>k b. lt_lock th = Some (k, b) \<longrightarrow> k \<in> lc_scopes c)) \<and>
     (\<forall>t u j k. t \<noteq> u \<longrightarrow> holders ths t = Some j \<longrightarrow> holders ths u = Some k \<longrightarrow>
        j = Read_scoped \<and> k = Read_scoped))"

lemma lock_inv_step:
  assumes inv: "lock_inv s" and step: "lock_step c s s'"
  shows "lock_inv s'"
proof -
  obtain t ths m m' th where s: "s = (m, ths)" "s' = (m', ths[t := th])" and t: "t < length ths"
    and ts: "thread_step c t m (ths ! t) = Some (m', th)"
    using step by (rule lock_stepE)
  have rep: "rep m (holders ths)" using inv s by (simp add: lock_inv_def)
  have thr: "scoped_calls c (lt_lock u \<noteq> None) (lt_calls u)"
      "lt_lock u = Some (k, b) \<Longrightarrow> k \<in> lc_scopes c" if "u \<in> set ths" for u k b
    using inv s that by (auto simp: lock_inv_def)
  have excl: "j = Read_scoped \<and> k = Read_scoped"
    if "u \<noteq> v" "holders ths u = Some j" "holders ths v = Some k" for u v j k
    using inv s that by (auto simp: lock_inv_def)
  have mem: "ths ! t \<in> set ths" using t by simp
  note calls = thread_step_calls [OF ts thr(1) [OF mem] thr(2) [OF mem]]
  have threads: "\<forall>u \<in> set (ths[t := th]). scoped_calls c (lt_lock u \<noteq> None) (lt_calls u) \<and>
      (\<forall>k b. lt_lock u = Some (k, b) \<longrightarrow> k \<in> lc_scopes c)"
  proof
    fix u assume "u \<in> set (ths[t := th])"
    with set_update_subset_insert [of ths t th] have "u = th \<or> u \<in> set ths" by auto
    then show "scoped_calls c (lt_lock u \<noteq> None) (lt_calls u) \<and>
      (\<forall>k b. lt_lock u = Some (k, b) \<longrightarrow> k \<in> lc_scopes c)"
      using calls(1,3) thr by (elim disjE) simp_all
  qed
  have H: "holders (ths[t := th]) = (holders ths)(t := hold th)" by (rule holders_update [OF t])
  have Ht: "holders ths t = hold (ths ! t)" by (rule holders_nth [OF t])
  consider k where "hold (ths ! t) = None" "hold th = Some k" "k \<in> lc_scopes c" "acquire c k t m = Some m'"
    | k where "hold (ths ! t) = Some k" "hold th = None" "m' = lc_unlock c t m"
    | "hold th = hold (ths ! t)" "m' = m"
    by (rule thread_step_cases [OF ts thr(1) [OF mem] thr(2) [OF mem]]; blast)
  then have "rep m' ((holders ths)(t := hold th)) \<and>
    (\<forall>u v j k. u \<noteq> v \<longrightarrow> ((holders ths)(t := hold th)) u = Some j \<longrightarrow>
      ((holders ths)(t := hold th)) v = Some k \<longrightarrow> j = Read_scoped \<and> k = Read_scoped)"
  proof cases
    case (1 k)
    from rep_acquire [OF rep _ 1(3,4)] Ht 1(1)
    have "compatible k (holders ths)" "rep m' ((holders ths)(t := Some k))" by simp_all
    with 1(2) excl show ?thesis by (auto simp: compatible_def)
  next
    case (2 k)
    from rep_unlock [OF rep, of t k] Ht 2(1,3) have "rep m' ((holders ths)(t := None))" by simp
    with 2(2) excl show ?thesis by auto
  next
    case 3
    then have "(holders ths)(t := hold th) = holders ths" using Ht by (simp add: fun_upd_idem)
    with 3(2) rep excl show ?thesis by simp
  qed
  with threads show ?thesis by (simp add: lock_inv_def s H)
qed

lemma lock_inv_start:
  assumes "list_all (scoped_calls c False) css"
  shows "lock_inv (lock_threads c css)"
proof -
  have "holders (map (\<lambda>cs. \<lparr>lt_calls = cs, lt_lock = None\<rparr>) css) = (\<lambda>_. None)"
    by (rule ext) (simp add: holders_def)
  with assms rep_new show ?thesis by (auto simp: lock_inv_def lock_threads_def list_all_iff)
qed

lemma lock_inv_reach: "lock_reach c s s' \<Longrightarrow> lock_inv s \<Longrightarrow> lock_inv s'"
  by (induction rule: lock_reach.induct) (auto intro: lock_inv_step)

text \<open>A thread that holds the lock can always go on, and so can one that wants a free lock.\<close>

lemma holder_steps:
  assumes "hold th = Some k" and "scoped_calls c (lt_lock th \<noteq> None) (lt_calls th)"
  shows "thread_step c t m th \<noteq> None"
proof -
  have lock: "lt_lock th = Some (k, True)"
    using assms(1) by (auto simp: hold_def split: option.splits if_splits)
  with assms(2) obtain call cs where calls: "lt_calls th = call # cs"
    by (cases "lt_calls th") auto
  with lock assms(2) show ?thesis by (cases call) (simp_all add: thread_step_def scope_simps)
qed

lemma free_steps:
  assumes "rep m (\<lambda>_. None)" and "scoped_calls c (lt_lock th \<noteq> None) (lt_calls th)"
    and "\<And>k b. lt_lock th = Some (k, b) \<Longrightarrow> k \<in> lc_scopes c" and "lt_calls th \<noteq> []"
  shows "thread_step c t m th \<noteq> None"
proof -
  have acq: "\<exists>m'. acquire c k t m = Some m'" if "k \<in> lc_scopes c" for k
    using rep_free [OF assms(1) that] by blast
  obtain call cs where calls: "lt_calls th = call # cs" using assms(4) by (cases "lt_calls th") auto
  show ?thesis
  proof (cases "lt_lock th")
    case None
    with assms(2) calls obtain k where "call = Enter k" "k \<in> lc_scopes c" by (cases call) auto
    with None calls acq [of k] show ?thesis by (auto simp: thread_step_def scope_simps)
  next
    case (Some lk)
    then obtain k locked where lk: "lt_lock th = Some (k, locked)" by (cases lk) auto
    with assms(2) calls acq [OF assms(3) [OF lk]] show ?thesis
      by (cases call) (auto simp: thread_step_def scope_simps)
  qed
qed

lemma stuck_is_done:
  assumes inv: "lock_inv (m, ths)" and stuck: "\<nexists>s'. lock_step c (m, ths) s'"
  shows "\<forall>th \<in> set ths. lt_calls th = [] \<and> lt_lock th = None" and "rep m (\<lambda>_. None)"
proof -
  have rep: "rep m (holders ths)" using inv by (simp add: lock_inv_def)
  have thr: "scoped_calls c (lt_lock u \<noteq> None) (lt_calls u)"
      "lt_lock u = Some (k, b) \<Longrightarrow> k \<in> lc_scopes c" if "u \<in> set ths" for u k b
    using inv that by (auto simp: lock_inv_def)
  have none: "thread_step c t m (ths ! t) = None" if "t < length ths" for t
    using stuck lock_stepI [OF that, of c m] by (cases "thread_step c t m (ths ! t)") auto
  have free: "holders ths = (\<lambda>_. None)"
  proof
    fix t
    show "holders ths t = None"
    proof (cases "t < length ths")
      case True
      with none [OF True] holder_steps [OF _ thr(1)] show ?thesis
        by (cases "hold (ths ! t)") (auto simp: holders_nth)
    qed (simp add: holders_def)
  qed
  with rep show "rep m (\<lambda>_. None)" by simp
  show "\<forall>th \<in> set ths. lt_calls th = [] \<and> lt_lock th = None"
  proof
    fix th assume th: "th \<in> set ths"
    then obtain t where t: "t < length ths" "th = ths ! t" by (auto simp: in_set_conv_nth)
    have "lt_calls th = []"
    proof (rule ccontr)
      assume "lt_calls th \<noteq> []"
      moreover have "rep m (\<lambda>_. None)" using rep free by simp
      ultimately have "thread_step c t m th \<noteq> None"
        using thr(1) [OF th] thr(2) [OF th] by (intro free_steps) auto
      with none [OF t(1)] t(2) show False by simp
    qed
    with thr(1) [OF th] show "lt_calls th = [] \<and> lt_lock th = None" by (cases "lt_lock th") auto
  qed
qed

lemma calls_left_step:
  assumes inv: "lock_inv s" and step: "lock_step c s s'"
  shows "Suc (calls_left s') = calls_left s"
proof -
  obtain t ths m m' th where s: "s = (m, ths)" "s' = (m', ths[t := th])" and t: "t < length ths"
    and ts: "thread_step c t m (ths ! t) = Some (m', th)"
    using step by (rule lock_stepE)
  have mem: "ths ! t \<in> set ths" using t by simp
  have "Suc (length (lt_calls th)) = length (lt_calls (ths ! t))"
    by (rule thread_step_calls(2) [OF ts]) (use inv s mem in \<open>auto simp: lock_inv_def\<close>)
  moreover have "length (lt_calls (ths ! t)) \<le> sum_list (map (\<lambda>th. length (lt_calls th)) ths)"
    using t by (intro member_le_sum_list) auto
  ultimately show ?thesis
    using t by (simp add: calls_left_def s map_update sum_list_update)
qed

text \<open>From any reachable state the threads can be run to the end.\<close>

lemma runs_to_end:
  assumes "lock_inv s"
  shows "\<exists>s'. lock_reach c s s' \<and> (\<nexists>s''. lock_step c s' s'')"
  using assms
proof (induction "calls_left s" arbitrary: s rule: less_induct)
  case less
  show ?case
  proof (cases "\<exists>s1. lock_step c s s1")
    case True
    then obtain s1 where step: "lock_step c s s1" by blast
    with less calls_left_step lock_inv_step obtain s' where r: "lock_reach c s1 s'" "\<nexists>s''. lock_step c s' s''"
      by (metis lessI)
    from r(1) have "lock_reach c s s'"
      by induction (auto intro: lock_more [OF lock_start step] lock_more)
    with r(2) show ?thesis by blast
  next
    case False
    then show ?thesis using lock_start by blast
  qed
qed

end

section \<open>The locks of the library keep it\<close>

definition pthread_rep :: "pthread_lock \<Rightarrow> (nat \<Rightarrow> scope option) \<Rightarrow> bool" where
  "pthread_rep m H \<longleftrightarrow> H = (case m of None \<Rightarrow> (\<lambda>_. None) | Some t \<Rightarrow> (\<lambda>_. None)(t := Some Scoped))"

definition flag_rep :: "bool \<Rightarrow> (nat \<Rightarrow> scope option) \<Rightarrow> bool" where
  "flag_rep flag H \<longleftrightarrow> (if flag then \<exists>t. H = (\<lambda>_. None)(t := Some Scoped) else H = (\<lambda>_. None))"

fun rw_rep :: "rwlock \<Rightarrow> (nat \<Rightarrow> scope option) \<Rightarrow> bool" where
  "rw_rep (Readers rs) H \<longleftrightarrow> distinct rs \<and> H = (\<lambda>t. if t \<in> set rs then Some Read_scoped else None)"
| "rw_rep (Writer w) H \<longleftrightarrow> H = (\<lambda>_. None)(w := Some Write_scoped)"

text \<open>The spin loop ends exactly when the flag is clear, at the first round.\<close>

lemma CASLock_spin_clear: "CASLock_spin False = Some True"
  by (subst CASLock_spin.simps) (simp add: test_and_set_def)

lemma CASLock_spin_set: "CASLock_spin True = None"
proof (cases "CASLock_spin True")
  case (Some b)
  have "\<not> True"
    by (rule CASLock_spin.raw_induct [where P = "\<lambda>flag b. \<not> flag", OF _ Some])
      (auto simp: test_and_set_def split: if_splits)
  then show ?thesis by simp
qed simp

lemma CASLock_lock_eq: "CASLock_lock t flag = (if flag then None else Some True)"
  by (cases flag) (simp_all add: CASLock_lock_def CASLock_spin_clear CASLock_spin_set)

interpretation mutex: lockable Mutex_class pthread_rep
  by unfold_locales
    (auto simp: Mutex_class_def pthread_rep_def acquire_def new_Mutex_def Mutex_lock_def Mutex_unlock_def
      compatible_def fun_eq_iff split: option.splits if_splits)

interpretation spin: lockable SpinLock_class pthread_rep
  by unfold_locales
    (auto simp: SpinLock_class_def pthread_rep_def acquire_def new_SpinLock_def SpinLock_lock_def
      SpinLock_unlock_def compatible_def fun_eq_iff split: option.splits if_splits)

interpretation cas: lockable CASLock_class flag_rep
proof unfold_locales
  show "flag_rep (lc_new CASLock_class) (\<lambda>_. None)"
    by (simp add: CASLock_class_def new_CASLock_def flag_rep_def)
  show "compatible k H \<and> flag_rep m' (H(t := Some k))"
    if "flag_rep m H" "H t = None" "k \<in> lc_scopes CASLock_class" "acquire CASLock_class k t m = Some m'"
    for m H t k m'
    using that by (auto simp: CASLock_class_def acquire_def CASLock_lock_eq flag_rep_def compatible_def split: if_splits)
  show "acquire CASLock_class k t m \<noteq> None"
    if rep: "flag_rep m (\<lambda>_. None)" and k: "k \<in> lc_scopes CASLock_class" for m k t
  proof -
    have "(\<lambda>_. None) \<noteq> (\<lambda>_. None)(u := Some Scoped)" for u :: nat by (metis fun_upd_same option.distinct(1))
    with rep have "\<not> m" by (auto simp: flag_rep_def split: if_splits)
    with k show ?thesis by (simp add: CASLock_class_def acquire_def CASLock_lock_eq)
  qed
  show "flag_rep (lc_unlock CASLock_class t m) (H(t := None))" if "flag_rep m H" "H t = Some k" for m H t k
    using that
    by (auto simp: CASLock_class_def CASLock_unlock_def flag_rep_def intro!: ext split: if_splits)
qed

interpretation rw: lockable RWMutex_class rw_rep
proof unfold_locales
  show "rw_rep (lc_new RWMutex_class) (\<lambda>_. None)"
    by (simp add: RWMutex_class_def new_RWMutex_def)
  show "compatible k H \<and> rw_rep m' (H(t := Some k))"
    if "rw_rep m H" "H t = None" "k \<in> lc_scopes RWMutex_class" "acquire RWMutex_class k t m = Some m'"
    for m H t k m'
    using that
    by (cases m) (auto simp: RWMutex_class_def acquire_def compatible_def intro!: ext split: if_splits)
  show "acquire RWMutex_class k t m \<noteq> None"
    if rep: "rw_rep m (\<lambda>_. None)" and k: "k \<in> lc_scopes RWMutex_class" for m k t
  proof (cases m)
    case (Readers rs)
    with rep have "rs = []" by (cases rs) (auto simp: fun_eq_iff split: if_splits)
    with k Readers show ?thesis by (auto simp: RWMutex_class_def acquire_def)
  next
    case (Writer w)
    with rep have "(\<lambda>_. None) = (\<lambda>_. None)(w := Some Write_scoped)" by simp
    then show ?thesis by (metis fun_upd_same option.distinct(1))
  qed
  show "rw_rep (lc_unlock RWMutex_class t m) (H(t := None))" if "rw_rep m H" "H t = Some k" for m H t k
    using that by (cases m) (auto simp: RWMutex_class_def intro!: ext split: if_splits)
qed

end
