(* ===== verification/Log_Threads.thy ===== *)
theory Log_Threads
  imports Log_Facts Locks
begin

text \<open>
  The logging system used by several threads (\<open>src/src/log.cpp\<close> with the locks of
  \<open>src/src/mutex.h\<close>). What a thread has still to do is a list of instructions: the calls of
  its code, the scoped locks in force, and the lines between them that read or write what threads
  share. A call is replaced by the instructions of its body when it is reached; a step of the
  system is one instruction of one thread.
\<close>

section \<open>Instructions\<close>

text \<open>The spin locks: of the manager, of each logger and of each appender.\<close>

datatype log_lock = Manager_mutex | Logger_mutex nat | Appender_mutex nat

text \<open>
  The calls client code makes. Loggers and appenders are named by their addresses; the two
  macros log to a logger that is at hand, or to the one \<open>ZCS_LOG_NAME\<close> gets.
\<close>

datatype log_call =
    Do_Log nat level log_event
  | Do_AddAppender nat nat
  | Do_DelAppender nat nat
  | Do_ClearAppender nat
  | Do_SetFormatter nat string
  | Do_SetFormatter_ptr nat "log_formatter option"
  | Do_GetFormatter nat
  | Do_SetLevel nat level
  | Do_appender_Log nat level log_event
  | Do_appender_SetFormatter nat "log_formatter option"
  | Do_appender_GetFormatter nat
  | Do_appender_SetLevel nat level
  | Do_Reopen nat
  | Do_GetLogger string
  | Do_ZCS_LEVEL nat level "32 word" string
  | Do_ZCS_LEVEL_name string level "32 word" string

text \<open>
  The lines of the bodies, under the locks around them. \<open>Put_cout a\<close> and \<open>Put_file a\<close> are the turns of
  the loop over the items of the formatter of the appender \<open>a\<close>: a thread is in front of one of them
  exactly while it is inside \<open>formatter_->Format\<close>.
\<close>

datatype instr =
    Acquire log_lock | Release log_lock
  | Call log_call
  | Loop_appenders nat level log_event
  | Check_time nat log_event
  | Reopen_file nat
  | Set_last_time nat "64 word"
  | Format_cout nat log_event
  | Put_cout nat log_event format_item
  | Format_file nat log_event
  | Put_file nat log_event format_item
  | Check_stream nat
  | Read_appender_formatter nat
  | Inherit_if_null nat nat
  | Push_appender nat nat
  | Erase_appender nat nat
  | Clear_appenders nat
  | Store_formatter nat "log_formatter option"
  | Loop_inherit nat
  | Inherit_check nat nat
  | Inherit_assign nat nat
  | Read_formatter nat
  | Store_appender_formatter nat "log_formatter option"
  | Find_logger string
  | Macro_log level "32 word" string

definition locked :: "log_lock \<Rightarrow> instr list \<Rightarrow> instr list" where
  "locked k is = Acquire k # is @ [Release k]"

text \<open>What the calls of a thread have returned last.\<close>

record regs =
  rg_logger :: nat
  rg_formatter :: "log_formatter option"

section \<open>One instruction\<close>

text \<open>The body of a call, as far as the call itself reads nothing that is shared.\<close>

definition Logger_Log_code :: "nat \<Rightarrow> level \<Rightarrow> log_event \<Rightarrow> instr list" where
  "Logger_Log_code l lvl e = locked (Logger_mutex l) [Loop_appenders l lvl e]"

definition Logger_AddAppender_code :: "nat \<Rightarrow> nat \<Rightarrow> instr list" where
  "Logger_AddAppender_code l a =
     locked (Logger_mutex l)
       (locked (Appender_mutex a) [Read_appender_formatter a] @ [Inherit_if_null a l, Push_appender l a])"

definition Logger_DelAppender_code :: "nat \<Rightarrow> nat \<Rightarrow> instr list" where
  "Logger_DelAppender_code l a = locked (Logger_mutex l) [Erase_appender l a]"

definition Logger_ClearAppender_code :: "nat \<Rightarrow> instr list" where
  "Logger_ClearAppender_code l = locked (Logger_mutex l) [Clear_appenders l]"

definition Logger_SetFormatter_ptr_code :: "nat \<Rightarrow> log_formatter option \<Rightarrow> instr list" where
  "Logger_SetFormatter_ptr_code l f = locked (Logger_mutex l) [Store_formatter l f, Loop_inherit l]"

definition Logger_GetFormatter_code :: "nat \<Rightarrow> instr list" where
  "Logger_GetFormatter_code l = locked (Logger_mutex l) [Read_formatter l]"

definition StdoutLogAppender_Log_code :: "nat \<Rightarrow> log_event \<Rightarrow> instr list" where
  "StdoutLogAppender_Log_code a e = locked (Appender_mutex a) [Format_cout a e]"

definition FileLogAppender_Log_code :: "nat \<Rightarrow> log_event \<Rightarrow> instr list" where
  "FileLogAppender_Log_code a e =
     Check_time a e # locked (Appender_mutex a) [Format_file a e, Check_stream a]"

definition FileLogAppender_Reopen_code :: "nat \<Rightarrow> instr list" where
  "FileLogAppender_Reopen_code a = locked (Appender_mutex a) [Reopen_file a]"

definition LogAppender_SetFormatter_code :: "nat \<Rightarrow> log_formatter option \<Rightarrow> instr list" where
  "LogAppender_SetFormatter_code a f = locked (Appender_mutex a) [Store_appender_formatter a f]"

definition LogAppender_GetFormatter_code :: "nat \<Rightarrow> instr list" where
  "LogAppender_GetFormatter_code a = locked (Appender_mutex a) [Read_appender_formatter a]"

definition LoggerManager_GetLogger_code :: "string \<Rightarrow> instr list" where
  "LoggerManager_GetLogger_code name = locked Manager_mutex [Find_logger name]"

text \<open>
  A call reached by a thread: the instructions that replace it. Calls through a pointer to no
  object crash; \<open>SetFormatter\<close> parses and reports outside the lock, and the two \<open>SetLevel\<close> take
  no lock at all.
\<close>

fun call_step ::
  "log_env \<Rightarrow> log_call \<Rightarrow> regs \<times> log_sys \<Rightarrow> (instr list, regs \<times> log_sys) result"
where
  "call_step env (Do_Log l lvl e) (rg, s) =
     (if length (loggers s) \<le> l then Crash NullDeref else Ok (Logger_Log_code l lvl e) (rg, s))"
| "call_step env (Do_AddAppender l a) (rg, s) =
     (if length (loggers s) \<le> l \<or> length (appenders s) \<le> a then Crash NullDeref
      else Ok (Logger_AddAppender_code l a) (rg, s))"
| "call_step env (Do_DelAppender l a) (rg, s) =
     (if length (loggers s) \<le> l then Crash NullDeref else Ok (Logger_DelAppender_code l a) (rg, s))"
| "call_step env (Do_ClearAppender l) (rg, s) =
     (if length (loggers s) \<le> l then Crash NullDeref else Ok (Logger_ClearAppender_code l) (rg, s))"
| "call_step env (Do_SetFormatter l format) (rg, s) =
     (if length (loggers s) \<le> l then Crash NullDeref
      else
        let new_format = new_LogFormatter format
        in if fmt_error new_format then
             Ok [] (rg, print_cout s (''Logger SetFormatter name='' @ lg_name (loggers s ! l) @
                          '' value='' @ format @ '' invalid formatter'' @ [CHR 0x0A]))
           else Ok (Logger_SetFormatter_ptr_code l (Some new_format)) (rg, s))"
| "call_step env (Do_SetFormatter_ptr l f) (rg, s) =
     (if length (loggers s) \<le> l then Crash NullDeref else Ok (Logger_SetFormatter_ptr_code l f) (rg, s))"
| "call_step env (Do_GetFormatter l) (rg, s) =
     (if length (loggers s) \<le> l then Crash NullDeref else Ok (Logger_GetFormatter_code l) (rg, s))"
| "call_step env (Do_SetLevel l lvl) (rg, s) =
     (if length (loggers s) \<le> l then Crash NullDeref
      else Ok [] (rg, update_logger l (\<lambda>lg. lg\<lparr>lg_level := lvl\<rparr>) s))"
| "call_step env (Do_appender_Log a lvl e) (rg, s) =
     (if length (appenders s) \<le> a then Crash NullDeref
      else case ap_class (appenders s ! a) of
        StdoutLogAppender \<Rightarrow> Ok (StdoutLogAppender_Log_code a e) (rg, s)
      | FileLogAppender fn st lt \<Rightarrow> Ok (FileLogAppender_Log_code a e) (rg, s))"
| "call_step env (Do_appender_SetFormatter a f) (rg, s) =
     (if length (appenders s) \<le> a then Crash NullDeref
      else Ok (LogAppender_SetFormatter_code a f) (rg, s))"
| "call_step env (Do_appender_GetFormatter a) (rg, s) =
     (if length (appenders s) \<le> a then Crash NullDeref
      else Ok (LogAppender_GetFormatter_code a) (rg, s))"
| "call_step env (Do_appender_SetLevel a lvl) (rg, s) =
     (if length (appenders s) \<le> a then Crash NullDeref
      else Ok [] (rg, LogAppender_SetLevel a lvl s))"
| "call_step env (Do_Reopen a) (rg, s) =
     (if length (appenders s) \<le> a then Crash NullDeref
      else Ok (FileLogAppender_Reopen_code a) (rg, s))"
| "call_step env (Do_GetLogger name) (rg, s) = Ok (LoggerManager_GetLogger_code name) (rg, s)"
| "call_step env (Do_ZCS_LEVEL l lvl line msg) (rg, s) =
     (let e = new_LogEvent env l lvl line (env_clock env (ticks s))
      in Ok [Call (Do_Log l lvl (e\<lparr>ev_ss := ev_ss e @ msg\<rparr>))] (rg, s\<lparr>ticks := Suc (ticks s)\<rparr>))"
| "call_step env (Do_ZCS_LEVEL_name name lvl line msg) (rg, s) =
     Ok [Call (Do_GetLogger name), Macro_log lvl line msg] (rg, s)"

text \<open>The lines. The loops run over the lists they find, which the lock around them protects.\<close>

fun instr_step ::
  "log_env \<Rightarrow> instr \<Rightarrow> regs \<times> log_sys \<Rightarrow> (instr list, regs \<times> log_sys) result"
where
  "instr_step env (Acquire k) st = Ok [] st"
| "instr_step env (Release k) st = Ok [] st"
| "instr_step env (Call c) st = call_step env c st"
| "instr_step env (Loop_appenders l lvl e) (rg, s) =
     (if lg_appenders (loggers s ! l) \<noteq> [] then
        Ok (map (\<lambda>a. Call (Do_appender_Log a lvl e)) (lg_appenders (loggers s ! l))) (rg, s)
      else
        (case lg_root (loggers s ! l) of
           None \<Rightarrow> Crash NullDeref
         | Some r \<Rightarrow> Ok [Call (Do_Log r lvl e)] (rg, s)))"
| "instr_step env (Check_time a e) (rg, s) =
     (case ap_class (appenders s ! a) of
        StdoutLogAppender \<Rightarrow> Ok [] (rg, s)
      | FileLogAppender fn st lt \<Rightarrow>
          if lt + 3 \<le> ev_time e then Ok [Call (Do_Reopen a), Set_last_time a (ev_time e)] (rg, s)
          else Ok [] (rg, s))"
| "instr_step env (Reopen_file a) (rg, s) = Ok [] (rg, snd (FileLogAppender_Reopen env a s))"
| "instr_step env (Set_last_time a now) (rg, s) =
     Ok [] (rg, update_appender a
        (\<lambda>ap. case ap_class ap of
           FileLogAppender fn st lt \<Rightarrow> ap\<lparr>ap_class := FileLogAppender fn st now\<rparr>
         | StdoutLogAppender \<Rightarrow> ap) s)"
| "instr_step env (Format_cout a e) (rg, s) =
     (case ap_formatter (appenders s ! a) of
        None \<Rightarrow> Crash NullDeref
      | Some f \<Rightarrow> Ok (map (Put_cout a e) (fmt_items f)) (rg, s))"
| "instr_step env (Put_cout a e it) (rg, s) =
     (case FormatItem_Format (env_time_text env) (logger_name s) e it of
        None \<Rightarrow> Crash NullDeref
      | Some t \<Rightarrow> Ok [] (rg, print_cout s t))"
| "instr_step env (Format_file a e) (rg, s) =
     (case ap_formatter (appenders s ! a) of
        None \<Rightarrow> Crash NullDeref
      | Some f \<Rightarrow> Ok (map (Put_file a e) (fmt_items f)) (rg, s))"
| "instr_step env (Put_file a e it) (rg, s) =
     (case FormatItem_Format (env_time_text env) (logger_name s) e it of
        None \<Rightarrow> Crash NullDeref
      | Some t \<Rightarrow> Ok [] (rg, file_put env a s t))"
| "instr_step env (Check_stream a) (rg, s) =
     Ok [] (rg, if file_good a s then s else print_cout s (''error'' @ [CHR 0x0A]))"
| "instr_step env (Read_appender_formatter a) (rg, s) =
     Ok [] (rg\<lparr>rg_formatter := LogAppender_GetFormatter a s\<rparr>, s)"
| "instr_step env (Inherit_if_null a l) (rg, s) =
     Ok (if rg_formatter rg = None then [Inherit_assign a l] else []) (rg, s)"
| "instr_step env (Push_appender l a) (rg, s) =
     Ok [] (rg, update_logger l (\<lambda>lg. lg\<lparr>lg_appenders := lg_appenders lg @ [a]\<rparr>) s)"
| "instr_step env (Erase_appender l a) (rg, s) =
     Ok [] (rg, update_logger l (\<lambda>lg. lg\<lparr>lg_appenders := erase_first a (lg_appenders lg)\<rparr>) s)"
| "instr_step env (Clear_appenders l) (rg, s) =
     Ok [] (rg, update_logger l (\<lambda>lg. lg\<lparr>lg_appenders := []\<rparr>) s)"
| "instr_step env (Store_formatter l f) (rg, s) =
     Ok [] (rg, update_logger l (\<lambda>lg. lg\<lparr>lg_formatter := f\<rparr>) s)"
| "instr_step env (Loop_inherit l) (rg, s) =
     Ok (map (\<lambda>a. Inherit_check a l) (lg_appenders (loggers s ! l))) (rg, s)"
| "instr_step env (Inherit_check a l) (rg, s) =
     Ok (if \<not> ap_has_formatter (appenders s ! a) then [Inherit_assign a l] else []) (rg, s)"
| "instr_step env (Inherit_assign a l) (rg, s) =
     Ok [] (rg, update_appender a (\<lambda>ap. ap\<lparr>ap_formatter := lg_formatter (loggers s ! l)\<rparr>) s)"
| "instr_step env (Read_formatter l) (rg, s) =
     Ok [] (rg\<lparr>rg_formatter := lg_formatter (loggers s ! l)\<rparr>, s)"
| "instr_step env (Store_appender_formatter a f) (rg, s) = Ok [] (rg, LogAppender_SetFormatter a f s)"
| "instr_step env (Find_logger name) (rg, s) =
     (let (l, s1) = LoggerManager_GetLogger name s in Ok [] (rg\<lparr>rg_logger := l\<rparr>, s1))"
| "instr_step env (Macro_log lvl line msg) (rg, s) =
     Ok [Call (Do_ZCS_LEVEL (rg_logger rg) lvl line msg)] (rg, s)"

section \<open>The threads\<close>

record log_thread =
  lth_code :: "instr list"
  lth_regs :: regs

record log_machine =
  lm_sys :: log_sys
  lm_locks :: "log_lock \<Rightarrow> pthread_lock"
  lm_threads :: "log_thread list"

definition set_thread :: "nat \<Rightarrow> instr list \<Rightarrow> regs \<Rightarrow> log_machine \<Rightarrow> log_machine" where
  "set_thread t is rg m = m\<lparr>lm_threads := (lm_threads m)[t := \<lparr>lth_code = is, lth_regs = rg\<rparr>]\<rparr>"

text \<open>
  \<open>Format\<close> is called on the formatter that \<open>formatter_\<close> points to, not on a copy of the pointer. The lines
  of \<open>Logger::AddAppender\<close> and \<open>Logger::SetFormatter\<close> that assign \<open>formatter_\<close> of an appender run
  without its lock. When another thread is inside \<open>Format\<close> then, the two access \<open>formatter_\<close> without
  order and the formatter may be destroyed while it is in use: the behaviour is undefined. (The
  assignment in \<open>LogAppender::SetFormatter\<close> runs under the lock that \<open>Log\<close> of the appender holds.)
\<close>

fun formats_for :: "nat \<Rightarrow> instr list \<Rightarrow> bool" where
  "formats_for a (Put_cout b e it # is) = (b = a)"
| "formats_for a (Put_file b e it # is) = (b = a)"
| "formats_for a is = False"

definition in_Format :: "nat \<Rightarrow> nat \<Rightarrow> log_machine \<Rightarrow> bool" where
  "in_Format t a m \<longleftrightarrow>
     list_ex (\<lambda>(u, th). u \<noteq> t \<and> formats_for a (lth_code th)) (enumerate 0 (lm_threads m))"

fun races :: "nat \<Rightarrow> instr \<Rightarrow> log_machine \<Rightarrow> bool" where
  "races t (Inherit_assign a l) m = in_Format t a m"
| "races t i m = False"

text \<open>
  The next step of thread \<open>t\<close>, whose environment is \<open>env t\<close>: \<open>None\<close> when it has ended or spins on a
  lock that is taken.
\<close>

definition thread_move :: "(nat \<Rightarrow> log_env) \<Rightarrow> nat \<Rightarrow> log_machine \<Rightarrow> (unit, log_machine) result option" where
  "thread_move env t m =
     (let rg = lth_regs (lm_threads m ! t)
      in case lth_code (lm_threads m ! t) of
           [] \<Rightarrow> None
         | i # is \<Rightarrow>
             (case i of
                Acquire k \<Rightarrow>
                  (case ScopedLockImpl SpinLock_lock t (lm_locks m k) of
                     None \<Rightarrow> None
                   | Some (locked_, lk) \<Rightarrow>
                       Some (Ok () (set_thread t is rg (m\<lparr>lm_locks := (lm_locks m)(k := lk)\<rparr>))))
              | Release k \<Rightarrow>
                  Some (Ok () (set_thread t is rg
                    (m\<lparr>lm_locks := (lm_locks m)(k :=
                       destroy_ScopedLockImpl SpinLock_unlock t (True, lm_locks m k))\<rparr>)))
              | _ \<Rightarrow>
                  if races t i m then Some (Crash (UndefinedBehaviour ''data race on formatter_''))
                  else
                    (case instr_step (env t) i (rg, lm_sys m) of
                       Ok new st \<Rightarrow> Some (Ok () (set_thread t (new @ is) (fst st) (m\<lparr>lm_sys := snd st\<rparr>)))
                     | Throw e st \<Rightarrow> Some (Throw e (m\<lparr>lm_sys := snd st\<rparr>))
                     | Crash c \<Rightarrow> Some (Crash c))))"

definition par_step :: "(nat \<Rightarrow> log_env) \<Rightarrow> log_machine \<Rightarrow> log_machine \<Rightarrow> bool" where
  "par_step env m m' \<longleftrightarrow> (\<exists>t < length (lm_threads m). thread_move env t m = Some (Ok () m'))"

text \<open>The process ends abnormally when a thread does.\<close>

definition par_crashes :: "(nat \<Rightarrow> log_env) \<Rightarrow> log_machine \<Rightarrow> bool" where
  "par_crashes env m \<longleftrightarrow>
     (\<exists>t < length (lm_threads m). \<exists>r. thread_move env t m = Some r \<and> (\<nexists>m'. r = Ok () m'))"

abbreviation par_reach :: "(nat \<Rightarrow> log_env) \<Rightarrow> log_machine \<Rightarrow> log_machine \<Rightarrow> bool" where
  "par_reach env \<equiv> (par_step env)\<^sup>*\<^sup>*"

definition all_ended :: "log_machine \<Rightarrow> bool" where
  "all_ended m \<longleftrightarrow> (\<forall>th \<in> set (lm_threads m). lth_code th = [])"

text \<open>The start: every thread has its list of calls to make, all locks are free.\<close>

definition start_threads :: "log_sys \<Rightarrow> log_call list list \<Rightarrow> log_machine" where
  "start_threads s css =
     \<lparr>lm_sys = s, lm_locks = (\<lambda>_. new_SpinLock),
      lm_threads = map (\<lambda>cs. \<lparr>lth_code = map Call cs, lth_regs = \<lparr>rg_logger = mgr_root s, rg_formatter = None\<rparr>\<rparr>) css\<rparr>"

section \<open>Steps by cases\<close>

fun is_lock_instr :: "instr \<Rightarrow> bool" where
  "is_lock_instr (Acquire k) = True"
| "is_lock_instr (Release k) = True"
| "is_lock_instr _ = False"

lemma move_Acquire:
  assumes "lm_threads m ! t = \<lparr>lth_code = Acquire k # is, lth_regs = rg\<rparr>"
  shows "thread_move env t m =
    (if lm_locks m k = None
     then Some (Ok () (set_thread t is rg (m\<lparr>lm_locks := (lm_locks m)(k := Some t)\<rparr>))) else None)"
  using assms by (simp add: thread_move_def ScopedLockImpl_def SpinLock_lock_def)

lemma move_Release:
  assumes "lm_threads m ! t = \<lparr>lth_code = Release k # is, lth_regs = rg\<rparr>"
  shows "thread_move env t m =
    Some (Ok () (set_thread t is rg (m\<lparr>lm_locks := (lm_locks m)(k :=
      if lm_locks m k = Some t then None else lm_locks m k)\<rparr>)))"
  using assms
  by (simp add: thread_move_def destroy_ScopedLockImpl_def ScopedLockImpl_Unlock_def SpinLock_unlock_def)

lemma move_instr:
  assumes "lm_threads m ! t = \<lparr>lth_code = i # is, lth_regs = rg\<rparr>" and "\<not> is_lock_instr i"
  shows "thread_move env t m =
    (if races t i m then Some (Crash (UndefinedBehaviour ''data race on formatter_''))
     else
       (case instr_step (env t) i (rg, lm_sys m) of
          Ok new st \<Rightarrow> Some (Ok () (set_thread t (new @ is) (fst st) (m\<lparr>lm_sys := snd st\<rparr>)))
        | Throw e st \<Rightarrow> Some (Throw e (m\<lparr>lm_sys := snd st\<rparr>))
        | Crash c \<Rightarrow> Some (Crash c)))"
  using assms by (cases i) (simp_all add: thread_move_def)

lemma move_ended: "lth_code (lm_threads m ! t) = [] \<Longrightarrow> thread_move env t m = None"
  by (simp add: thread_move_def)

text \<open>A step is one of a lock that is free, of a release, or of another instruction.\<close>

lemma par_stepE:
  assumes "par_step env m m'"
  obtains (acquire) t k "is" rg where "t < length (lm_threads m)"
      "lm_threads m ! t = \<lparr>lth_code = Acquire k # is, lth_regs = rg\<rparr>" "lm_locks m k = None"
      "m' = set_thread t is rg (m\<lparr>lm_locks := (lm_locks m)(k := Some t)\<rparr>)"
  | (release) t k "is" rg where "t < length (lm_threads m)"
      "lm_threads m ! t = \<lparr>lth_code = Release k # is, lth_regs = rg\<rparr>"
      "m' = set_thread t is rg (m\<lparr>lm_locks := (lm_locks m)(k :=
         if lm_locks m k = Some t then None else lm_locks m k)\<rparr>)"
  | (instr) t i "is" rg new rg' s' where "t < length (lm_threads m)"
      "lm_threads m ! t = \<lparr>lth_code = i # is, lth_regs = rg\<rparr>" "\<not> is_lock_instr i"
      "instr_step (env t) i (rg, lm_sys m) = Ok new (rg', s')"
      "m' = set_thread t (new @ is) rg' (m\<lparr>lm_sys := s'\<rparr>)"
proof -
  obtain t where t: "t < length (lm_threads m)" and mv: "thread_move env t m = Some (Ok () m')"
    using assms by (auto simp: par_step_def)
  obtain code rg where th: "lm_threads m ! t = \<lparr>lth_code = code, lth_regs = rg\<rparr>"
    by (cases "lm_threads m ! t") auto
  with mv obtain i "is" where code: "code = i # is" by (cases code) (auto simp: move_ended)
  show thesis
  proof (cases "is_lock_instr i")
    case True
    then show thesis
      using mv acquire [OF t] release [OF t] th code
      by (cases i) (auto simp: move_Acquire move_Release split: if_splits)
  next
    case False
    then show thesis
      using mv instr [OF t] th code
      by (auto simp: move_instr split: result.splits if_splits)
  qed
qed

lemma set_thread_simps [simp]:
  "lm_sys (set_thread t is rg m) = lm_sys m" "lm_locks (set_thread t is rg m) = lm_locks m"
  "length (lm_threads (set_thread t is rg m)) = length (lm_threads m)"
  "u \<noteq> t \<Longrightarrow> lm_threads (set_thread t is rg m) ! u = lm_threads m ! u"
  "t < length (lm_threads m) \<Longrightarrow> lm_threads (set_thread t is rg m) ! t = \<lparr>lth_code = is, lth_regs = rg\<rparr>"
  by (simp_all add: set_thread_def)

lemma instr_step_no_Throw: "instr_step env i st \<noteq> Throw e st'"
proof (cases i)
  case (Call c)
  then show ?thesis
    by (cases c; cases st) (auto simp: Let_def split: if_splits appender_class.splits)
qed (cases st; auto simp: Let_def split: if_splits appender_class.splits option.splits prod.splits)+

end
