(* ===== verification/Log_Serial.thy ===== *)
theory Log_Serial
  imports Log_Threads
begin

text \<open>
  The instructions of a call, run without interruption, do what the function of \<open>Log_System\<close> for
  the call does; and threads that use one logger run their calls one after the other, whatever
  the interleaving of their instructions.
\<close>

section \<open>Running code without interruption\<close>

inductive runs :: "log_env \<Rightarrow> instr list \<Rightarrow> regs \<times> log_sys \<Rightarrow> (unit, regs \<times> log_sys) result \<Rightarrow> bool"
  for env where
  runs_end: "runs env [] st (Ok () st)"
| runs_step: "instr_step env i st = Ok new st' \<Longrightarrow> runs env (new @ is) st' r \<Longrightarrow> runs env (i # is) st r"
| runs_crash: "instr_step env i st = Crash c \<Longrightarrow> runs env (i # is) st (Crash c)"

inductive_cases runs_NilE: "runs env [] st r"
inductive_cases runs_ConsE: "runs env (i # is) st r"

lemma runs_append: "runs env xs st (Ok () st') \<Longrightarrow> runs env ys st' r \<Longrightarrow> runs env (xs @ ys) st r"
  by (induction xs st "Ok () st' :: (unit, regs \<times> log_sys) result" rule: runs.induct) (auto intro: runs.intros)

lemma runs_append_crash: "runs env xs st (Crash c) \<Longrightarrow> runs env (xs @ ys) st (Crash c)"
  by (induction xs st "Crash c :: (unit, regs \<times> log_sys) result" rule: runs.induct) (auto intro: runs.intros)

text \<open>What code does to the logging system, whatever the thread has in its registers.\<close>

fun drop_regs :: "(unit, regs \<times> log_sys) result \<Rightarrow> (unit, log_sys) result" where
  "drop_regs (Ok u (rg, s)) = Ok u s"
| "drop_regs (Throw e (rg, s)) = Throw e s"
| "drop_regs (Crash c) = Crash c"

definition does :: "log_env \<Rightarrow> instr list \<Rightarrow> log_sys \<Rightarrow> (unit, log_sys) result \<Rightarrow> bool" where
  "does env is s r \<longleftrightarrow> (\<forall>rg. \<exists>R. runs env is (rg, s) R \<and> drop_regs R = r)"

lemma drop_regs_iff:
  "drop_regs R = Ok u s \<longleftrightarrow> (\<exists>rg. R = Ok u (rg, s))" "drop_regs R = Crash c \<longleftrightarrow> R = Crash c"
  by (cases R; auto)+

lemma does_Nil: "does env [] s (Ok () s)"
  unfolding does_def using runs_end [of env] by (metis drop_regs.simps(1))

lemma does_append:
  assumes "does env xs s r" and "\<And>s'. r = Ok () s' \<Longrightarrow> does env ys s' r'"
    and "\<And>c. r = Crash c \<Longrightarrow> r' = Crash c" and "\<And>e s'. r \<noteq> Throw e s'"
  shows "does env (xs @ ys) s r'"
  unfolding does_def
proof
  fix rg
  obtain R where R: "runs env xs (rg, s) R" "drop_regs R = r" using assms(1) by (auto simp: does_def)
  show "\<exists>R. runs env (xs @ ys) (rg, s) R \<and> drop_regs R = r'"
  proof (cases r)
    case (Ok u s')
    then obtain rg' where "R = Ok () (rg', s')" using R(2) by (auto simp: drop_regs_iff)
    moreover obtain R' where "runs env ys (rg', s') R'" "drop_regs R' = r'"
      using assms(2) [of s'] Ok by (auto simp: does_def)
    ultimately show ?thesis using R(1) runs_append by blast
  next
    case (Throw e s')
    with assms(4) show ?thesis by blast
  next
    case (Crash c)
    then have "R = Crash c" using R(2) by (simp add: drop_regs_iff)
    with R(1) runs_append_crash assms(3) [OF Crash] show ?thesis by (metis drop_regs.simps(3))
  qed
qed

lemma does_step:
  assumes "\<And>rg. \<exists>rg'. instr_step env i (rg, s) = Ok new (rg', s')" and "does env (new @ is) s' r"
  shows "does env (i # is) s r"
  unfolding does_def
proof
  fix rg
  obtain rg' where "instr_step env i (rg, s) = Ok new (rg', s')" using assms(1) by blast
  with assms(2) runs_step show "\<exists>R. runs env (i # is) (rg, s) R \<and> drop_regs R = r"
    unfolding does_def by metis
qed

lemma does_crash: "(\<And>rg. instr_step env i (rg, s) = Crash c) \<Longrightarrow> does env (i # is) s (Crash c)"
  unfolding does_def by (metis drop_regs.simps(3) runs_crash)

text \<open>A lock in force changes nothing when nobody else runs.\<close>

lemma does_locked: "does env is s r \<Longrightarrow> (\<And>e s'. r \<noteq> Throw e s') \<Longrightarrow> does env (locked k is) s r"
  unfolding locked_def
proof (rule does_step [where new = "[]" and s' = s])
  assume body: "does env is s r" and r: "\<And>e s'. r \<noteq> Throw e s'"
  have "does env [Release k] s' (Ok () s')" for s'
    by (rule does_step [where new = "[]" and s' = s']) (simp_all add: does_Nil)
  then show "does env ([] @ is @ [Release k]) s r"
    using r by (simp, intro does_append [OF body]) auto
qed simp

section \<open>Calls\<close>

text \<open>The function of \<open>Log_System\<close> for a call.\<close>

fun seq_call :: "log_env \<Rightarrow> log_call \<Rightarrow> log_sys \<Rightarrow> (unit, log_sys) result" where
  "seq_call env (Do_Log l lvl e) s = Logger_Log env [] l lvl e s"
| "seq_call env (Do_AddAppender l a) s = Logger_AddAppender l a s"
| "seq_call env (Do_DelAppender l a) s = Logger_DelAppender l a s"
| "seq_call env (Do_ClearAppender l) s = Logger_ClearAppender l s"
| "seq_call env (Do_SetFormatter l format) s = Logger_SetFormatter l format s"
| "seq_call env (Do_SetFormatter_ptr l f) s = Logger_SetFormatter_ptr l f s"
| "seq_call env (Do_GetFormatter l) s = and_then (Logger_GetFormatter l s) (\<lambda>_. Ok ())"
| "seq_call env (Do_SetLevel l lvl) s = Logger_SetLevel l lvl s"
| "seq_call env (Do_appender_Log a lvl e) s = LogAppender_Log env a lvl e s"
| "seq_call env (Do_appender_SetFormatter a f) s =
     (if length (appenders s) \<le> a then Crash NullDeref else Ok () (LogAppender_SetFormatter a f s))"
| "seq_call env (Do_appender_GetFormatter a) s =
     (if length (appenders s) \<le> a then Crash NullDeref else Ok () s)"
| "seq_call env (Do_appender_SetLevel a lvl) s =
     (if length (appenders s) \<le> a then Crash NullDeref else Ok () (LogAppender_SetLevel a lvl s))"
| "seq_call env (Do_Reopen a) s =
     (if length (appenders s) \<le> a then Crash NullDeref else Ok () (snd (FileLogAppender_Reopen env a s)))"
| "seq_call env (Do_GetLogger name) s = Ok () (snd (LoggerManager_GetLogger name s))"
| "seq_call env (Do_ZCS_LEVEL l lvl line msg) s = ZCS_LEVEL env l lvl line msg s"
| "seq_call env (Do_ZCS_LEVEL_name name lvl line msg) s =
     (let (l, s1) = LoggerManager_GetLogger name s in ZCS_LEVEL env l lvl line msg s1)"

lemma does_single: "(\<And>rg. \<exists>rg'. instr_step env i (rg, s) = Ok [] (rg', s')) \<Longrightarrow> does env [i] s (Ok () s')"
  by (rule does_step [where new = "[]" and s' = s']) (auto simp: does_Nil)

lemma does_Cons:
  "(\<And>rg. \<exists>rg'. instr_step env i (rg, s) = Ok [] (rg', s')) \<Longrightarrow> does env is s' r \<Longrightarrow> does env (i # is) s r"
  by (rule does_step [where new = "[]" and s' = s']) auto

lemma does_puts:
  assumes put: "\<And>it s rg. instr_step env (i it) (rg, s) =
      (case FormatItem_Format (env_time_text env) (logger_name s) e it of
         None \<Rightarrow> Crash NullDeref | Some t \<Rightarrow> Ok [] (rg, put s t))"
    and same: "\<And>s t. loggers (put s t) = loggers s"
  shows "does env (map i its) s
    (case LogFormatter_Format_ostream put (env_time_text env) (logger_name s) e its s of
       None \<Rightarrow> Crash NullDeref | Some s1 \<Rightarrow> Ok () s1)"
proof (induction its arbitrary: s)
  case Nil
  show ?case by (simp add: does_Nil)
next
  case (Cons it its)
  show ?case
  proof (cases "FormatItem_Format (env_time_text env) (logger_name s) e it")
    case None
    then show ?thesis by (auto simp: put intro!: does_crash)
  next
    case (Some t)
    have "logger_name (put s t) = logger_name s" by (rule logger_name_cong) (rule same)
    with Cons.IH [of "put s t"] Some show ?thesis by (auto simp: put intro!: does_Cons)
  qed
qed

lemma loggers_file_put: "loggers (file_put env a s t) = loggers s"
  by (simp add: file_put_def Let_def sys_simps split: appender_class.splits)

lemma does_StdoutLogAppender_Log:
  "does env (StdoutLogAppender_Log_code a e) s (StdoutLogAppender_Log env a lvl e s)"
proof (cases "ap_formatter (appenders s ! a)")
  case None
  then have "does env [Format_cout a e] s (Crash NullDeref)" by (intro does_crash) simp
  with None show ?thesis
    by (simp add: StdoutLogAppender_Log_code_def StdoutLogAppender_Log_def does_locked)
next
  case (Some f)
  have "does env (map (Put_cout a e) (fmt_items f)) s (StdoutLogAppender_Log env a lvl e s)"
    using does_puts [where i = "Put_cout a e" and put = print_cout and e = e and env = env] Some
    by (simp add: StdoutLogAppender_Log_def sys_simps)
  then have "does env [Format_cout a e] s (StdoutLogAppender_Log env a lvl e s)"
    using Some by (intro does_step) auto
  then show ?thesis
    unfolding StdoutLogAppender_Log_code_def
    by (rule does_locked) (simp add: StdoutLogAppender_Log_def split: option.split)
qed

text \<open>The appender between the test of its time and the formatting.\<close>

lemma does_Reopen:
  "a < length (appenders s) \<Longrightarrow> does env [Call (Do_Reopen a)] s (Ok () (snd (FileLogAppender_Reopen env a s)))"
  by (rule does_step [where new = "FileLogAppender_Reopen_code a" and s' = s])
    (auto simp: FileLogAppender_Reopen_code_def intro!: does_locked does_single)

lemma does_Check_time:
  assumes "a < length (appenders s)" and "ap_class (appenders s ! a) = FileLogAppender fn st lt"
  shows "does env [Check_time a e] s (Ok () (reopen_if_due env a e s))"
proof (cases "lt + 3 \<le> ev_time e")
  case True
  have "does env ([Call (Do_Reopen a)] @ [Set_last_time a (ev_time e)]) s (Ok () (reopen_if_due env a e s))"
    by (rule does_append [OF does_Reopen [OF assms(1)]])
      (use assms True in \<open>auto simp: reopen_if_due_def intro!: does_single\<close>)
  then show ?thesis using assms True by (intro does_step) auto
next
  case False
  with assms show ?thesis by (auto simp: reopen_if_due_def intro!: does_single)
qed

lemma does_FileLogAppender_Log:
  assumes a: "a < length (appenders s)" and cls: "ap_class (appenders s ! a) = FileLogAppender fn st lt"
  shows "does env (FileLogAppender_Log_code a e) s (FileLogAppender_Log env a lvl e s)"
proof -
  let ?s1 = "reopen_if_due env a e s"
  let ?r = "FileLogAppender_Log env a lvl e s"
  have throw: "?r \<noteq> Throw ex s'" for ex s'
    unfolding FileLogAppender_Log_unfold [OF cls] Let_def by (simp split: option.split)
  have "does env [Format_file a e, Check_stream a] ?s1 ?r"
  proof (cases "ap_formatter (appenders ?s1 ! a)")
    case None
    then show ?thesis
      by (intro does_crash [THEN back_subst [where P = "does env _ _"]])
        (simp_all add: FileLogAppender_Log_unfold [OF cls] Let_def)
  next
    case (Some f)
    let ?puts = "LogFormatter_Format_ostream (file_put env a) (env_time_text env) (logger_name ?s1) e (fmt_items f) ?s1"
    have puts: "does env (map (Put_file a e) (fmt_items f)) ?s1
        (case ?puts of None \<Rightarrow> Crash NullDeref | Some s2 \<Rightarrow> Ok () s2)"
      by (rule does_puts) (simp_all add: loggers_file_put)
    have "does env (map (Put_file a e) (fmt_items f) @ [Check_stream a]) ?s1 ?r"
    proof (rule does_append [OF puts])
      show "does env [Check_stream a] s' ?r"
        if "(case ?puts of None \<Rightarrow> Crash NullDeref | Some s2 \<Rightarrow> Ok () s2) = Ok () s'" for s'
        using that Some by (auto simp: FileLogAppender_Log_unfold [OF cls] Let_def split: option.splits intro!: does_single)
    qed (use Some in \<open>auto simp: FileLogAppender_Log_unfold [OF cls] Let_def split: option.splits\<close>)
    then show ?thesis using Some by (intro does_step) auto
  qed
  then have "does env (locked (Appender_mutex a) [Format_file a e, Check_stream a]) ?s1 ?r"
    by (rule does_locked) (rule throw)
  then have "does env ([Check_time a e] @ locked (Appender_mutex a) [Format_file a e, Check_stream a]) s ?r"
    by (intro does_append [OF does_Check_time [OF a cls]]) auto
  then show ?thesis by (simp add: FileLogAppender_Log_code_def)
qed

lemma does_appender_Log: "does env [Call (Do_appender_Log a lvl e)] s (LogAppender_Log env a lvl e s)"
proof (cases "a < length (appenders s)")
  case True
  then show ?thesis
    using does_StdoutLogAppender_Log does_FileLogAppender_Log
    by (cases "ap_class (appenders s ! a)") (auto simp: LogAppender_Log_def intro!: does_step)
qed (auto simp: LogAppender_Log_def intro!: does_crash)


lemma LogAppender_Log_no_Throw: "LogAppender_Log env a lvl e s \<noteq> Throw ex s'"
  by (auto simp: LogAppender_Log_def StdoutLogAppender_Log_def FileLogAppender_Log_def Let_def
      split: if_splits appender_class.splits option.splits)

lemma for_each_no_Throw: "(\<And>x s ex t. f x s \<noteq> Throw ex t) \<Longrightarrow> for_each f xs s \<noteq> Throw ex t"
proof (induction xs arbitrary: s)
  case (Cons x xs)
  then show ?case by (cases "f x s") auto
qed simp

lemma does_for_each:
  assumes "\<And>x s. does env [i x] s (f x s)" and "\<And>x s ex t. f x s \<noteq> Throw ex t"
  shows "does env (map i xs) s (for_each f xs s)"
proof (induction xs arbitrary: s)
  case (Cons x xs)
  have "does env ([i x] @ map i xs) s (for_each f (x # xs) s)"
    by (rule does_append [OF assms(1)]) (use Cons assms(2) in auto)
  then show ?case by simp
qed (simp add: does_Nil)

text \<open>
  The root logger has no root, and the others have that one or none: all that the order of the
  locks rests on.
\<close>

definition roots_ok :: "log_sys \<Rightarrow> bool" where
  "roots_ok s \<longleftrightarrow>
     mgr_root s < length (loggers s) \<and> lg_root (loggers s ! mgr_root s) = None \<and>
     (\<forall>lg \<in> set (loggers s). lg_root lg = None \<or> lg_root lg = Some (mgr_root s))"

lemma roots_ok_logger:
  "roots_ok s \<Longrightarrow> l < length (loggers s) \<Longrightarrow> lg_root (loggers s ! l) = Some r \<Longrightarrow>
    r = mgr_root s \<and> l \<noteq> r \<and> r < length (loggers s) \<and> lg_root (loggers s ! r) = None"
  unfolding roots_ok_def using nth_mem [of l "loggers s"] by (metis option.distinct(1) option.inject)

lemma wf_sys_roots_ok: "wf_sys s \<Longrightarrow> roots_ok s"
  by (auto simp: wf_sys_def roots_ok_def logger_ok_def)

lemma Logger_Log_no_Throw: "Logger_Log env held l lvl e s \<noteq> Throw ex s'"
proof (induction env held l lvl e s rule: Logger_Log.induct)
  case (1 env held l lvl e s)
  then show ?case
    by (subst Logger_Log.simps)
      (auto simp: for_each_no_Throw LogAppender_Log_no_Throw split: option.split)
qed

lemma does_own_appenders:
  assumes "lg_appenders (loggers s ! l) \<noteq> []"
  shows "does env (Logger_Log_code l lvl e) s
    (for_each (\<lambda>a. LogAppender_Log env a lvl e) (lg_appenders (loggers s ! l)) s)"
proof -
  let ?as = "lg_appenders (loggers s ! l)"
  have "does env (map (\<lambda>a. Call (Do_appender_Log a lvl e)) ?as) s (for_each (\<lambda>a. LogAppender_Log env a lvl e) ?as s)"
    by (rule does_for_each) (auto simp: does_appender_Log LogAppender_Log_no_Throw)
  then have "does env [Loop_appenders l lvl e] s (for_each (\<lambda>a. LogAppender_Log env a lvl e) ?as s)"
    using assms by (intro does_step) auto
  then show ?thesis
    unfolding Logger_Log_code_def by (rule does_locked) (simp add: for_each_no_Throw LogAppender_Log_no_Throw)
qed

lemma does_no_root:
  assumes "lg_appenders (loggers s ! l) = []" and "lg_root (loggers s ! l) = None"
  shows "does env (Logger_Log_code l lvl e) s (Crash NullDeref)"
  unfolding Logger_Log_code_def by (rule does_locked) (use assms in \<open>auto intro!: does_crash\<close>)

lemma does_Logger_Log:
  assumes ok: "roots_ok s"
  shows "does env [Call (Do_Log l lvl e)] s (Logger_Log env [] l lvl e s)"
proof (cases "l < length (loggers s)")
  case l: True
  have own: "does env (Logger_Log_code k lvl e) s (Logger_Log env held k lvl e s)"
    if k: "k < length (loggers s)" "k \<notin> set held"
      and "lg_appenders (loggers s ! k) \<noteq> [] \<or> lg_root (loggers s ! k) = None" for k held
    using that does_own_appenders [of s k] does_no_root [of s k]
    by (cases "lg_appenders (loggers s ! k) = []") (simp_all add: Logger_Log_own Logger_Log_no_root)
  have call: "does env [Call (Do_Log k lvl e)] s r"
    if "k < length (loggers s)" "does env (Logger_Log_code k lvl e) s r" for k r
    using that by (intro does_step) auto
  show ?thesis
  proof (cases "lg_appenders (loggers s ! l) \<noteq> [] \<or> lg_root (loggers s ! l) = None")
    case True
    with l own call show ?thesis by simp
  next
    case False
    then obtain r where r: "lg_root (loggers s ! l) = Some r" by auto
    note root = roots_ok_logger [OF ok l r]
    have "does env (Logger_Log_code r lvl e) s (Logger_Log env [l] r lvl e s)"
      using root by (intro own) auto
    then have "does env [Call (Do_Log r lvl e)] s (Logger_Log env [] l lvl e s)"
      using root l False r by (intro call) (simp_all add: Logger_Log_root)
    then have "does env [Loop_appenders l lvl e] s (Logger_Log env [] l lvl e s)"
      using False r by (intro does_step) auto
    then have "does env (Logger_Log_code l lvl e) s (Logger_Log env [] l lvl e s)"
      unfolding Logger_Log_code_def by (rule does_locked) (rule Logger_Log_no_Throw)
    with l call show ?thesis by simp
  qed
next
  case False
  then show ?thesis by (subst Logger_Log.simps) (auto intro!: does_crash)
qed

lemma does_inherit:
  "lg_formatter (loggers s ! l) = f \<Longrightarrow>
    does env (map (\<lambda>a. Inherit_check a l) as) s (Ok () (inherit_formatter f as s))"
proof (induction as arbitrary: s)
  case (Cons a as)
  show ?case
  proof (cases "ap_has_formatter (appenders s ! a)")
    case True
    with Cons show ?thesis by (auto intro!: does_Cons)
  next
    case False
    let ?s1 = "update_appender a (\<lambda>ap. ap\<lparr>ap_formatter := f\<rparr>) s"
    have "does env (map (\<lambda>a. Inherit_check a l) as) ?s1 (Ok () (inherit_formatter f as ?s1))"
      by (rule Cons.IH) (simp add: sys_simps Cons.prems)
    then have "does env (Inherit_assign a l # map (\<lambda>a. Inherit_check a l) as) s (Ok () (inherit_formatter f (a # as) s))"
      using False Cons.prems by (intro does_Cons) auto
    with False show ?thesis by (auto intro!: does_step)
  qed
qed (simp add: does_Nil)


text \<open>Running a given list of instructions, by evaluation.\<close>

lemma runs_Nil_iff: "runs env [] st r \<longleftrightarrow> r = Ok () st"
  by (auto intro: runs_end elim: runs_NilE)

lemma runs_Cons_iff:
  "runs env (i # is) st r \<longleftrightarrow>
    (case instr_step env i st of
       Ok new st' \<Rightarrow> runs env (new @ is) st' r
     | Throw e st' \<Rightarrow> False
     | Crash c \<Rightarrow> r = Crash c)"
  by (auto intro: runs.intros elim!: runs_ConsE split: result.splits)

lemmas runs_simps = runs_Nil_iff runs_Cons_iff

lemma does_AddAppender: "does env [Call (Do_AddAppender l a)] s (Logger_AddAppender l a s)"
  by (auto simp: does_def runs_simps Logger_AddAppender_code_def locked_def Logger_AddAppender_def Let_def
      LogAppender_GetFormatter_def)

lemma does_SetFormatter_ptr:
  "does env (Logger_SetFormatter_ptr_code l f) s
    (Ok () (inherit_formatter f (lg_appenders (loggers s ! l)) (update_logger l (\<lambda>lg. lg\<lparr>lg_formatter := f\<rparr>) s)))"
  if "l < length (loggers s)"
proof -
  let ?s1 = "update_logger l (\<lambda>lg. lg\<lparr>lg_formatter := f\<rparr>) s"
  have "does env (map (\<lambda>a. Inherit_check a l) (lg_appenders (loggers ?s1 ! l))) ?s1
      (Ok () (inherit_formatter f (lg_appenders (loggers ?s1 ! l)) ?s1))"
    using that by (intro does_inherit) (simp add: sys_simps)
  then have "does env [Loop_inherit l] ?s1 (Ok () (inherit_formatter f (lg_appenders (loggers ?s1 ! l)) ?s1))"
    by (intro does_step) auto
  then have "does env [Store_formatter l f, Loop_inherit l] s
      (Ok () (inherit_formatter f (lg_appenders (loggers s ! l)) ?s1))"
    using that by - (rule does_Cons [where s' = ?s1], simp_all add: sys_simps)
  then show ?thesis unfolding Logger_SetFormatter_ptr_code_def by (rule does_locked) simp
qed

lemma does_call:
  assumes ok: "roots_ok s"
  shows "does env [Call c] s (seq_call env c s)"
proof (cases c)
  case (Do_Log l lvl e)
  with does_Logger_Log [OF ok] show ?thesis by simp
next
  case (Do_AddAppender l a)
  with does_AddAppender show ?thesis by simp
next
  case (Do_SetFormatter l format)
  let ?f = "new_LogFormatter format"
  consider "\<not> l < length (loggers s)" | "l < length (loggers s)" "fmt_error ?f" | "l < length (loggers s)" "\<not> fmt_error ?f"
    by blast
  then show ?thesis
  proof cases
    case 3
    with does_SetFormatter_ptr [of l s env "Some ?f"] show ?thesis
      unfolding Do_SetFormatter
      by (intro does_step [where new = "Logger_SetFormatter_ptr_code l (Some ?f)" and s' = s])
        (simp_all add: Logger_SetFormatter_def Logger_SetFormatter_ptr_def Let_def sys_simps)
  qed (auto simp: Do_SetFormatter Logger_SetFormatter_def Let_def intro!: does_crash does_single)
next
  case (Do_SetFormatter_ptr l f)
  then show ?thesis
    using does_SetFormatter_ptr [of l s env f] does_step [where new = "Logger_SetFormatter_ptr_code l f" and s' = s]
    by (cases "l < length (loggers s)")
      (auto simp: Logger_SetFormatter_ptr_def Let_def sys_simps intro!: does_crash)
next
  case (Do_appender_Log a lvl e)
  with does_appender_Log show ?thesis by simp
next
  case (Do_ZCS_LEVEL l lvl line msg)
  have "roots_ok (s\<lparr>ticks := Suc (ticks s)\<rparr>)" using ok by (simp add: roots_ok_def)
  from does_Logger_Log [OF this] Do_ZCS_LEVEL show ?thesis
    by (auto simp: ZCS_LEVEL_def destroy_LogEventWrap_def Let_def new_LogEvent_def intro!: does_step)
next
  case (Do_ZCS_LEVEL_name name lvl line msg)
  obtain l s1 where get: "LoggerManager_GetLogger name s = (l, s1)" by fastforce
  have "roots_ok (s1\<lparr>ticks := Suc (ticks s1)\<rparr>)"
    using ok get nth_append
    by (cases "map_find string_lt name (mgr_loggers s)")
      (auto simp: roots_ok_def GetLogger_found GetLogger_fresh nth_append)
  from does_Logger_Log [OF this, of env l lvl]
  have log: "\<exists>R. runs env [Call (Do_Log l lvl e)] (rg, s1\<lparr>ticks := Suc (ticks s1)\<rparr>) R \<and>
      drop_regs R = Logger_Log env [] l lvl e (s1\<lparr>ticks := Suc (ticks s1)\<rparr>)" for rg e
    by (simp add: does_def)
  show ?thesis
    unfolding Do_ZCS_LEVEL_name does_def seq_call.simps get
  proof
    fix rg
    show "\<exists>R. runs env [Call (Do_ZCS_LEVEL_name name lvl line msg)] (rg, s) R \<and>
        drop_regs R = (let (l, s1) = (l, s1) in ZCS_LEVEL env l lvl line msg s1)"
      using log [of _ "rg\<lparr>rg_logger := l\<rparr>"] get
      by (simp add: runs_Cons_iff [of _ "Call (Do_ZCS_LEVEL_name name lvl line msg)"]
        runs_Cons_iff [of _ "Call (Do_GetLogger name)"] runs_Cons_iff [of _ "Call (Do_ZCS_LEVEL l lvl line msg)"]
        runs_Cons_iff [of _ "Acquire k" for k] runs_Cons_iff [of _ "Release k" for k]
        runs_Cons_iff [of _ "Find_logger name"] runs_Cons_iff [of _ "Macro_log lvl line msg"]
        LoggerManager_GetLogger_code_def locked_def ZCS_LEVEL_def destroy_LogEventWrap_def Let_def new_LogEvent_def)
  qed
qed (auto simp: does_def runs_simps locked_def Logger_DelAppender_code_def Logger_DelAppender_def
    Logger_ClearAppender_code_def Logger_ClearAppender_def Logger_GetFormatter_code_def Logger_GetFormatter_def
    Logger_SetLevel_def LogAppender_SetFormatter_code_def LogAppender_GetFormatter_code_def
    FileLogAppender_Reopen_code_def LoggerManager_GetLogger_code_def split: prod.split)


section \<open>Threads that use one logger\<close>

lemma roots_ok_update_logger:
  assumes "roots_ok s" and "\<And>lg. lg_root (f lg) = lg_root lg"
  shows "roots_ok (update_logger l f s)"
proof -
  have "lg_root lg = None \<or> lg_root lg = Some (mgr_root s)" if "lg \<in> set ((loggers s)[l := f (loggers s ! l)])" for lg
  proof (cases "l < length (loggers s)")
    case True
    with that set_update_subset_insert [of "loggers s" l "f (loggers s ! l)"]
    have "lg = f (loggers s ! l) \<or> lg \<in> set (loggers s)" by auto
    with True assms show ?thesis by (auto simp: roots_ok_def)
  next
    case False
    with that have "lg \<in> set (loggers s)" by (simp add: list_update_beyond)
    with assms(1) show ?thesis by (simp add: roots_ok_def)
  qed
  moreover have "lg_root ((loggers s)[l := f (loggers s ! l)] ! mgr_root s) = lg_root (loggers s ! mgr_root s)"
    using assms by (cases "l = mgr_root s") (auto simp: roots_ok_def)
  ultimately show ?thesis using assms(1) by (auto simp: roots_ok_def update_logger_def)
qed

lemma roots_ok_same:
  "loggers s' = loggers s \<Longrightarrow> mgr_root s' = mgr_root s \<Longrightarrow> roots_ok s' = roots_ok s"
  by (simp add: roots_ok_def)

lemma Reopen_same:
  "loggers (snd (FileLogAppender_Reopen env a s)) = loggers s"
  "mgr_root (snd (FileLogAppender_Reopen env a s)) = mgr_root s"
  by (auto simp: FileLogAppender_Reopen_def Let_def sys_simps split: appender_class.splits prod.splits)

lemma mgr_root_file_put: "mgr_root (file_put env a s t) = mgr_root s"
  by (simp add: file_put_def Let_def sys_simps split: appender_class.splits)

lemma roots_ok_GetLogger:
  "roots_ok s \<Longrightarrow> roots_ok (snd (LoggerManager_GetLogger name s)) \<and>
    length (loggers s) \<le> length (loggers (snd (LoggerManager_GetLogger name s)))"
  by (cases "map_find string_lt name (mgr_loggers s)")
    (auto simp: roots_ok_def GetLogger_found GetLogger_fresh nth_append)

lemma length_appenders_same:
  "length (appenders (snd (FileLogAppender_Reopen env a s))) = length (appenders s)"
  "length (appenders (file_put env a s t)) = length (appenders s)"
  "length (appenders (snd (LoggerManager_GetLogger name s))) = length (appenders s)"
  by (auto simp: FileLogAppender_Reopen_def file_put_def LoggerManager_GetLogger_def alloc_logger_def Let_def
      sys_simps split: appender_class.splits option.splits prod.splits)

lemmas roots_ok_simps = length_appenders_same roots_ok_update_logger Reopen_same mgr_root_file_put loggers_file_put sys_simps
  LogAppender_SetFormatter_def LogAppender_SetLevel_def

lemma call_step_roots:
  assumes "call_step env c (rg, s) = Ok new (rg', s')" and "roots_ok s"
  shows "roots_ok s' \<and> length (loggers s) \<le> length (loggers s') \<and> length (appenders s') = length (appenders s)"
  using assms
  by (cases c) (auto simp: roots_ok_simps Let_def roots_ok_same [of "s\<lparr>ticks := n\<rparr>" s for n]
      roots_ok_same [of "print_cout s t" s for t] roots_ok_same [of "update_appender a f s" s for a f]
      split: if_splits appender_class.splits)

lemma instr_step_roots:
  assumes step: "instr_step env i (rg, s) = Ok new (rg', s')" and ok: "roots_ok s"
  shows "roots_ok s' \<and> length (loggers s) \<le> length (loggers s') \<and> length (appenders s') = length (appenders s)"
proof (cases i)
  case (Call c)
  with assms call_step_roots show ?thesis by simp
next
  case (Find_logger name)
  with step roots_ok_GetLogger [OF ok, of name] length_appenders_same(3) [of name s] show ?thesis by (auto split: prod.splits)
qed (use assms in \<open>auto simp: roots_ok_simps roots_ok_same [of "file_put env a s t" s for a t]
      roots_ok_same [of "snd (FileLogAppender_Reopen env a s)" s for a]
      roots_ok_same [of "print_cout s t" s for t] roots_ok_same [of "update_appender a f s" s for a f]
      split: if_splits appender_class.splits option.splits\<close>)

lemma par_step_roots:
  assumes "par_step env m m'" and "roots_ok (lm_sys m)"
  shows "roots_ok (lm_sys m') \<and> length (loggers (lm_sys m)) \<le> length (loggers (lm_sys m')) \<and>
    length (appenders (lm_sys m')) = length (appenders (lm_sys m)) \<and>
    length (lm_threads m') = length (lm_threads m)"
  using assms(1)
proof (cases rule: par_stepE)
  case (instr t i "is" rg new rg' s')
  with instr_step_roots [OF instr(4) assms(2)] show ?thesis by simp
qed (use assms(2) in simp_all)

text \<open>
  The calls whose whole body runs under the lock of logger \<open>l\<close>, and that body. Of the member functions
  of \<open>Logger\<close> that leaves out \<open>SetLevel\<close>, which takes no lock, and \<open>SetFormatter\<close> with a pattern in
  error, which prints a line without it; the macros take the time of their record before the lock.
\<close>

fun on_logger :: "nat \<Rightarrow> log_call \<Rightarrow> bool" where
  "on_logger l (Do_Log k lvl e) = (k = l)"
| "on_logger l (Do_AddAppender k a) = (k = l)"
| "on_logger l (Do_DelAppender k a) = (k = l)"
| "on_logger l (Do_ClearAppender k) = (k = l)"
| "on_logger l (Do_SetFormatter k p) = (k = l \<and> \<not> fmt_error (new_LogFormatter p))"
| "on_logger l (Do_SetFormatter_ptr k f) = (k = l)"
| "on_logger l (Do_GetFormatter k) = (k = l)"
| "on_logger l _ = False"

fun under_lock :: "nat \<Rightarrow> log_call \<Rightarrow> instr list" where
  "under_lock l (Do_Log k lvl e) = [Loop_appenders l lvl e]"
| "under_lock l (Do_AddAppender k a) =
     locked (Appender_mutex a) [Read_appender_formatter a] @ [Inherit_if_null a l, Push_appender l a]"
| "under_lock l (Do_DelAppender k a) = [Erase_appender l a]"
| "under_lock l (Do_ClearAppender k) = [Clear_appenders l]"
| "under_lock l (Do_SetFormatter k p) = [Store_formatter l (Some (new_LogFormatter p)), Loop_inherit l]"
| "under_lock l (Do_SetFormatter_ptr k f) = [Store_formatter l f, Loop_inherit l]"
| "under_lock l (Do_GetFormatter k) = [Read_formatter l]"
| "under_lock l _ = []"

lemma call_step_on_logger:
  assumes "on_logger l c" and "call_step env c (rg, s) = Ok new st"
  shows "new = locked (Logger_mutex l) (under_lock l c)" and "st = (rg, s)"
  using assms
  by (cases c; auto simp: Logger_Log_code_def Logger_AddAppender_code_def Logger_DelAppender_code_def
      Logger_ClearAppender_code_def Logger_SetFormatter_ptr_code_def Logger_GetFormatter_code_def Let_def split: if_splits)+

definition call_ready :: "nat \<Rightarrow> log_call \<Rightarrow> log_sys \<Rightarrow> bool" where
  "call_ready l c s \<longleftrightarrow>
     l < length (loggers s) \<and> (\<forall>a. c = Do_AddAppender l a \<longrightarrow> a < length (appenders s))"

lemma call_ready_iff:
  "on_logger l c \<Longrightarrow> call_step env c (rg, s) =
    (if call_ready l c s then Ok (locked (Logger_mutex l) (under_lock l c)) (rg, s) else Crash NullDeref)"
  by (cases c; auto simp: call_ready_def Logger_Log_code_def Logger_AddAppender_code_def Logger_DelAppender_code_def
      Logger_ClearAppender_code_def Logger_SetFormatter_ptr_code_def Logger_GetFormatter_code_def Let_def)

lemma call_ready_mono:
  "call_ready l c s \<Longrightarrow> length (loggers s) \<le> length (loggers s') \<Longrightarrow>
    length (appenders s') = length (appenders s) \<Longrightarrow> call_ready l c s'"
  by (auto simp: call_ready_def)

lemma runs_without_release:
  "runs env (xs @ [Release k]) st r \<Longrightarrow> runs env xs st r"
proof (induction "xs @ [Release k]" st r arbitrary: xs rule: runs.induct)
  case (runs_step i st new st' "is" r)
  show ?case
  proof (cases xs)
    case Nil
    with runs_step(1,2,4) show ?thesis by (auto simp: runs_simps)
  next
    case (Cons x ys)
    then have "is = ys @ [Release k]" "x = i" using runs_step(4) by simp_all
    with Cons runs_step(1) runs_step(3) [of "new @ ys"] show ?thesis by (auto intro: runs.runs_step)
  qed
next
  case (runs_crash i st c "is")
  then show ?case by (cases xs) (auto intro: runs.runs_crash)
qed simp

text \<open>Under the lock, the body of a call does what the function of the call does.\<close>

lemma under_lock_runs:
  assumes "on_logger l c" and "roots_ok s" and "call_ready l c s"
  shows "\<exists>R. runs env (under_lock l c) (rg, s) R \<and> drop_regs R = seq_call env c s"
proof -
  obtain R where R: "runs env [Call c] (rg, s) R" "drop_regs R = seq_call env c s"
    using does_call [OF assms(2), of env c] by (auto simp: does_def)
  then have "runs env (under_lock l c @ [Release (Logger_mutex l)]) (rg, s) R"
    by (simp add: runs_Cons_iff [of _ "Call c"] runs_Cons_iff [of _ "Acquire k" for k] locked_def
        call_ready_iff [OF assms(1)] assms(3))
  with R(2) runs_without_release show ?thesis by blast
qed

text \<open>A thread that waits for its turn: in front of a call, or at the lock of the logger.\<close>

definition waits_turn :: "nat \<Rightarrow> log_sys \<Rightarrow> log_call list \<Rightarrow> instr list \<Rightarrow> bool" where
  "waits_turn l s cs code \<longleftrightarrow> (\<forall>c \<in> set cs. on_logger l c) \<and>
     (code = map Call cs \<or>
      (\<exists>c cs'. cs = c # cs' \<and> call_ready l c s \<and>
         code = locked (Logger_mutex l) (under_lock l c) @ map Call cs'))"

lemma waits_turn_mono:
  "waits_turn l s cs code \<Longrightarrow> length (loggers s) \<le> length (loggers s') \<Longrightarrow>
    length (appenders s') = length (appenders s) \<Longrightarrow> waits_turn l s' cs code"
  unfolding waits_turn_def using call_ready_mono by blast

text \<open>
  The history \<open>h\<close> of the calls begun, each with the thread that made it, run one after the other.
\<close>

definition run_history :: "(nat \<Rightarrow> log_env) \<Rightarrow> (nat \<times> log_call) list \<Rightarrow> log_sys \<Rightarrow> (unit, log_sys) result" where
  "run_history env h s = for_each (\<lambda>(t, c). seq_call (env t) c) h s"

definition calls_of :: "nat \<Rightarrow> (nat \<times> log_call) list \<Rightarrow> log_call list" where
  "calls_of t h = map snd (filter (\<lambda>(u, c). u = t) h)"

lemma calls_of_snoc: "calls_of t (h @ [(u, c)]) = calls_of t h @ (if u = t then [c] else [])"
  by (simp add: calls_of_def)

lemma for_each_single: "for_each f [x] = f x"
proof
  fix s
  show "for_each f [x] s = f x s" by (cases "f x s") simp_all
qed

lemma run_history_snoc:
  "run_history env (h @ [(t, c)]) s = and_then (run_history env h s) (\<lambda>_. seq_call (env t) c)"
  by (simp add: run_history_def for_each_append for_each_single del: for_each.simps)

text \<open>What can be left of a body: nothing in it touches the lock of the logger itself.\<close>

fun inside :: "nat \<Rightarrow> log_sys \<Rightarrow> instr \<Rightarrow> bool" where
  "inside l s (Acquire k) = (k \<noteq> Logger_mutex l)"
| "inside l s (Release k) = (k \<noteq> Logger_mutex l)"
| "inside l s (Call (Do_Log k lvl e)) = (k \<noteq> l \<and> l \<noteq> mgr_root s)"
| "inside l s (Call (Do_appender_Log a lvl e)) = True"
| "inside l s (Call (Do_Reopen a)) = True"
| "inside l s (Call c) = False"
| "inside l s (Loop_appenders k lvl e) = (k < length (loggers s) \<and> (k = l \<or> l \<noteq> mgr_root s))"
| "inside l s (Macro_log lvl line msg) = False"
| "inside l s (Find_logger name) = False"
| "inside l s i = True"

lemma inside_under_lock: "on_logger l c \<Longrightarrow> call_ready l c s \<Longrightarrow> list_all (inside l s) (under_lock l c)"
  by (cases c) (auto simp: locked_def call_ready_def)

lemma inside_expand:
  assumes step: "instr_step env i (rg, s) = Ok new (rg', s')" and ins: "inside l s i" and roots: "roots_ok s"
  shows "list_all (inside l s) new"
proof (cases i)
  case (Call c)
  with ins consider k lvl e where "c = Do_Log k lvl e" | a lvl e where "c = Do_appender_Log a lvl e"
    | a where "c = Do_Reopen a"
    by (cases c) auto
  then show ?thesis
    using step ins Call
    by cases (auto simp: locked_def Logger_Log_code_def StdoutLogAppender_Log_code_def
        FileLogAppender_Log_code_def FileLogAppender_Reopen_code_def split: if_splits appender_class.splits)
next
  case (Loop_appenders k lvl e)
  show ?thesis
  proof (cases "lg_appenders (loggers s ! k) = []")
    case True
    with step Loop_appenders obtain r where r: "lg_root (loggers s ! k) = Some r" "new = [Call (Do_Log r lvl e)]"
      by (auto split: option.splits)
    with roots_ok_logger [OF roots _ r(1)] ins Loop_appenders show ?thesis by auto
  next
    case False
    with step Loop_appenders show ?thesis by (auto simp: list_all_iff)
  qed
qed (use step ins in \<open>auto simp: list_all_iff split: if_splits appender_class.splits option.splits\<close>)

lemma inside_same:
  assumes "instr_step env i (rg, s) = Ok new (rg', s')" and "inside l s i"
  shows "mgr_root s' = mgr_root s \<and> length (loggers s') = length (loggers s)"
  using assms
  by (cases "(l, s, i)" rule: inside.cases)
    (auto simp: sys_simps mgr_root_file_put loggers_file_put Reopen_same LogAppender_SetFormatter_def
      split: if_splits appender_class.splits option.splits)

lemma inside_cong:
  "mgr_root s' = mgr_root s \<Longrightarrow> length (loggers s') = length (loggers s) \<Longrightarrow> inside l s' i = inside l s i"
  by (cases "(l, s, i)" rule: inside.cases) auto

text \<open>
  Either nobody holds the lock and the system is where the history has brought it, or the thread
  that holds it has a rest of a body to run that will bring it there.
\<close>

definition serial_state ::
  "(nat \<Rightarrow> log_env) \<Rightarrow> nat \<Rightarrow> log_sys \<Rightarrow> log_call list list \<Rightarrow> (nat \<times> log_call) list \<Rightarrow> (nat \<Rightarrow> log_call list)
   \<Rightarrow> log_machine \<Rightarrow> bool"
where
  "serial_state env l s0 css h todo m \<longleftrightarrow>
     roots_ok (lm_sys m) \<and> length (lm_threads m) = length css \<and> (\<forall>(t, c) \<in> set h. t < length css) \<and>
     (\<forall>t < length css. calls_of t h @ todo t = css ! t) \<and>
     (if lm_locks m (Logger_mutex l) = None then
        run_history env h s0 = Ok () (lm_sys m) \<and>
        (\<forall>t < length css. waits_turn l (lm_sys m) (todo t) (lth_code (lm_threads m ! t)))
      else
        \<exists>t < length css. lm_locks m (Logger_mutex l) = Some t \<and>
          (\<forall>u < length css. u \<noteq> t \<longrightarrow> waits_turn l (lm_sys m) (todo u) (lth_code (lm_threads m ! u))) \<and>
          (\<forall>c \<in> set (todo t). on_logger l c) \<and>
          (\<exists>pre R. lth_code (lm_threads m ! t) = pre @ Release (Logger_mutex l) # map Call (todo t) \<and>
             list_all (inside l (lm_sys m)) pre \<and> runs (env t) pre (lth_regs (lm_threads m ! t), lm_sys m) R \<and>
             run_history env h s0 = drop_regs R))"

lemma set_thread_lookup:
  "t < length (lm_threads m) \<Longrightarrow> lm_threads (set_thread t is rg m) ! u =
    (if u = t then \<lparr>lth_code = is, lth_regs = rg\<rparr> else lm_threads m ! u)"
  by (simp add: set_thread_def)

lemma waits_turn_head:
  assumes "waits_turn l s cs (i # is)"
  obtains c cs' where "cs = c # cs'" "on_logger l c" "i = Call c" "is = map Call cs'"
  | c cs' where "cs = c # cs'" "on_logger l c" "i = Acquire (Logger_mutex l)" "call_ready l c s"
      "is = under_lock l c @ Release (Logger_mutex l) # map Call cs'"
  using assms by (auto simp: waits_turn_def locked_def)

lemma serial_waiting:
  "serial_state env l s0 css h todo m \<Longrightarrow> t < length css \<Longrightarrow> lm_locks m (Logger_mutex l) \<noteq> Some t \<Longrightarrow>
    waits_turn l (lm_sys m) (todo t) (lth_code (lm_threads m ! t))"
  by (auto simp: serial_state_def split: if_splits)

text \<open>The thread that holds the lock goes on with its body.\<close>

lemma serial_holder_step:
  assumes inv: "serial_state env l s0 css h todo m" and t: "t < length css"
    and holds: "lm_locks m (Logger_mutex l) = Some t"
    and th: "lm_threads m ! t = \<lparr>lth_code = i # is, lth_regs = rg\<rparr>"
    and step: "instr_step (env t) i (rg, lm_sys m) = Ok new (rg', s')" "i \<noteq> Release (Logger_mutex l)"
    and m': "lm_sys m' = s'" "lm_locks m' (Logger_mutex l) = Some t" "lm_threads m' = (lm_threads m)[t := \<lparr>lth_code = new @ is, lth_regs = rg'\<rparr>]"
  shows "serial_state env l s0 css h todo m'"
proof -
  have len: "length (lm_threads m) = length css" and roots: "roots_ok (lm_sys m)"
    using inv by (simp_all add: serial_state_def)
  obtain pre R where code: "i # is = pre @ Release (Logger_mutex l) # map Call (todo t)"
      and ins: "list_all (inside l (lm_sys m)) pre" and run: "runs (env t) pre (rg, lm_sys m) R" and hist: "run_history env h s0 = drop_regs R"
    using inv holds th by (auto simp: serial_state_def)
  from code step(2) obtain pre' where pre: "pre = i # pre'" "is = pre' @ Release (Logger_mutex l) # map Call (todo t)"
    by (cases pre) auto
  with run step(1) have "runs (env t) (new @ pre') (rg', s') R" by (simp add: runs_Cons_iff)
  moreover have "list_all (inside l s') (new @ pre')"
    using ins pre(1) inside_expand [OF step(1) _ roots] inside_same [OF step(1)]
    by (auto simp: list_all_iff inside_cong [of s' "lm_sys m"])
  moreover note roots' = instr_step_roots [OF step(1) roots]
  have "waits_turn l s' (todo u) (lth_code (lm_threads m ! u))" if "u < length css" "u \<noteq> t" for u
    using inv holds that roots' waits_turn_mono by (auto simp: serial_state_def)
  ultimately show ?thesis
    using inv holds t m' len roots' hist pre(2)
    unfolding serial_state_def
    by (auto simp: nth_list_update intro!: exI [of _ "new @ pre'"])
qed


text \<open>A waiting thread reaches its next call, and nothing else changes.\<close>

lemma serial_call_step:
  assumes inv: "serial_state env l s0 css h todo m" and t: "t < length css"
    and holds: "lm_locks m (Logger_mutex l) \<noteq> Some t"
    and th: "lm_threads m ! t = \<lparr>lth_code = Call c # is, lth_regs = rg\<rparr>"
    and step: "instr_step (env t) (Call c) (rg, lm_sys m) = Ok new (rg', s')"
  shows "serial_state env l s0 css h todo (set_thread t (new @ is) rg' (m\<lparr>lm_sys := s'\<rparr>))"
proof -
  have len: "length (lm_threads m) = length css" using inv by (simp add: serial_state_def)
  have "waits_turn l (lm_sys m) (todo t) (Call c # is)"
    using serial_waiting [OF inv t holds] th by simp
  then have w: "waits_turn l (lm_sys m) (todo t) (Call c # is)" and on: "\<forall>c \<in> set (todo t). on_logger l c"
    by (simp_all add: waits_turn_def)
  from w obtain cs' where todo: "todo t = c # cs'" "is = map Call cs'" and c: "on_logger l c"
    by (rule waits_turn_head) auto
  have "call_ready l c (lm_sys m)" and new: "new = locked (Logger_mutex l) (under_lock l c)" "s' = lm_sys m"
    using step by (auto simp: call_ready_iff [OF c] split: if_splits)
  then have turn: "waits_turn l (lm_sys m) (todo t) (new @ is)" using on todo by (auto simp: waits_turn_def)
  have m': "set_thread t (new @ is) rg' (m\<lparr>lm_sys := s'\<rparr>) = set_thread t (new @ is) rg' m"
    by (simp add: new(2))
  have look: "lth_code (lm_threads (set_thread t (new @ is) rg' m) ! u) =
      (if u = t then new @ is else lth_code (lm_threads m ! u))"
    "u \<noteq> t \<Longrightarrow> lm_threads (set_thread t (new @ is) rg' m) ! u = lm_threads m ! u" for u
    using t len by (simp_all add: set_thread_lookup)
  show ?thesis
  proof (cases "lm_locks m (Logger_mutex l)")
    case None
    with inv turn show ?thesis by (simp add: serial_state_def m' look)
  next
    case (Some u)
    with holds have "u \<noteq> t" by simp
    with inv turn Some show ?thesis by (auto simp add: serial_state_def m' look)
  qed
qed

text \<open>A waiting thread gets the lock: its call is the next of the history.\<close>

lemma serial_acquire_step:
  assumes inv: "serial_state env l s0 css h todo m" and t: "t < length css"
    and free: "lm_locks m (Logger_mutex l) = None"
    and th: "lm_threads m ! t = \<lparr>lth_code = Acquire (Logger_mutex l) # is, lth_regs = rg\<rparr>"
  obtains c cs where "todo t = c # cs"
    and "serial_state env l s0 css (h @ [(t, c)]) (todo(t := cs))
      (set_thread t is rg (m\<lparr>lm_locks := (lm_locks m)(Logger_mutex l := Some t)\<rparr>))"
proof -
  have len: "length (lm_threads m) = length css" and roots: "roots_ok (lm_sys m)"
    and hist: "run_history env h s0 = Ok () (lm_sys m)"
    using inv free by (simp_all add: serial_state_def)
  have w: "waits_turn l (lm_sys m) (todo t) (Acquire (Logger_mutex l) # is)"
    using serial_waiting [OF inv t] free th by simp
  then have on: "\<forall>c \<in> set (todo t). on_logger l c" by (simp add: waits_turn_def)
  from w obtain c cs' where todo: "todo t = c # cs'" and c: "on_logger l c" "call_ready l c (lm_sys m)"
    and "is": "is = under_lock l c @ Release (Logger_mutex l) # map Call cs'"
    by (rule waits_turn_head) auto
  obtain R where "runs (env t) (under_lock l c) (rg, lm_sys m) R" and "drop_regs R = seq_call (env t) c (lm_sys m)"
    using under_lock_runs [OF c(1) roots c(2)] by blast
  moreover have "run_history env (h @ [(t, c)]) s0 = seq_call (env t) c (lm_sys m)"
    by (simp add: run_history_snoc hist)
  moreover have "calls_of u (h @ [(t, c)]) @ (todo(t := cs')) u = calls_of u h @ todo u" for u
    using todo by (simp add: calls_of_snoc)
  ultimately have "serial_state env l s0 css (h @ [(t, c)]) (todo(t := cs'))
      (set_thread t is rg (m\<lparr>lm_locks := (lm_locks m)(Logger_mutex l := Some t)\<rparr>))"
    using inv free t len on todo inside_under_lock [OF c]
    by (auto simp: serial_state_def "is" intro!: exI [of _ "under_lock l c"])
  with todo that show thesis by blast
qed

text \<open>The holder is at the end of its body and releases the lock.\<close>

lemma serial_release_step:
  assumes inv: "serial_state env l s0 css h todo m" and t: "t < length css"
    and holds: "lm_locks m (Logger_mutex l) = Some t"
    and th: "lm_threads m ! t = \<lparr>lth_code = Release (Logger_mutex l) # is, lth_regs = rg\<rparr>"
  shows "serial_state env l s0 css h todo
    (set_thread t is rg (m\<lparr>lm_locks := (lm_locks m)(Logger_mutex l := None)\<rparr>))"
proof -
  have len: "length (lm_threads m) = length css" using inv by (simp add: serial_state_def)
  obtain pre R where code: "Release (Logger_mutex l) # is = pre @ Release (Logger_mutex l) # map Call (todo t)"
      and ins: "list_all (inside l (lm_sys m)) pre" and run: "runs (env t) pre (rg, lm_sys m) R"
      and hist: "run_history env h s0 = drop_regs R"
    using inv holds th by (auto simp: serial_state_def)
  have "pre = []" using code ins by (cases pre) auto
  then have "is": "is = map Call (todo t)" and "run_history env h s0 = Ok () (lm_sys m)"
    using code run hist by (simp_all add: runs_simps)
  moreover have "waits_turn l (lm_sys m) (todo t) is"
    using inv holds "is" by (auto simp: serial_state_def waits_turn_def)
  ultimately show ?thesis
    using inv holds t len by (auto simp: serial_state_def nth_list_update set_thread_def)
qed


lemma serial_step:
  assumes inv: "serial_state env l s0 css h todo m" and step: "par_step env m m'"
  obtains h' todo' where "serial_state env l s0 css h' todo' m'"
proof -
  have len: "length (lm_threads m) = length css" using inv by (simp add: serial_state_def)
  from step show thesis
  proof (cases rule: par_stepE)
    case (acquire t k "is" rg)
    then have t: "t < length css" using len by simp
    show thesis
    proof (cases "lm_locks m (Logger_mutex l) = Some t")
      case True
      show thesis
        by (rule that, rule serial_holder_step [OF inv t True acquire(2), where new = "[]" and rg' = rg and s' = "lm_sys m"])
          (use True acquire in \<open>auto simp: set_thread_def\<close>)
    next
      case False
      have "waits_turn l (lm_sys m) (todo t) (Acquire k # is)"
        using serial_waiting [OF inv t False] acquire(2) by simp
      then have "k = Logger_mutex l" by (rule waits_turn_head) auto
      with serial_acquire_step [OF inv t] acquire that show thesis by metis
    qed
  next
    case (release t k "is" rg)
    then have t: "t < length css" using len by simp
    have holds: "lm_locks m (Logger_mutex l) = Some t"
    proof (rule ccontr)
      assume "lm_locks m (Logger_mutex l) \<noteq> Some t"
      from serial_waiting [OF inv t this] release(2)
      have "waits_turn l (lm_sys m) (todo t) (Release k # is)" by simp
      then show False by (rule waits_turn_head) auto
    qed
    show thesis
    proof (cases "k = Logger_mutex l")
      case True
      with serial_release_step [OF inv t holds] release holds that show thesis by simp
    next
      case False
      show thesis
        by (rule that, rule serial_holder_step [OF inv t holds release(2), where new = "[]" and rg' = rg and s' = "lm_sys m"])
          (use False holds release in \<open>auto simp: set_thread_def\<close>)
    qed
  next
    case (instr t i "is" rg new rg' s')
    then have t: "t < length css" using len by simp
    show thesis
    proof (cases "lm_locks m (Logger_mutex l) = Some t")
      case True
      show thesis
        by (rule that, rule serial_holder_step [OF inv t True instr(2,4)])
          (use True instr in \<open>auto simp: set_thread_def\<close>)
    next
      case False
      have "waits_turn l (lm_sys m) (todo t) (i # is)"
        using serial_waiting [OF inv t False] instr(2) by simp
      then obtain c where c: "i = Call c" by (rule waits_turn_head) (use instr(3) in auto)
      show thesis
        by (rule that, unfold instr(5)) (rule serial_call_step [OF inv t False instr(2,4) [unfolded c]])
    qed
  qed
qed

lemma serial_reach:
  assumes "par_reach env m m'" and "\<exists>h todo. serial_state env l s0 css h todo m"
  shows "\<exists>h todo. serial_state env l s0 css h todo m'"
  using assms
proof (induction rule: rtranclp_induct)
  case (step m1 m2)
  then obtain h todo where "serial_state env l s0 css h todo m1" by blast
  from serial_step [OF this step(2)] show ?case by blast
qed simp

lemma serial_start:
  assumes "roots_ok s0" and "\<forall>cs \<in> set css. \<forall>c \<in> set cs. on_logger l c"
  shows "serial_state env l s0 css [] (\<lambda>t. css ! t) (start_threads s0 css)"
  using assms
  by (auto simp: serial_state_def start_threads_def new_SpinLock_def calls_of_def run_history_def waits_turn_def)

lemma serial_end:
  assumes inv: "serial_state env l s0 css h todo m" and ended: "all_ended m"
  shows "run_history env h s0 = Ok () (lm_sys m)" and "t < length css \<Longrightarrow> calls_of t h = css ! t"
    and "\<forall>(t, c) \<in> set h. t < length css"
proof -
  have code: "lth_code (lm_threads m ! u) = []" if "u < length css" for u
    using ended that inv by (auto simp: all_ended_def serial_state_def)
  have free: "lm_locks m (Logger_mutex l) = None"
  proof (rule ccontr)
    assume "lm_locks m (Logger_mutex l) \<noteq> None"
    with inv obtain u pre where "u < length css" "lth_code (lm_threads m ! u) = pre @ Release (Logger_mutex l) # map Call (todo u)"
      by (auto simp: serial_state_def split: if_splits)
    with code show False by simp
  qed
  with inv show "run_history env h s0 = Ok () (lm_sys m)" by (simp add: serial_state_def)
  show "calls_of t h = css ! t" if "t < length css"
  proof -
    have "waits_turn l (lm_sys m) (todo t) []"
      using inv free code [OF that] that by (auto simp: serial_state_def)
    then have "todo t = []" by (auto simp: waits_turn_def locked_def)
    with inv that show ?thesis by (auto simp: serial_state_def)
  qed
  show "\<forall>(t, c) \<in> set h. t < length css" using inv by (simp add: serial_state_def)
qed

text \<open>The history of a run that has ended.\<close>

lemma one_logger_history:
  assumes "wf_sys s" and "\<forall>cs \<in> set css. \<forall>c \<in> set cs. on_logger l c"
    and "par_reach env (start_threads s css) m" and "all_ended m"
  obtains h where "\<forall>(t, c) \<in> set h. t < length css" and "\<And>t. t < length css \<Longrightarrow> calls_of t h = css ! t"
    and "run_history env h s = Ok () (lm_sys m)"
proof -
  have "\<exists>h todo. serial_state env l s css h todo (start_threads s css)"
    using serial_start [OF wf_sys_roots_ok [OF assms(1)] assms(2)] by blast
  from serial_reach [OF assms(3) this] obtain h todo where inv: "serial_state env l s css h todo m" by blast
  show thesis by (rule that) (use serial_end [OF inv assms(4)] in blast)+
qed

end
