(* ===== verification/Log_Progress.thy ===== *)
theory Log_Progress
  imports Log_Serial "HOL-Library.Multiset"
begin

text \<open>
  Threads that use the logging system never block each other for good and always come to an end:
  every thread takes its locks in the order of a rank, and every instruction is replaced by
  finitely many smaller ones.
\<close>

section \<open>The order of the locks\<close>

text \<open>
  The manager's lock has rank 0, a logger's 1, the root logger's 2, an appender's 3. \<open>needs\<close> is a
  lower bound of the ranks of the locks that an instruction and what replaces it take; 4 stands
  for none. \<open>r\<close> is the root logger.
\<close>

fun lock_rank :: "nat \<Rightarrow> log_lock \<Rightarrow> nat" where
  "lock_rank r Manager_mutex = 0"
| "lock_rank r (Logger_mutex l) = (if l = r then 2 else 1)"
| "lock_rank r (Appender_mutex a) = 3"

fun call_needs :: "nat \<Rightarrow> log_call \<Rightarrow> nat" where
  "call_needs r (Do_Log l lvl e) = lock_rank r (Logger_mutex l)"
| "call_needs r (Do_AddAppender l a) = lock_rank r (Logger_mutex l)"
| "call_needs r (Do_DelAppender l a) = lock_rank r (Logger_mutex l)"
| "call_needs r (Do_ClearAppender l) = lock_rank r (Logger_mutex l)"
| "call_needs r (Do_SetFormatter l p) = lock_rank r (Logger_mutex l)"
| "call_needs r (Do_SetFormatter_ptr l f) = lock_rank r (Logger_mutex l)"
| "call_needs r (Do_GetFormatter l) = lock_rank r (Logger_mutex l)"
| "call_needs r (Do_ZCS_LEVEL l lvl line msg) = lock_rank r (Logger_mutex l)"
| "call_needs r (Do_SetLevel l lvl) = 4"
| "call_needs r (Do_appender_SetLevel a lvl) = 4"
| "call_needs r (Do_GetLogger name) = 0"
| "call_needs r (Do_ZCS_LEVEL_name name lvl line msg) = 0"
| "call_needs r _ = 3"

fun needs :: "nat \<Rightarrow> instr \<Rightarrow> nat" where
  "needs r (Call c) = call_needs r c"
| "needs r (Loop_appenders l lvl e) = (if l = r then 3 else 2)"
| "needs r (Check_time a e) = 3"
| "needs r (Macro_log lvl line msg) = 1"
| "needs r _ = 4"

text \<open>
  Code that runs with the locks \<open>H\<close> held, the innermost first: it takes locks above all it holds,
  and gives them back in reverse order, all of them.
\<close>

definition above :: "nat \<Rightarrow> log_lock list \<Rightarrow> nat \<Rightarrow> bool" where
  "above r H n \<longleftrightarrow> (\<forall>h \<in> set H. lock_rank r h < n)"

fun ordered :: "nat \<Rightarrow> log_lock list \<Rightarrow> instr list \<Rightarrow> bool" where
  "ordered r H [] = (H = [])"
| "ordered r H (Acquire k # is) = (above r H (lock_rank r k) \<and> ordered r (k # H) is)"
| "ordered r H (Release k # is) = (H \<noteq> [] \<and> hd H = k \<and> ordered r (tl H) is)"
| "ordered r H (i # is) = (above r H (needs r i) \<and> ordered r H is)"

lemma above_simps [simp]:
  "above r [] n" "above r (h # H) n \<longleftrightarrow> lock_rank r h < n \<and> above r H n"
  by (auto simp: above_def)

lemma lock_rank_less [simp]: "lock_rank r k < 4"
  by (cases k) auto

lemma above_4 [simp]: "above r H 4"
  by (simp add: above_def)

lemma above_mono: "above r H m \<Longrightarrow> m \<le> n \<Longrightarrow> above r H n"
  by (auto simp: above_def)

lemma ordered_append_plain:
  assumes "\<forall>i \<in> set is. \<not> is_lock_instr i \<and> above r H (needs r i)"
  shows "ordered r H (is @ js) = ordered r H js"
  using assms
proof (induction "is")
  case (Cons i "is")
  then show ?case by (cases i) auto
qed simp

lemma ordered_plain: "\<not> is_lock_instr i \<Longrightarrow> ordered r H (i # is) \<longleftrightarrow> above r H (needs r i) \<and> ordered r H is"
  by (cases i) auto

lemma ordered_locked:
  "ordered r H (locked k is @ js) \<longleftrightarrow> above r H (lock_rank r k) \<and> ordered r (k # H) (is @ Release k # js)"
  by (simp add: locked_def)

lemmas code_defs = Logger_Log_code_def Logger_AddAppender_code_def Logger_DelAppender_code_def
  Logger_ClearAppender_code_def Logger_SetFormatter_ptr_code_def Logger_GetFormatter_code_def
  StdoutLogAppender_Log_code_def FileLogAppender_Log_code_def FileLogAppender_Reopen_code_def
  LogAppender_SetFormatter_code_def LogAppender_GetFormatter_code_def LoggerManager_GetLogger_code_def

lemma ordered_call:
  assumes step: "call_step env c (rg, s) = Ok new (rg', s')" and rest: "ordered r H is"
    and above: "above r H (call_needs r c)"
  shows "ordered r H (new @ is)"
proof -
  have up: "above r H 3" if "above r H 1 \<or> above r H 2" using that above_mono by fastforce
  have up2: "above r H 2" if "above r H 1" using that above_mono by fastforce
  have up': "above r H 1" if "above r H 0" using that above_mono by fastforce
  show ?thesis
    using step rest above up up2 up'
    by (cases c) (auto simp: code_defs ordered_locked Let_def locked_def split: if_splits appender_class.splits)
qed

lemma ordered_expand:
  assumes step: "instr_step env i (rg, s) = Ok new (rg', s')" and roots: "roots_ok s"
    and plain: "\<not> is_lock_instr i" and loop: "\<And>l lvl e. i = Loop_appenders l lvl e \<Longrightarrow> l < length (loggers s)"
    and ord: "ordered (mgr_root s) H (i # is)"
  shows "ordered (mgr_root s) H (new @ is)"
proof -
  let ?r = "mgr_root s"
  have above: "above ?r H (needs ?r i)" and rest: "ordered ?r H is" using ord plain by (simp_all add: ordered_plain)
  show ?thesis
  proof (cases i)
    case (Call c)
    with step above rest ordered_call show ?thesis by simp
  next
    case (Loop_appenders l lvl e)
    show ?thesis
    proof (cases "lg_appenders (loggers s ! l) = []")
      case True
      with step Loop_appenders obtain k where k: "lg_root (loggers s ! l) = Some k" "new = [Call (Do_Log k lvl e)]"
        by (auto split: option.splits)
      with roots_ok_logger [OF roots loop [OF Loop_appenders] k(1)] above rest Loop_appenders show ?thesis by simp
    next
      case False
      have "above ?r H 3" using above Loop_appenders by (auto split: if_splits intro: above_mono)
      with False step Loop_appenders rest show ?thesis by (auto simp: ordered_append_plain)
    qed
  next
    case (Macro_log lvl line msg)
    with step above rest above_mono [of ?r H 1 2] show ?thesis by auto
  qed (use step above rest in \<open>auto simp: ordered_append_plain split: if_splits appender_class.splits option.splits prod.splits\<close>)
qed

section \<open>Code that does not crash\<close>

text \<open>
  What a client may call: it logs to the root logger or to one that falls back on it, never takes
  an appender from the root logger, and passes no null pointer.
\<close>

definition loggable :: "log_sys \<Rightarrow> nat \<Rightarrow> bool" where
  "loggable s l \<longleftrightarrow> l < length (loggers s) \<and> (l = mgr_root s \<or> lg_root (loggers s ! l) \<noteq> None)"

fun call_ok :: "log_sys \<Rightarrow> log_call \<Rightarrow> bool" where
  "call_ok s (Do_Log l lvl e) = (loggable s l \<and> ev_logger e < length (loggers s))"
| "call_ok s (Do_AddAppender l a) = (l < length (loggers s) \<and> a < length (appenders s))"
| "call_ok s (Do_DelAppender l a) = (l < length (loggers s) \<and> l \<noteq> mgr_root s)"
| "call_ok s (Do_ClearAppender l) = (l < length (loggers s) \<and> l \<noteq> mgr_root s)"
| "call_ok s (Do_SetFormatter l p) = (l < length (loggers s))"
| "call_ok s (Do_SetFormatter_ptr l f) = (l < length (loggers s) \<and> f \<noteq> None)"
| "call_ok s (Do_GetFormatter l) = (l < length (loggers s))"
| "call_ok s (Do_SetLevel l lvl) = (l < length (loggers s))"
| "call_ok s (Do_appender_Log a lvl e) = (attached_ok s a \<and> ev_logger e < length (loggers s))"
| "call_ok s (Do_appender_SetFormatter a f) = (a < length (appenders s) \<and> f \<noteq> None)"
| "call_ok s (Do_appender_GetFormatter a) = (a < length (appenders s))"
| "call_ok s (Do_appender_SetLevel a lvl) = (a < length (appenders s))"
| "call_ok s (Do_Reopen a) = (a < length (appenders s))"
| "call_ok s (Do_GetLogger name) = True"
| "call_ok s (Do_ZCS_LEVEL l lvl line msg) = loggable s l"
| "call_ok s (Do_ZCS_LEVEL_name name lvl line msg) = True"

text \<open>
  The same for the lines. The appenders in \<open>A\<close> have a formatter when the code is reached; those in
  \<open>K\<close> have one then if the register of formatters is not null.
\<close>

fun code_ok :: "log_sys \<Rightarrow> nat set \<Rightarrow> nat set \<Rightarrow> instr list \<Rightarrow> bool" where
  "code_ok s K A [] = True"
| "code_ok s K A (Acquire k # is) = code_ok s K A is"
| "code_ok s K A (Release k # is) = code_ok s K A is"
| "code_ok s K A (Call c # is) = (call_ok s c \<and> code_ok s {} A is)"
| "code_ok s K A (Loop_appenders l lvl e # is) =
     (loggable s l \<and> ev_logger e < length (loggers s) \<and> code_ok s {} A is)"
| "code_ok s K A (Check_time a e # is) = (a < length (appenders s) \<and> code_ok s {} A is)"
| "code_ok s K A (Reopen_file a # is) = (a < length (appenders s) \<and> code_ok s K A is)"
| "code_ok s K A (Set_last_time a now # is) = (a < length (appenders s) \<and> code_ok s K A is)"
| "code_ok s K A (Format_cout a e # is) =
     (attached_ok s a \<and> ev_logger e < length (loggers s) \<and> code_ok s K A is)"
| "code_ok s K A (Put_cout a e it # is) = (ev_logger e < length (loggers s) \<and> code_ok s K A is)"
| "code_ok s K A (Format_file a e # is) =
     (attached_ok s a \<and> ev_logger e < length (loggers s) \<and> code_ok s K A is)"
| "code_ok s K A (Put_file a e it # is) =
     (a < length (appenders s) \<and> ev_logger e < length (loggers s) \<and> code_ok s K A is)"
| "code_ok s K A (Check_stream a # is) = code_ok s K A is"
| "code_ok s K A (Read_appender_formatter a # is) = (a < length (appenders s) \<and> code_ok s {a} A is)"
| "code_ok s K A (Inherit_if_null a l # is) =
     (a < length (appenders s) \<and> l < length (loggers s) \<and> (a \<in> K \<or> attached_ok s a) \<and>
      code_ok s K (insert a A) is)"
| "code_ok s K A (Push_appender l a # is) =
     (l < length (loggers s) \<and> (a \<in> A \<or> attached_ok s a) \<and> code_ok s K A is)"
| "code_ok s K A (Erase_appender l a # is) =
     (l < length (loggers s) \<and> l \<noteq> mgr_root s \<and> code_ok s K A is)"
| "code_ok s K A (Clear_appenders l # is) =
     (l < length (loggers s) \<and> l \<noteq> mgr_root s \<and> code_ok s K A is)"
| "code_ok s K A (Store_formatter l f # is) = (l < length (loggers s) \<and> f \<noteq> None \<and> code_ok s K A is)"
| "code_ok s K A (Loop_inherit l # is) = (l < length (loggers s) \<and> code_ok s K A is)"
| "code_ok s K A (Inherit_check a l # is) =
     (a < length (appenders s) \<and> l < length (loggers s) \<and> code_ok s K A is)"
| "code_ok s K A (Inherit_assign a l # is) =
     (a < length (appenders s) \<and> l < length (loggers s) \<and> code_ok s K (insert a A) is)"
| "code_ok s K A (Read_formatter l # is) = (l < length (loggers s) \<and> code_ok s {} A is)"
| "code_ok s K A (Store_appender_formatter a f # is) =
     (a < length (appenders s) \<and> f \<noteq> None \<and> code_ok s K A is)"
| "code_ok s K A (Find_logger name # is) = code_ok s K A is"
| "code_ok s K A (Macro_log lvl line msg # is) = code_ok s {} A is"

text \<open>What no thread ever undoes.\<close>

definition sys_grows :: "log_sys \<Rightarrow> log_sys \<Rightarrow> bool" where
  "sys_grows s s' \<longleftrightarrow>
     mgr_root s' = mgr_root s \<and> length (appenders s') = length (appenders s) \<and>
     length (loggers s) \<le> length (loggers s') \<and>
     (\<forall>l < length (loggers s). lg_root (loggers s' ! l) = lg_root (loggers s ! l)) \<and>
     (\<forall>a. attached_ok s a \<longrightarrow> attached_ok s' a)"

lemma sys_grows_refl [simp]: "sys_grows s s"
  by (simp add: sys_grows_def)

lemma loggable_less: "loggable s l \<Longrightarrow> l < length (loggers s)"
  by (simp add: loggable_def)

lemma loggable_grows: "sys_grows s s' \<Longrightarrow> loggable s l \<Longrightarrow> loggable s' l"
  by (auto simp: sys_grows_def loggable_def)

lemma call_ok_grows: "sys_grows s s' \<Longrightarrow> call_ok s c \<Longrightarrow> call_ok s' c"
  by (cases c) (auto simp: sys_grows_def loggable_def)

lemma code_ok_mono:
  "code_ok s K A is \<Longrightarrow> sys_grows s s' \<Longrightarrow> K \<subseteq> K' \<Longrightarrow> A \<subseteq> A' \<Longrightarrow> code_ok s' K' A' is"
proof (induction s K A "is" arbitrary: K' A' rule: code_ok.induct)
  case (4 s K A c "is")
  then show ?case by (simp add: call_ok_grows)
next
  case (5 s K A l lvl e "is")
  then show ?case using loggable_grows [OF 5(3)] by (auto simp: sys_grows_def)
next
  case (15 s K A a l "is")
  then show ?case by (auto simp: sys_grows_def intro: 15(1))
next
  case (22 s K A a l "is")
  then show ?case by (auto simp: sys_grows_def intro: 22(1))
qed (auto simp: sys_grows_def)

lemma code_ok_attached:
  "code_ok s K A is \<Longrightarrow> \<forall>a \<in> A. a \<in> B \<or> attached_ok s a \<Longrightarrow> code_ok s K B is"
  by (induction s K A "is" arbitrary: B rule: code_ok.induct) auto

text \<open>One instruction of such code, in a system that can log.\<close>

definition grown :: "log_sys \<Rightarrow> log_sys \<Rightarrow> bool" where
  "grown s s' \<longleftrightarrow> log_ready s' \<and> sys_grows s s'"

lemma grown_refl: "log_ready s \<Longrightarrow> grown s s"
  by (simp add: grown_def)

lemma grown_frame: "log_frame s s' \<Longrightarrow> log_ready s \<Longrightarrow> grown s s'"
  by (auto simp: grown_def sys_grows_def attached_ok_frame intro: log_ready_frame)
    (auto simp: log_frame_def list_all2_lengthD)

lemma grown_update_appender:
  assumes ready: "log_ready s" and a: "a < length (appenders s)"
    and keep: "ap_formatter (appenders s ! a) \<noteq> None \<Longrightarrow> ap_formatter (g (appenders s ! a)) \<noteq> None"
    and ok: "appender_ok (g (appenders s ! a))"
  shows "grown s (update_appender a g s)"
proof -
  have "wf_sys (update_appender a g s)"
    using ready a keep ok by (intro wf_sys_update_appender) (simp_all add: log_ready_def)
  with ready show ?thesis
    by (auto simp: grown_def log_ready_def sys_grows_def sys_simps intro: attached_ok_update_appender [where g = g, OF keep])
qed

lemma ready_appender_ok: "log_ready s \<Longrightarrow> a < length (appenders s) \<Longrightarrow> appender_ok (appenders s ! a)"
  by (simp add: log_ready_def wf_sys_def)

lemma ready_logger: "log_ready s \<Longrightarrow> l < length (loggers s) \<Longrightarrow> logger_ok s (loggers s ! l)"
  by (simp add: log_ready_def wf_sys_logger)

lemma grown_update_logger:
  assumes ready: "log_ready s" and l: "l < length (loggers s)"
    and same: "lg_name (f (loggers s ! l)) = lg_name (loggers s ! l)"
      "lg_root (f (loggers s ! l)) = lg_root (loggers s ! l)"
    and ok: "logger_ok s (f (loggers s ! l))"
    and root: "l = mgr_root s \<Longrightarrow> lg_appenders (f (loggers s ! l)) \<noteq> []"
  shows "grown s (update_logger l f s)"
proof -
  have wf: "wf_sys s" using ready by (simp add: log_ready_def)
  have "wf_sys (update_logger l f s)" by (rule wf_sys_update_logger [where f = f, OF wf l same ok])
  then show ?thesis
    using ready root same wf_sys_root [OF wf]
    by (auto simp: grown_def log_ready_def sys_grows_def sys_simps attached_ok_def)
qed

lemma grown_GetLogger:
  assumes ready: "log_ready s" and get: "LoggerManager_GetLogger name s = (l, s')"
  shows "grown s s'" and "loggable s' l"
proof -
  have wf: "wf_sys s" and root: "mgr_root s < length (loggers s)"
    using ready wf_sys_root by (auto simp: log_ready_def)
  have wf': "wf_sys s'" using wf_sys_GetLogger [OF wf, of name] get by simp
  show "grown s s'"
    using wf' ready get root
    by (cases "map_find string_lt name (mgr_loggers s)")
      (auto simp: grown_def log_ready_def sys_grows_def GetLogger_found GetLogger_fresh nth_append attached_ok_def)
  show "loggable s' l"
  proof (cases "map_find string_lt name (mgr_loggers s)")
    case None
    with get show ?thesis by (auto simp: GetLogger_fresh loggable_def)
  next
    case (Some k)
    with get wf_sys_registered [OF wf Some] show ?thesis by (auto simp: GetLogger_found loggable_def)
  qed
qed

text \<open>What a register of formatters tells about appenders.\<close>

definition known :: "regs \<Rightarrow> log_sys \<Rightarrow> nat set" where
  "known rg s = {a. a < length (appenders s) \<and> (rg_formatter rg \<noteq> None \<longrightarrow> attached_ok s a)}"

definition thread_ok :: "log_sys \<Rightarrow> regs \<Rightarrow> instr list \<Rightarrow> bool" where
  "thread_ok s rg is \<longleftrightarrow> loggable s (rg_logger rg) \<and> code_ok s (known rg s) {} is"

lemma thread_ok_grows:
  assumes "sys_grows s s'" and "thread_ok s rg is"
  shows "thread_ok s' rg is"
proof -
  have "known rg s \<subseteq> known rg s'" using assms(1) by (auto simp: known_def sys_grows_def)
  with assms code_ok_mono loggable_grows show ?thesis by (auto simp: thread_ok_def)
qed

lemma code_ok_any: "code_ok s {} {} is \<Longrightarrow> code_ok s K A is"
  by (rule code_ok_mono) auto

lemma code_ok_calls: "list_all (call_ok s) cs \<Longrightarrow> code_ok s {} A is \<Longrightarrow> code_ok s K A (map Call cs @ is)"
  by (induction cs arbitrary: K) (auto intro: code_ok_mono)

lemma code_ok_puts:
  "ev_logger e < length (loggers s) \<Longrightarrow> code_ok s K A (map (Put_cout a e) its @ is) = code_ok s K A is"
  "ev_logger e < length (loggers s) \<Longrightarrow> a < length (appenders s) \<Longrightarrow>
    code_ok s K A (map (Put_file a e) its @ is) = code_ok s K A is"
  by (induction its) auto

lemma code_ok_checks:
  "l < length (loggers s) \<Longrightarrow> \<forall>a \<in> set as. a < length (appenders s) \<Longrightarrow>
    code_ok s K A (map (\<lambda>a. Inherit_check a l) as @ is) = code_ok s K A is"
  by (induction as) auto


text \<open>The two forms a step takes: the system stays as it is, or no instruction is new.\<close>

lemma step_keeps_system:
  assumes "log_ready s" and "loggable s (rg_logger rg)" and "code_ok s (known rg s) {} (new @ is)"
  shows "grown s s \<and> thread_ok s rg (new @ is)"
  using assms by (simp add: grown_refl thread_ok_def)

lemma step_keeps_code:
  assumes "grown s s'" and "loggable s (rg_logger rg)" and "code_ok s (known rg s) {} is"
  shows "grown s s' \<and> thread_ok s' rg ([] @ is)"
  using assms thread_ok_grows by (auto simp: grown_def thread_ok_def)

lemma call_step_ok:
  assumes ready: "log_ready s" and ok: "thread_ok s rg (Call c # is)"
  shows "\<exists>new rg' s'. call_step env c (rg, s) = Ok new (rg', s') \<and> grown s s' \<and> thread_ok s' rg' (new @ is)"
proof -
  have reg: "loggable s (rg_logger rg)" and c: "call_ok s c" and rest: "code_ok s {} {} is"
    using ok by (simp_all add: thread_ok_def)
  have rest': "code_ok s K A is" for K A using rest by (rule code_ok_any)
  have same: ?thesis if "call_step env c (rg, s) = Ok new (rg, s)" "code_ok s (known rg s) {} (new @ is)" for new
    using that step_keeps_system [OF ready reg that(2)] by blast
  have quiet: ?thesis if "call_step env c (rg, s) = Ok [] (rg, s')" "grown s s'" for s'
    using that step_keeps_code [OF that(2) reg rest'] by blast
  show ?thesis
  proof (cases c)
    case (Do_SetFormatter l p)
    show ?thesis
    proof (cases "fmt_error (new_LogFormatter p)")
      case True
      with c Do_SetFormatter show ?thesis
        by (intro quiet [where s' = "print_cout s (''Logger SetFormatter name='' @ lg_name (loggers s ! l) @
              '' value='' @ p @ '' invalid formatter'' @ [CHR 0x0A])"] grown_frame [OF _ ready])
          (simp_all add: Let_def)
    next
      case False
      with c Do_SetFormatter rest' show ?thesis
        by (intro same [where new = "Logger_SetFormatter_ptr_code l (Some (new_LogFormatter p))"])
          (simp_all add: Let_def code_defs locked_def)
    qed
  next
    case (Do_SetLevel l lvl)
    with c ready_logger [OF ready] show ?thesis
      by (intro quiet [where s' = "update_logger l (\<lambda>lg. lg\<lparr>lg_level := lvl\<rparr>) s"] grown_update_logger [OF ready])
        (use ready in \<open>auto simp: logger_ok_def log_ready_def\<close>)
  next
    case (Do_appender_Log a lvl e)
    with c show ?thesis
      by (cases "ap_class (appenders s ! a)")
        (auto simp: attached_ok_def code_defs locked_def thread_ok_def reg rest' grown_refl [OF ready])
  next
    case (Do_appender_SetLevel a lvl)
    with c ready_appender_ok [OF ready] show ?thesis
      by (intro quiet [where s' = "LogAppender_SetLevel a lvl s"])
        (auto simp: LogAppender_SetLevel_def appender_ok_def intro!: grown_update_appender [OF ready])
  next
    case (Do_ZCS_LEVEL l lvl line msg)
    let ?e = "(new_LogEvent env l lvl line (env_clock env (ticks s)))\<lparr>ev_ss := ev_ss (new_LogEvent env l lvl line (env_clock env (ticks s))) @ msg\<rparr>"
    let ?s = "s\<lparr>ticks := Suc (ticks s)\<rparr>"
    have g: "grown s ?s" by (rule grown_frame [OF _ ready]) simp
    have "loggable ?s (rg_logger rg)" using reg by (simp add: loggable_def)
    moreover have "code_ok ?s {} {} is" using g rest by (auto simp: grown_def intro: code_ok_mono)
    ultimately have "thread_ok ?s rg ([Call (Do_Log l lvl ?e)] @ is)"
      using c Do_ZCS_LEVEL by (simp add: thread_ok_def loggable_def new_LogEvent_def)
    with g Do_ZCS_LEVEL show ?thesis by (simp add: Let_def)
  qed (use c in \<open>auto simp: code_defs locked_def thread_ok_def reg rest' grown_refl [OF ready] dest: loggable_less\<close>)
qed


text \<open>One instruction that is not a lock.\<close>

lemma Reopen_grown: "log_ready s \<Longrightarrow> a < length (appenders s) \<Longrightarrow> grown s (snd (FileLogAppender_Reopen env a s))"
  by (rule grown_frame [OF Reopen_frame])

definition step_ok :: "log_env \<Rightarrow> log_sys \<Rightarrow> regs \<Rightarrow> instr \<Rightarrow> instr list \<Rightarrow> bool" where
  "step_ok env s rg i is \<longleftrightarrow>
     (\<exists>new rg' s'. instr_step env i (rg, s) = Ok new (rg', s') \<and> grown s s' \<and> thread_ok s' rg' (new @ is))"

lemma step_ok_same:
  "instr_step env i (rg, s) = Ok new (rg, s) \<Longrightarrow> log_ready s \<Longrightarrow> loggable s (rg_logger rg) \<Longrightarrow>
    code_ok s (known rg s) {} (new @ is) \<Longrightarrow> step_ok env s rg i is"
  unfolding step_ok_def using step_keeps_system by blast

lemma step_ok_quiet:
  "instr_step env i (rg, s) = Ok [] (rg, s') \<Longrightarrow> grown s s' \<Longrightarrow> loggable s (rg_logger rg) \<Longrightarrow>
    code_ok s (known rg s) {} is \<Longrightarrow> step_ok env s rg i is"
  unfolding step_ok_def using step_keeps_code by blast

text \<open>The loop of \<open>Logger::Log\<close>, and the two that \<open>FileLogAppender::Log\<close> starts with.\<close>

lemma step_ok_Loop_appenders:
  assumes ready: "log_ready s" and reg: "loggable s (rg_logger rg)"
    and code: "code_ok s (known rg s) {} (Loop_appenders l lvl e # is)"
  shows "step_ok env s rg (Loop_appenders l lvl e) is"
proof -
  have l: "l < length (loggers s)" "l = mgr_root s \<or> lg_root (loggers s ! l) \<noteq> None"
      "ev_logger e < length (loggers s)" and rest: "code_ok s {} {} is"
    using code by (auto simp: loggable_def)
  have roots: "roots_ok s" using ready wf_sys_roots_ok by (auto simp: log_ready_def)
  show ?thesis
  proof (cases "lg_appenders (loggers s ! l) = []")
    case True
    then obtain r where r: "lg_root (loggers s ! l) = Some r"
      using l ready by (auto simp: log_ready_def)
    from roots_ok_logger [OF roots l(1) r] have "loggable s r" by (simp add: loggable_def)
    then show ?thesis
      by (intro step_ok_same [OF _ ready reg, where new = "[Call (Do_Log r lvl e)]"])
        (use True r l rest in auto)
  next
    case False
    let ?as = "lg_appenders (loggers s ! l)"
    have "list_all (call_ok s) (map (\<lambda>a. Do_appender_Log a lvl e) ?as)"
      using ready_logger [OF ready l(1)] l(3) by (auto simp: list_all_iff logger_ok_def)
    from code_ok_calls [OF this rest] show ?thesis
      by (intro step_ok_same [OF _ ready reg, where new = "map (\<lambda>a. Call (Do_appender_Log a lvl e)) ?as"])
        (use False in \<open>auto simp: comp_def\<close>)
  qed
qed

lemma step_ok_Check_time:
  assumes ready: "log_ready s" and reg: "loggable s (rg_logger rg)"
    and code: "code_ok s (known rg s) {} (Check_time a e # is)"
  shows "step_ok env s rg (Check_time a e) is"
proof -
  have a: "a < length (appenders s)" and rest: "code_ok s K A is" for K A
    using code code_ok_any by auto
  consider "ap_class (appenders s ! a) = StdoutLogAppender"
    | fn st lt where "ap_class (appenders s ! a) = FileLogAppender fn st lt" "lt + 3 \<le> ev_time e"
    | fn st lt where "ap_class (appenders s ! a) = FileLogAppender fn st lt" "\<not> lt + 3 \<le> ev_time e"
    by (cases "ap_class (appenders s ! a)") auto
  then show ?thesis
  proof cases
    case 2
    then show ?thesis
      by (intro step_ok_same [OF _ ready reg, where new = "[Call (Do_Reopen a), Set_last_time a (ev_time e)]"])
        (use a rest in auto)
  qed (intro step_ok_same [OF _ ready reg, where new = "[]"]; use rest in auto)+
qed

text \<open>The streams.\<close>

lemma step_ok_Set_last_time:
  assumes ready: "log_ready s" and reg: "loggable s (rg_logger rg)"
    and code: "code_ok s (known rg s) {} (Set_last_time a now # is)"
  shows "step_ok env s rg (Set_last_time a now) is"
proof -
  let ?g = "\<lambda>ap. case ap_class ap of
      FileLogAppender fn st lt \<Rightarrow> ap\<lparr>ap_class := FileLogAppender fn st now\<rparr> | StdoutLogAppender \<Rightarrow> ap"
  from code have a: "a < length (appenders s)" by simp
  have "grown s (update_appender a ?g s)"
    using ready_appender_ok [OF ready a]
    by (intro grown_update_appender [OF ready a]) (auto simp: appender_ok_def split: appender_class.splits)
  from step_ok_quiet [OF _ this reg] code show ?thesis by simp
qed

lemma step_ok_Put:
  assumes ready: "log_ready s" and reg: "loggable s (rg_logger rg)"
    and code: "code_ok s (known rg s) {} (i # is)" and i: "i = Put_cout a e it \<or> i = Put_file a e it"
  shows "step_ok env s rg i is"
proof -
  have "ev_logger e < length (loggers s)" using code i by auto
  then obtain t where "FormatItem_Format (env_time_text env) (logger_name s) e it = Some t"
    using FormatItem_Format_None [of "env_time_text env" "logger_name s" e it]
    by (cases "FormatItem_Format (env_time_text env) (logger_name s) e it") (auto simp: logger_name_def)
  moreover have "grown s (print_cout s t)" for t by (rule grown_frame [OF _ ready]) simp
  moreover have "grown s (file_put env a s t)" if "a < length (appenders s)" for t
    by (rule grown_frame [OF file_put_frame [OF that] ready])
  ultimately show ?thesis using i code by (auto intro!: step_ok_quiet [OF _ _ reg])
qed

lemma step_ok_stream:
  assumes ready: "log_ready s" and reg: "loggable s (rg_logger rg)"
    and code: "code_ok s (known rg s) {} (i # is)"
    and i: "i = Reopen_file a \<or> i = Format_cout a e \<or> i = Format_file a e \<or> i = Check_stream a"
  shows "step_ok env s rg i is"
proof -
  consider "i = Reopen_file a" | "i = Format_cout a e" | "i = Format_file a e" | "i = Check_stream a" using i by blast
  then show ?thesis
  proof cases
    case 1
    with code grown_frame [OF Reopen_frame ready, of a env] show ?thesis
      by (intro step_ok_quiet [OF _ _ reg]) auto
  next
    case 2
    with code obtain f where "ap_formatter (appenders s ! a) = Some f" by (auto simp: attached_ok_def)
    with 2 code show ?thesis
      by (intro step_ok_same [OF _ ready reg, where new = "map (Put_cout a e) (fmt_items f)"]) (auto simp: code_ok_puts)
  next
    case 3
    with code obtain f where "ap_formatter (appenders s ! a) = Some f" "a < length (appenders s)"
      by (auto simp: attached_ok_def)
    with 3 code show ?thesis
      by (intro step_ok_same [OF _ ready reg, where new = "map (Put_file a e) (fmt_items f)"]) (auto simp: code_ok_puts)
  next
    case 4
    have "grown s (if file_good a s then s else print_cout s (''error'' @ [CHR 0x0A]))"
      by (rule grown_frame [OF _ ready]) simp
    with 4 code show ?thesis by (intro step_ok_quiet [OF _ _ reg]) auto
  qed
qed

text \<open>The lists of appenders.\<close>

lemma step_ok_logger:
  assumes ready: "log_ready s" and reg: "loggable s (rg_logger rg)"
    and step: "instr_step env i (rg, s) = Ok [] (rg, update_logger l f s)" and l: "l < length (loggers s)"
    and same: "lg_name (f (loggers s ! l)) = lg_name (loggers s ! l)"
      "lg_root (f (loggers s ! l)) = lg_root (loggers s ! l)"
      "lg_formatter (f (loggers s ! l)) \<noteq> None"
    and as: "\<forall>a \<in> set (lg_appenders (f (loggers s ! l))). attached_ok s a"
    and root: "l = mgr_root s \<Longrightarrow> lg_appenders (f (loggers s ! l)) \<noteq> []"
    and rest: "code_ok s (known rg s) {} is"
  shows "step_ok env s rg i is"
proof -
  have "logger_ok s (f (loggers s ! l))"
    using ready_logger [OF ready l] same as by (simp add: logger_ok_def)
  then have "grown s (update_logger l f s)" by (intro grown_update_logger [OF ready l]) (use same root in auto)
  from step_ok_quiet [OF step this reg rest] show ?thesis .
qed

lemma step_ok_list:
  assumes ready: "log_ready s" and reg: "loggable s (rg_logger rg)"
    and code: "code_ok s (known rg s) {} (i # is)"
    and i: "i = Push_appender l a \<or> i = Erase_appender l a \<or> i = Clear_appenders l \<or> i = Store_formatter l f"
  shows "step_ok env s rg i is"
proof -
  have l: "l < length (loggers s)" using code i by auto
  have ok: "lg_formatter (loggers s ! l) \<noteq> None" "\<forall>a \<in> set (lg_appenders (loggers s ! l)). attached_ok s a"
    using ready_logger [OF ready l] by (simp_all add: logger_ok_def)
  have root: "lg_appenders (loggers s ! mgr_root s) \<noteq> []" using ready by (simp add: log_ready_def)
  show ?thesis
    using i
  proof (elim disjE)
    assume i: "i = Push_appender l a"
    show ?thesis
      by (rule step_ok_logger [OF ready reg, where l = l and f = "\<lambda>lg. lg\<lparr>lg_appenders := lg_appenders lg @ [a]\<rparr>"])
        (use i l ok code in auto)
  next
    assume i: "i = Erase_appender l a"
    show ?thesis
      by (rule step_ok_logger [OF ready reg, where l = l and f = "\<lambda>lg. lg\<lparr>lg_appenders := erase_first a (lg_appenders lg)\<rparr>"])
        (use i l ok code set_erase_first [of a "lg_appenders (loggers s ! l)"] in auto)
  next
    assume i: "i = Clear_appenders l"
    show ?thesis
      by (rule step_ok_logger [OF ready reg, where l = l and f = "\<lambda>lg. lg\<lparr>lg_appenders := []\<rparr>"])
        (use i l ok code in auto)
  next
    assume i: "i = Store_formatter l f"
    show ?thesis
      by (rule step_ok_logger [OF ready reg, where l = l and f = "\<lambda>lg. lg\<lparr>lg_formatter := f\<rparr>"])
        (use i l ok code root in auto)
  qed
qed

text \<open>The formatters of appenders.\<close>

lemma step_ok_Read:
  assumes ready: "log_ready s" and reg: "loggable s (rg_logger rg)"
    and code: "code_ok s (known rg s) {} (Read_appender_formatter a # is)"
  shows "step_ok env s rg (Read_appender_formatter a) is"
proof -
  let ?rg = "rg\<lparr>rg_formatter := LogAppender_GetFormatter a s\<rparr>"
  from code have a: "a < length (appenders s)" and rest: "code_ok s {a} {} is" by auto
  have "{a} \<subseteq> known ?rg s" using a by (auto simp: known_def LogAppender_GetFormatter_def attached_ok_def)
  with rest have "code_ok s (known ?rg s) {} is" by (auto intro: code_ok_mono)
  with reg ready show ?thesis by (simp add: step_ok_def grown_refl thread_ok_def)
qed

lemma step_ok_Inherit_if_null:
  assumes ready: "log_ready s" and reg: "loggable s (rg_logger rg)"
    and code: "code_ok s (known rg s) {} (Inherit_if_null a l # is)"
  shows "step_ok env s rg (Inherit_if_null a l) is"
proof (cases "rg_formatter rg")
  case None
  with code show ?thesis by (intro step_ok_same [OF _ ready reg, where new = "[Inherit_assign a l]"]) auto
next
  case (Some f)
  with code have "attached_ok s a" and "code_ok s (known rg s) {a} is" by (auto simp: known_def)
  then have "code_ok s (known rg s) {} is" by - (rule code_ok_attached [of _ _ "{a}"], auto)
  with Some show ?thesis by (intro step_ok_same [OF _ ready reg, where new = "[]"]) auto
qed

lemma step_ok_Inherit_assign:
  assumes ready: "log_ready s" and reg: "loggable s (rg_logger rg)"
    and code: "code_ok s (known rg s) {} (Inherit_assign a l # is)"
  shows "step_ok env s rg (Inherit_assign a l) is"
proof -
  from code have a: "a < length (appenders s)" "l < length (loggers s)" and rest: "code_ok s (known rg s) {a} is"
    by auto
  let ?s = "update_appender a (\<lambda>ap. ap\<lparr>ap_formatter := lg_formatter (loggers s ! l)\<rparr>) s"
  have fmt: "lg_formatter (loggers s ! l) \<noteq> None" using ready_logger [OF ready a(2)] by (simp add: logger_ok_def)
  have g: "grown s ?s"
    using ready_appender_ok [OF ready a(1)] fmt
    by (intro grown_update_appender [OF ready a(1)]) (auto simp: appender_ok_def)
  have "attached_ok ?s a" using fmt a by (auto simp: attached_ok_def sys_simps)
  moreover have "code_ok ?s (known rg s) {a} is" using rest g by (auto simp: grown_def intro: code_ok_mono)
  ultimately have "code_ok ?s (known rg s) {} is" by - (rule code_ok_attached [of _ _ "{a}"], auto)
  moreover have "known rg s \<subseteq> known rg ?s" using g by (auto simp: known_def grown_def sys_grows_def)
  ultimately have "code_ok ?s (known rg ?s) {} is" by (auto intro: code_ok_mono)
  moreover have "loggable ?s (rg_logger rg)" using g reg loggable_grows by (auto simp: grown_def)
  ultimately show ?thesis using g by (auto simp: step_ok_def thread_ok_def)
qed

lemma step_ok_inherit_loop:
  assumes ready: "log_ready s" and reg: "loggable s (rg_logger rg)"
    and code: "code_ok s (known rg s) {} (i # is)" and i: "i = Loop_inherit l \<or> i = Inherit_check a l"
  shows "step_ok env s rg i is"
  using i
proof
  assume i: "i = Loop_inherit l"
  with code have l: "l < length (loggers s)" and rest: "code_ok s (known rg s) {} is" by auto
  have "\<forall>a \<in> set (lg_appenders (loggers s ! l)). a < length (appenders s)"
    using ready_logger [OF ready l] by (auto simp: logger_ok_def attached_ok_def)
  with rest l i show ?thesis
    by (intro step_ok_same [OF _ ready reg, where new = "map (\<lambda>a. Inherit_check a l) (lg_appenders (loggers s ! l))"])
      (auto simp: code_ok_checks)
next
  assume i: "i = Inherit_check a l"
  with code have a: "a < length (appenders s)" "l < length (loggers s)" and rest: "code_ok s (known rg s) {} is" by auto
  have "code_ok s (known rg s) {a} is" by (rule code_ok_mono [OF rest]) simp_all
  with a rest i show ?thesis
    by (intro step_ok_same [OF _ ready reg, where
        new = "if \<not> ap_has_formatter (appenders s ! a) then [Inherit_assign a l] else []"]) auto
qed

lemma step_ok_Store_appender_formatter:
  assumes ready: "log_ready s" and reg: "loggable s (rg_logger rg)"
    and code: "code_ok s (known rg s) {} (Store_appender_formatter a f # is)"
  shows "step_ok env s rg (Store_appender_formatter a f) is"
proof -
  from code have a: "a < length (appenders s)" "f \<noteq> None" by auto
  have "grown s (LogAppender_SetFormatter a f s)"
    using ready_appender_ok [OF ready a(1)] a unfolding LogAppender_SetFormatter_def
    by (intro grown_update_appender [OF ready a(1)]) (auto simp: appender_ok_def)
  from step_ok_quiet [OF _ this reg] code show ?thesis by simp
qed

lemma step_ok_Find_logger:
  assumes ready: "log_ready s" and code: "code_ok s (known rg s) {} (Find_logger name # is)"
  shows "step_ok env s rg (Find_logger name) is"
proof -
  obtain l s' where get: "LoggerManager_GetLogger name s = (l, s')" by fastforce
  note g = grown_GetLogger [OF ready get]
  have "known rg s \<subseteq> known (rg\<lparr>rg_logger := l\<rparr>) s'" using g by (auto simp: known_def grown_def sys_grows_def)
  moreover have "code_ok s (known rg s) {} is" "sys_grows s s'" using code g by (simp_all add: grown_def)
  ultimately have "code_ok s' (known (rg\<lparr>rg_logger := l\<rparr>) s') {} is" by - (rule code_ok_mono, auto)
  then have "thread_ok s' (rg\<lparr>rg_logger := l\<rparr>) is" using g by (simp add: thread_ok_def)
  with g get show ?thesis by (simp add: step_ok_def)
qed

lemma instr_step_ok:
  assumes ready: "log_ready s" and ok: "thread_ok s rg (i # is)"
  shows "step_ok env s rg i is"
proof -
  have reg: "loggable s (rg_logger rg)" and code: "code_ok s (known rg s) {} (i # is)"
    using ok by (simp_all add: thread_ok_def)
  show ?thesis
  proof (cases i)
    case (Call c)
    with call_step_ok [OF ready, of rg c "is" env] ok show ?thesis by (simp add: step_ok_def)
  next
    case (Read_formatter l)
    with code reg ready code_ok_any show ?thesis by (auto simp: grown_refl thread_ok_def step_ok_def)
  next
    case (Macro_log lvl line msg)
    with code reg show ?thesis
      by (intro step_ok_same [OF _ ready reg, where new = "[Call (Do_ZCS_LEVEL (rg_logger rg) lvl line msg)]"]) auto
  next
    case (Find_logger name)
    with code step_ok_Find_logger [OF ready] show ?thesis by simp
  next
    case (Acquire k)
    with code show ?thesis by (intro step_ok_same [OF _ ready reg, where new = "[]"]) auto
  next
    case (Release k)
    with code show ?thesis by (intro step_ok_same [OF _ ready reg, where new = "[]"]) auto
  next
    case (Loop_appenders l lvl e)
    with code step_ok_Loop_appenders [OF ready reg] show ?thesis by simp
  next
    case (Check_time a e)
    with code step_ok_Check_time [OF ready reg] show ?thesis by simp
  next
    case (Set_last_time a now)
    with code step_ok_Set_last_time [OF ready reg] show ?thesis by simp
  next
    case (Put_cout a e it)
    with step_ok_Put [OF ready reg code] show ?thesis by blast
  next
    case (Put_file a e it)
    with step_ok_Put [OF ready reg code] show ?thesis by blast
  next
    case (Read_appender_formatter a)
    with code step_ok_Read [OF ready reg] show ?thesis by simp
  next
    case (Inherit_if_null a l)
    with code step_ok_Inherit_if_null [OF ready reg] show ?thesis by simp
  next
    case (Inherit_assign a l)
    with code step_ok_Inherit_assign [OF ready reg] show ?thesis by simp
  next
    case (Store_appender_formatter a f)
    with code step_ok_Store_appender_formatter [OF ready reg] show ?thesis by simp
  next
    case (Loop_inherit l)
    with step_ok_inherit_loop [OF ready reg code] show ?thesis by blast
  next
    case (Inherit_check a l)
    with step_ok_inherit_loop [OF ready reg code] show ?thesis by blast
  next
    case (Push_appender l a)
    with step_ok_list [OF ready reg code] show ?thesis by blast
  next
    case (Erase_appender l a)
    with step_ok_list [OF ready reg code] show ?thesis by blast
  next
    case (Clear_appenders l)
    with step_ok_list [OF ready reg code] show ?thesis by blast
  next
    case (Store_formatter l f)
    with step_ok_list [OF ready reg code] show ?thesis by blast
  qed (use step_ok_stream [OF ready reg code] in blast)+
qed

section \<open>Who uses the formatter of an appender\<close>

text \<open>
  \<open>own\<close> says for each appender which logger it belongs to, or that it belongs to none. An appender of a
  logger is added to that logger only, and its formatter is used and assigned only under the lock
  of that logger; the others are used directly, under their own lock.
\<close>

definition owned :: "(nat \<Rightarrow> nat option) \<Rightarrow> log_sys \<Rightarrow> bool" where
  "owned own s \<longleftrightarrow> (\<forall>l < length (loggers s). \<forall>a \<in> set (lg_appenders (loggers s ! l)). own a = Some l)"

fun call_owned :: "(nat \<Rightarrow> nat option) \<Rightarrow> log_call \<Rightarrow> bool" where
  "call_owned own (Do_AddAppender l a) = (own a = Some l)"
| "call_owned own (Do_appender_Log a lvl e) = (own a = None)"
| "call_owned own (Do_appender_SetFormatter a f) = (own a = None)"
| "call_owned own (Do_appender_GetFormatter a) = (own a = None)"
| "call_owned own c = True"

definition may_format :: "(nat \<Rightarrow> nat option) \<Rightarrow> log_lock list \<Rightarrow> nat \<Rightarrow> bool" where
  "may_format own H a \<longleftrightarrow> (case own a of None \<Rightarrow> True | Some l \<Rightarrow> Logger_mutex l \<in> set H)"

fun guards :: "(nat \<Rightarrow> nat option) \<Rightarrow> log_lock list \<Rightarrow> instr \<Rightarrow> bool" where
  "guards own H (Call (Do_AddAppender l a)) = (own a = Some l)"
| "guards own H (Call (Do_appender_Log a lvl e)) = may_format own H a"
| "guards own H (Loop_appenders l lvl e) = (Logger_mutex l \<in> set H)"
| "guards own H (Loop_inherit l) = (Logger_mutex l \<in> set H)"
| "guards own H (Format_cout a e) = may_format own H a"
| "guards own H (Put_cout a e it) = may_format own H a"
| "guards own H (Format_file a e) = may_format own H a"
| "guards own H (Put_file a e it) = may_format own H a"
| "guards own H (Inherit_if_null a l) = (own a = Some l \<and> Logger_mutex l \<in> set H)"
| "guards own H (Inherit_check a l) = (own a = Some l \<and> Logger_mutex l \<in> set H)"
| "guards own H (Inherit_assign a l) = (own a = Some l \<and> Logger_mutex l \<in> set H)"
| "guards own H (Push_appender l a) = (own a = Some l)"
| "guards own H i = True"

fun guarded :: "(nat \<Rightarrow> nat option) \<Rightarrow> log_lock list \<Rightarrow> instr list \<Rightarrow> bool" where
  "guarded own H [] = True"
| "guarded own H (Acquire k # is) = guarded own (k # H) is"
| "guarded own H (Release k # is) = guarded own (tl H) is"
| "guarded own H (i # is) = (guards own H i \<and> guarded own H is)"

lemma guarded_plain:
  "\<not> is_lock_instr i \<Longrightarrow> guarded own H (i # is) \<longleftrightarrow> guards own H i \<and> guarded own H is"
  by (cases i) auto

lemma guarded_append_plain:
  "\<forall>i \<in> set js. \<not> is_lock_instr i \<and> guards own H i \<Longrightarrow> guarded own H (js @ is) = guarded own H is"
  by (induction js) (auto simp: guarded_plain)

lemma guarded_locked: "guarded own H (locked k js @ is) = guarded own (k # H) (js @ Release k # is)"
  by (simp add: locked_def)

lemma may_format_Cons: "may_format own H a \<Longrightarrow> may_format own (k # H) a"
  by (auto simp: may_format_def split: option.splits)

lemma guarded_call:
  assumes step: "call_step env c (rg, s) = Ok new (rg', s')" and rest: "guarded own H is"
    and ok: "guards own H (Call c)"
  shows "guarded own H (new @ is)"
  using step rest ok may_format_Cons
  by (cases c) (auto simp: code_defs guarded_locked locked_def Let_def split: if_splits appender_class.splits)

lemma guarded_expand:
  assumes step: "instr_step env i (rg, s) = Ok new (rg', s')" and plain: "\<not> is_lock_instr i"
    and code: "guarded own H (i # is)" and own: "owned own s"
    and loop: "\<And>l lvl e. i = Loop_appenders l lvl e \<or> i = Loop_inherit l \<Longrightarrow> l < length (loggers s)"
  shows "guarded own H (new @ is)"
proof -
  have ok: "guards own H i" and rest: "guarded own H is" using code plain by (simp_all add: guarded_plain)
  show ?thesis
  proof (cases i)
    case (Call c)
    with step ok rest guarded_call show ?thesis by simp
  next
    case (Loop_appenders l lvl e)
    have "\<forall>a \<in> set (lg_appenders (loggers s ! l)). own a = Some l"
      using own loop [of l lvl e] Loop_appenders by (simp add: owned_def)
    with Loop_appenders step ok rest show ?thesis
      by (auto simp: guarded_append_plain may_format_def split: if_splits option.splits)
  next
    case (Loop_inherit l)
    have "\<forall>a \<in> set (lg_appenders (loggers s ! l)). own a = Some l"
      using own loop [of l] Loop_inherit by (simp add: owned_def)
    with Loop_inherit step ok rest show ?thesis by (auto simp: guarded_append_plain)
  qed (use step ok rest in \<open>auto simp: guarded_append_plain split: if_splits appender_class.splits option.splits prod.splits\<close>)
qed

lemma owned_same: "loggers s' = loggers s \<Longrightarrow> owned own s' = owned own s"
  by (simp add: owned_def)

lemma owned_update_logger:
  assumes "owned own s"
    and "l < length (loggers s) \<Longrightarrow> set (lg_appenders (f (loggers s ! l))) \<subseteq> {a. own a = Some l}"
  shows "owned own (update_logger l f s)"
  using assms by (auto simp: owned_def sys_simps subset_iff)

lemma owned_logger: "owned own s \<Longrightarrow> l < length (loggers s) \<Longrightarrow> set (lg_appenders (loggers s ! l)) \<subseteq> {a. own a = Some l}"
  by (auto simp: owned_def)

lemma owned_same_list:
  "owned own s \<Longrightarrow> lg_appenders (f (loggers s ! l)) = lg_appenders (loggers s ! l) \<Longrightarrow> owned own (update_logger l f s)"
  by (rule owned_update_logger) (simp_all add: owned_logger)

lemma owned_GetLogger: "owned own s \<Longrightarrow> owned own (snd (LoggerManager_GetLogger name s))"
  by (cases "map_find string_lt name (mgr_loggers s)")
    (auto simp: owned_def GetLogger_found GetLogger_fresh nth_append new_Logger_def less_Suc_eq)

lemma owned_call_step:
  assumes "call_step env c (rg, s) = Ok new (rg', s')" and "owned own s"
  shows "owned own s'"
  using assms
  by (cases c) (auto simp: Let_def sys_simps LogAppender_SetLevel_def owned_same [of "update_appender a f s" s for a f]
      owned_same [of "print_cout s t" s for t] owned_same [of "s\<lparr>ticks := n\<rparr>" s for n]
      intro!: owned_same_list split: if_splits appender_class.splits)

lemma owned_step:
  assumes step: "instr_step env i (rg, s) = Ok new (rg', s')" and ok: "guards own H i" and own: "owned own s"
  shows "owned own s'"
proof -
  have up: "owned own (update_logger l f s)"
    if "l < length (loggers s) \<Longrightarrow> set (lg_appenders (f (loggers s ! l))) \<subseteq> insert a (set (lg_appenders (loggers s ! l)))"
      "own a = Some l \<or> a \<in> set (lg_appenders (loggers s ! l))" for l f a
    using that owned_logger [OF own] by (intro owned_update_logger [OF own]) blast
  have less: "owned own (update_logger l f s)"
    if "l < length (loggers s) \<Longrightarrow> set (lg_appenders (f (loggers s ! l))) \<subseteq> set (lg_appenders (loggers s ! l))" for l f
    using that owned_logger [OF own] by (intro owned_update_logger [OF own]) blast
  show ?thesis
  proof (cases i)
    case (Call c)
    with step own owned_call_step show ?thesis by simp
  next
    case (Push_appender l a)
    with step ok show ?thesis by (auto intro: up [where a = a])
  next
    case (Erase_appender l a)
    with step set_erase_first [of a "lg_appenders (loggers s ! l)"] show ?thesis by (auto intro!: less)
  next
    case (Clear_appenders l)
    with step show ?thesis by (auto intro!: less)
  next
    case (Store_formatter l f)
    with step show ?thesis by (auto intro!: less)
  next
    case (Find_logger name)
    with step owned_GetLogger [OF own, of name] show ?thesis by (auto split: prod.splits)
  next
    case (Set_last_time a now)
    with step own show ?thesis by (auto simp: owned_same [OF update_appender_simps(1)])
  next
    case (Reopen_file a)
    with step own show ?thesis by (auto simp: owned_same [OF Reopen_same(1)])
  next
    case (Put_cout a e it)
    with step own show ?thesis by (auto simp: owned_same [OF print_cout_simps(1)] split: option.splits)
  next
    case (Put_file a e it)
    with step own show ?thesis by (auto simp: owned_same [OF loggers_file_put] split: option.splits)
  next
    case (Check_stream a)
    with step own show ?thesis by (auto simp: owned_same [OF print_cout_simps(1)])
  next
    case (Inherit_assign a l)
    with step own show ?thesis by (auto simp: owned_same [OF update_appender_simps(1)])
  next
    case (Store_appender_formatter a f)
    with step own show ?thesis by (auto simp: LogAppender_SetFormatter_def owned_same [OF update_appender_simps(1)])
  qed (use step own in \<open>auto split: if_splits appender_class.splits option.splits\<close>)
qed

section \<open>All threads together\<close>

text \<open>\<open>H t\<close> are the locks that thread \<open>t\<close> holds.\<close>

definition par_inv :: "(nat \<Rightarrow> nat option) \<Rightarrow> (nat \<Rightarrow> log_lock list) \<Rightarrow> log_machine \<Rightarrow> bool" where
  "par_inv own H m \<longleftrightarrow>
     log_ready (lm_sys m) \<and> owned own (lm_sys m) \<and>
     (\<forall>t < length (lm_threads m).
        thread_ok (lm_sys m) (lth_regs (lm_threads m ! t)) (lth_code (lm_threads m ! t)) \<and>
        ordered (mgr_root (lm_sys m)) (H t) (lth_code (lm_threads m ! t)) \<and> distinct (H t) \<and>
        guarded own (H t) (lth_code (lm_threads m ! t))) \<and>
     (\<forall>k t. lm_locks m k = Some t \<longleftrightarrow> t < length (lm_threads m) \<and> k \<in> set (H t))"

lemma par_inv_thread:
  assumes "par_inv own H m" and "t < length (lm_threads m)"
    and "lm_threads m ! t = \<lparr>lth_code = is, lth_regs = rg\<rparr>"
  shows "thread_ok (lm_sys m) rg is" and "ordered (mgr_root (lm_sys m)) (H t) is" and "distinct (H t)"
    and "guarded own (H t) is"
  using assms by (auto simp: par_inv_def)

lemma thread_ok_lock:
  "thread_ok s rg (Acquire k # is) = thread_ok s rg is" "thread_ok s rg (Release k # is) = thread_ok s rg is"
  by (simp_all add: thread_ok_def)

lemma thread_ok_loop: "thread_ok s rg (Loop_appenders l lvl e # is) \<Longrightarrow> l < length (loggers s)"
  by (auto simp: thread_ok_def loggable_def)

lemma thread_ok_inherit: "thread_ok s rg (Loop_inherit l # is) \<Longrightarrow> l < length (loggers s)"
  by (auto simp: thread_ok_def)

lemma par_inv_instr:
  assumes inv: "par_inv own H m" and t: "t < length (lm_threads m)"
    and th: "lm_threads m ! t = \<lparr>lth_code = i # is, lth_regs = rg\<rparr>" and plain: "\<not> is_lock_instr i"
    and step: "instr_step (env t) i (rg, lm_sys m) = Ok new (rg', s')"
  shows "par_inv own H (set_thread t (new @ is) rg' (m\<lparr>lm_sys := s'\<rparr>))"
proof -
  have ready: "log_ready (lm_sys m)" using inv by (simp add: par_inv_def)
  note thr = par_inv_thread [OF inv t th]
  have g: "grown (lm_sys m) s'" and ok: "thread_ok s' rg' (new @ is)"
    using instr_step_ok [OF ready thr(1), of "env t"] step by (auto simp: step_ok_def)
  have roots: "roots_ok (lm_sys m)" using ready wf_sys_roots_ok by (auto simp: log_ready_def)
  have "ordered (mgr_root (lm_sys m)) (H t) (new @ is)"
    using thread_ok_loop thr(1) by (intro ordered_expand [OF step roots plain _ thr(2)]) auto
  moreover have own: "owned own (lm_sys m)" using inv by (simp add: par_inv_def)
  have "guarded own (H t) (new @ is)"
    using thread_ok_loop thread_ok_inherit thr(1) by (intro guarded_expand [OF step plain thr(4) own]) auto
  moreover have "owned own s'"
    using guarded_plain [OF plain] thr(4) by (intro owned_step [OF step _ own]) blast
  ultimately show ?thesis using inv g ok t
    by (auto simp: par_inv_def set_thread_lookup grown_def sys_grows_def intro: thread_ok_grows [of "lm_sys m"])
qed

lemma par_inv_step:
  assumes inv: "par_inv own H m" and step: "par_step env m m'"
  shows "\<exists>H'. par_inv own H' m'"
  using step
proof (cases rule: par_stepE)
  case (acquire t k "is" rg)
  note thr = par_inv_thread [OF inv acquire(1,2)]
  have "lm_locks m k = Some u" if "u < length (lm_threads m)" "k \<in> set (H u)" for u
    using inv that by (simp add: par_inv_def)
  with acquire(3) have "k \<notin> set (H u)" if "u < length (lm_threads m)" for u using that by auto
  with inv thr acquire have "par_inv own (H(t := k # H t)) m'"
    by (auto simp: par_inv_def set_thread_lookup thread_ok_lock)
  then show ?thesis by blast
next
  case (release t k "is" rg)
  note thr = par_inv_thread [OF inv release(1,2)]
  then obtain ks where H: "H t = k # ks" "k \<notin> set ks" by (cases "H t") auto
  have held: "lm_locks m k = Some t" using inv release(1) H by (simp add: par_inv_def)
  moreover have "lm_locks m k = Some u" if "u < length (lm_threads m)" "k \<in> set (H u)" for u
    using inv that by (simp add: par_inv_def)
  ultimately have "k \<notin> set (H u)" if "u < length (lm_threads m)" "u \<noteq> t" for u using that by fastforce
  with inv thr release H held have "par_inv own (H(t := ks)) m'"
    by (auto simp: par_inv_def set_thread_lookup thread_ok_lock)
  then show ?thesis by blast
next
  case (instr t i "is" rg new rg' s')
  with par_inv_instr [where env = env, OF inv instr(1,2,3,4)] show ?thesis by blast
qed

lemma par_inv_start:
  assumes "log_ready s" and "\<forall>cs \<in> set css. \<forall>c \<in> set cs. call_ok s c \<and> call_owned own c" and "owned own s"
  shows "par_inv own (\<lambda>_. []) (start_threads s css)"
proof -
  have code: "code_ok s K {} (map Call cs)" if "list_all (call_ok s) cs" for K cs
    using code_ok_calls [OF that, of "{}" "[]"] by simp
  have ord: "ordered r [] (map Call cs)" for r cs by (induction cs) auto
  have "guards own [] (Call c)" if "call_owned own c" for c using that by (cases c) (auto simp: may_format_def)
  then have "guarded own [] (map Call cs)" if "list_all (call_owned own) cs" for cs using that by (induction cs) auto
  then have grd: "guarded own [] (map Call (css ! t))" if "t < length css" for t
    using assms(2) nth_mem [OF that] by (simp add: list_all_iff)
  have "loggable s (mgr_root s)" using assms(1) wf_sys_root by (auto simp: loggable_def log_ready_def)
  moreover have "code_ok s K {} (map Call (css ! t))" if "t < length css" for K t
    using assms(2) that by (intro code) (auto simp: list_all_iff)
  ultimately show ?thesis
    using assms(1,3) ord grd by (auto simp: par_inv_def start_threads_def new_SpinLock_def thread_ok_def)
qed

lemma par_inv_reach:
  "par_reach env m m' \<Longrightarrow> \<exists>H. par_inv own H m \<Longrightarrow> \<exists>H. par_inv own H m'"
  by (induction rule: rtranclp_induct) (auto dest: par_inv_step)

text \<open>A thread that has not ended goes on, unless it is in front of a lock that is taken.\<close>

lemma par_inv_no_race:
  assumes inv: "par_inv own H m" and t: "t < length (lm_threads m)"
    and th: "lm_threads m ! t = \<lparr>lth_code = i # is, lth_regs = rg\<rparr>"
  shows "\<not> races t i m"
proof
  assume "races t i m"
  then obtain a l where i: "i = Inherit_assign a l" and "in_Format t a m" by (cases i) auto
  then obtain u where u: "u < length (lm_threads m)" "u \<noteq> t" "formats_for a (lth_code (lm_threads m ! u))"
    by (auto simp: in_Format_def list_ex_iff in_set_enumerate_eq)
  have "guarded own (H t) (i # is)" using par_inv_thread(4) [OF inv t th] .
  then have own: "own a = Some l" "Logger_mutex l \<in> set (H t)" by (simp_all add: i)
  have "guarded own (H u) (lth_code (lm_threads m ! u))" using inv u(1) by (simp add: par_inv_def)
  then have "may_format own (H u) a"
    using u(3) by (cases "(a, lth_code (lm_threads m ! u))" rule: formats_for.cases) auto
  then have "Logger_mutex l \<in> set (H u)" using own(1) by (simp add: may_format_def)
  moreover have "lm_locks m k = Some v" if "v < length (lm_threads m)" "k \<in> set (H v)" for k v
    using inv that unfolding par_inv_def by blast
  ultimately have "lm_locks m (Logger_mutex l) = Some t" "lm_locks m (Logger_mutex l) = Some u"
    using own(2) t u(1) by blast+
  with u(2) show False by simp
qed

lemma par_inv_move:
  assumes inv: "par_inv own H m" and t: "t < length (lm_threads m)"
    and th: "lm_threads m ! t = \<lparr>lth_code = i # is, lth_regs = rg\<rparr>"
    and free: "\<And>k. i = Acquire k \<Longrightarrow> lm_locks m k = None"
  shows "\<exists>m'. thread_move env t m = Some (Ok () m')"
proof (cases "is_lock_instr i")
  case True
  then show ?thesis using th free by (cases i) (auto simp: move_Acquire move_Release)
next
  case False
  have "log_ready (lm_sys m)" using inv by (simp add: par_inv_def)
  from instr_step_ok [OF this par_inv_thread(1) [OF inv t th], of "env t"] False th par_inv_no_race [OF inv t th] show ?thesis
    by (auto simp: step_ok_def move_instr)
qed

lemma par_inv_no_crash: "par_inv own H m \<Longrightarrow> \<not> par_crashes env m"
proof
  assume inv: "par_inv own H m" and "par_crashes env m"
  then obtain t r where t: "t < length (lm_threads m)" and r: "thread_move env t m = Some r" "\<nexists>m'. r = Ok () m'"
    by (auto simp: par_crashes_def)
  obtain code rg where th: "lm_threads m ! t = \<lparr>lth_code = code, lth_regs = rg\<rparr>"
    by (cases "lm_threads m ! t") auto
  with r(1) obtain i "is" where code: "code = i # is" by (cases code) (auto simp: move_ended)
  have "lm_locks m k = None" if "i = Acquire k" for k
    using r(1) th code that by (auto simp: move_Acquire split: if_splits)
  from par_inv_move [OF inv t th [unfolded code] this, of env] r show False by auto
qed

text \<open>Of the threads that wait, one that waits for a lock of the highest rank waits for nobody.\<close>

lemma par_inv_progress:
  assumes inv: "par_inv own H m" and running: "\<not> all_ended m"
  shows "\<exists>m'. par_step env m m'"
proof (rule ccontr)
  assume stuck: "\<nexists>m'. par_step env m m'"
  let ?r = "mgr_root (lm_sys m)" and ?n = "length (lm_threads m)"
  let ?waits = "\<lambda>t k. t < ?n \<and> (\<exists>is. lth_code (lm_threads m ! t) = Acquire k # is)"
  have waits: "\<exists>k u. ?waits t k \<and> lm_locks m k = Some u" if t: "t < ?n" "lth_code (lm_threads m ! t) \<noteq> []" for t
  proof -
    obtain i "is" rg where th: "lm_threads m ! t = \<lparr>lth_code = i # is, lth_regs = rg\<rparr>"
      using t(2) by (cases "lm_threads m ! t"; cases "lth_code (lm_threads m ! t)") auto
    have "\<exists>k. i = Acquire k \<and> lm_locks m k \<noteq> None"
    proof (rule ccontr)
      assume "\<nexists>k. i = Acquire k \<and> lm_locks m k \<noteq> None"
      then have "\<exists>m'. thread_move env t m = Some (Ok () m')" by (intro par_inv_move [OF inv t(1) th]) blast
      with stuck t(1) show False by (auto simp: par_step_def)
    qed
    with t(1) th show ?thesis by auto
  qed
  define R where "R = {lock_rank ?r k | t k. ?waits t k}"
  obtain t where t: "t < ?n" "lth_code (lm_threads m ! t) \<noteq> []"
    using running by (auto simp: all_ended_def in_set_conv_nth)
  with waits have "R \<noteq> {}" unfolding R_def by blast
  moreover have "R \<subseteq> {..<4}" by (auto simp: R_def)
  then have fin: "finite R" by (rule finite_subset) simp
  ultimately obtain top where top: "top \<in> R" "top = Max R" using Max_in by blast
  then obtain t k where tk: "?waits t k" "lock_rank ?r k = top" unfolding R_def by blast
  then obtain u where u: "lm_locks m k = Some u" using waits [of t] by fastforce
  then have un: "u < ?n" and held: "k \<in> set (H u)" using inv by (auto simp: par_inv_def)
  have ord: "ordered ?r (H u) (lth_code (lm_threads m ! u))" using inv un by (simp add: par_inv_def)
  then have "lth_code (lm_threads m ! u) \<noteq> []" using held by auto
  with waits [OF un] obtain k' where k': "?waits u k'" by blast
  with ord held have "lock_rank ?r k < lock_rank ?r k'" by (auto simp: above_def)
  also have "lock_rank ?r k' \<le> Max R" using k' by (intro Max_ge [OF fin]) (auto simp: R_def)
  finally show False using tk(2) top(2) by simp
qed


section \<open>Every run ends\<close>

text \<open>The size of an instruction: larger than each of those that replace it.\<close>

fun call_level :: "nat \<Rightarrow> log_call \<Rightarrow> nat" where
  "call_level r (Do_Log l lvl e) = (if l = r then 6 else 8)"
| "call_level r (Do_AddAppender l a) = 2"
| "call_level r (Do_SetFormatter l p) = 3"
| "call_level r (Do_SetFormatter_ptr l f) = 3"
| "call_level r (Do_appender_Log a lvl e) = 4"
| "call_level r (Do_ZCS_LEVEL l lvl line msg) = 9"
| "call_level r (Do_ZCS_LEVEL_name name lvl line msg) = 11"
| "call_level r _ = 1"

fun level_of :: "nat \<Rightarrow> instr \<Rightarrow> nat" where
  "level_of r (Call c) = call_level r c"
| "level_of r (Loop_appenders l lvl e) = (if l = r then 5 else 7)"
| "level_of r (Check_time a e) = 2"
| "level_of r (Format_cout a e) = 1"
| "level_of r (Format_file a e) = 1"
| "level_of r (Inherit_if_null a l) = 1"
| "level_of r (Loop_inherit l) = 2"
| "level_of r (Inherit_check a l) = 1"
| "level_of r (Macro_log lvl line msg) = 10"
| "level_of r _ = 0"

lemma level_of_call:
  assumes "call_step env c (rg, s) = Ok new (rg', s')"
  shows "\<forall>i \<in> set new. level_of r i < call_level r c"
  using assms by (cases c) (auto simp: code_defs locked_def Let_def split: if_splits appender_class.splits)

lemma level_of_expand:
  assumes step: "instr_step env i (rg, s) = Ok new (rg', s')" and roots: "roots_ok s"
    and loop: "\<And>l lvl e. i = Loop_appenders l lvl e \<Longrightarrow> l < length (loggers s)"
  shows "\<forall>j \<in> set new. level_of (mgr_root s) j < level_of (mgr_root s) i"
proof (cases i)
  case (Call c)
  with step level_of_call show ?thesis by simp
next
  case (Loop_appenders l lvl e)
  show ?thesis
  proof (cases "lg_appenders (loggers s ! l) = []")
    case True
    with step Loop_appenders obtain k where k: "lg_root (loggers s ! l) = Some k" "new = [Call (Do_Log k lvl e)]"
      by (auto split: option.splits)
    with roots_ok_logger [OF roots loop [OF Loop_appenders] k(1)] Loop_appenders show ?thesis by auto
  next
    case False
    with step Loop_appenders show ?thesis by auto
  qed
next
  case (Macro_log lvl line msg)
  with step show ?thesis by auto
qed (use step in \<open>auto split: if_splits appender_class.splits option.splits prod.splits\<close>)

definition thread_size :: "nat \<Rightarrow> log_thread \<Rightarrow> nat multiset" where
  "thread_size r th = mset (map (level_of r) (lth_code th))"

definition par_size :: "log_machine \<Rightarrow> nat multiset" where
  "par_size m = (\<Sum>t < length (lm_threads m). thread_size (mgr_root (lm_sys m)) (lm_threads m ! t))"

abbreviation smaller :: "(nat multiset \<times> nat multiset) set" where
  "smaller \<equiv> mult {(x, y). x < y}"

lemma wf_smaller: "wf smaller"
  by (rule wf_mult) (rule wf)

lemma par_size_set_thread:
  assumes "t < length (lm_threads m)" and "mgr_root s' = mgr_root (lm_sys m)"
  shows "\<exists>M. par_size m = M + thread_size (mgr_root s') (lm_threads m ! t) \<and>
    par_size (set_thread t is rg (m\<lparr>lm_sys := s', lm_locks := lks\<rparr>)) = M + mset (map (level_of (mgr_root s')) is)"
proof -
  let ?n = "length (lm_threads m)" and ?r = "mgr_root s'"
  let ?M = "\<Sum>u \<in> {..<?n} - {t}. thread_size ?r (lm_threads m ! u)"
  let ?ths = "lm_threads (set_thread t is rg (m\<lparr>lm_sys := s', lm_locks := lks\<rparr>))"
  have "(\<Sum>u < ?n. thread_size ?r (lm_threads m ! u)) = ?M + thread_size ?r (lm_threads m ! t)"
    using assms(1) by (simp add: sum.remove [of "{..<?n}" t] add.commute)
  moreover have "(\<Sum>u < ?n. thread_size ?r (?ths ! u)) =
      thread_size ?r (?ths ! t) + (\<Sum>u \<in> {..<?n} - {t}. thread_size ?r (?ths ! u))"
    using assms(1) by (intro sum.remove) auto
  moreover have "(\<Sum>u \<in> {..<?n} - {t}. thread_size ?r (?ths ! u)) = ?M"
    by (rule sum.cong) (simp_all add: set_thread_def)
  ultimately show ?thesis
    using assms by (auto simp: par_size_def set_thread_lookup thread_size_def add.commute intro!: exI [of _ ?M])
qed

lemma smaller_replace:
  assumes "\<forall>j \<in> set new. f j < f i"
  shows "(M + mset (map f (new @ is)), M + mset (map f (i # is))) \<in> smaller"
proof -
  have "(M + mset (map f is) + mset (map f new), M + mset (map f is) + {#f i#}) \<in> smaller"
    using assms by (intro one_step_implies_mult) auto
  then show ?thesis by (simp add: ac_simps)
qed

lemma par_size_less:
  assumes t: "t < length (lm_threads m)" and th: "lm_threads m ! t = \<lparr>lth_code = i # is, lth_regs = rg0\<rparr>"
    and root: "mgr_root s' = mgr_root (lm_sys m)" and less: "\<forall>j \<in> set new. level_of (mgr_root s') j < level_of (mgr_root s') i"
    and m': "m' = set_thread t (new @ is) rg (m\<lparr>lm_sys := s', lm_locks := lks\<rparr>)"
  shows "(par_size m', par_size m) \<in> smaller"
proof -
  obtain M where M: "par_size m = M + thread_size (mgr_root s') (lm_threads m ! t)"
    "par_size m' = M + mset (map (level_of (mgr_root s')) (new @ is))"
    using par_size_set_thread [OF t root, of "new @ is" rg lks] m' by blast
  show ?thesis
    unfolding M thread_size_def th log_thread.select_convs using smaller_replace [OF less] .
qed

lemma par_size_decreases:
  assumes inv: "par_inv own H m" and step: "par_step env m m'"
  shows "(par_size m', par_size m) \<in> smaller"
  using step
proof (cases rule: par_stepE)
  case (acquire t k "is" rg)
  then show ?thesis
    by (intro par_size_less [OF acquire(1,2), where s' = "lm_sys m" and new = "[]" and rg = rg
          and lks = "(lm_locks m)(k := Some t)"]) simp_all
next
  case (release t k "is" rg)
  then show ?thesis
    by (intro par_size_less [OF release(1,2), where s' = "lm_sys m" and new = "[]" and rg = rg
          and lks = "(lm_locks m)(k := if lm_locks m k = Some t then None else lm_locks m k)"]) simp_all
next
  case (instr t i "is" rg new rg' s')
  have ready: "log_ready (lm_sys m)" using inv by (simp add: par_inv_def)
  then have roots: "roots_ok (lm_sys m)" using wf_sys_roots_ok by (auto simp: log_ready_def)
  note thr = par_inv_thread [OF inv instr(1,2)]
  have root: "mgr_root s' = mgr_root (lm_sys m)"
    using instr_step_ok [OF ready thr(1), of "env t"] instr(4) by (auto simp: step_ok_def grown_def sys_grows_def)
  have "\<forall>j \<in> set new. level_of (mgr_root (lm_sys m)) j < level_of (mgr_root (lm_sys m)) i"
    using thread_ok_loop thr(1) by (intro level_of_expand [OF instr(4) roots]) auto
  with root show ?thesis
    by (intro par_size_less [OF instr(1,2) root, where new = new and rg = rg' and lks = "lm_locks m"])
      (simp_all add: instr(5))
qed

lemma no_endless_run:
  assumes "par_inv own H (f 0)" and steps: "\<And>n. par_step env (f n) (f (Suc n))"
  shows False
proof -
  have "\<exists>H. par_inv own H (f n)" for n
    by (induction n) (use assms(1) par_inv_step [OF _ steps] in blast)+
  with par_size_decreases steps have "(par_size (f (Suc n)), par_size (f n)) \<in> smaller" for n by blast
  then have "\<exists>g. \<forall>n. (g (Suc n), g n) \<in> smaller" by (intro exI [of _ "\<lambda>n. par_size (f n)"]) blast
  with wf_smaller show False unfolding wf_iff_no_infinite_down_chain by blast
qed

lemma par_runs_to_end:
  "par_inv own H m \<Longrightarrow> \<exists>m'. par_reach env m m' \<and> all_ended m'"
proof (induction "par_size m" arbitrary: H m rule: wf_induct_rule [OF wf_smaller])
  case 1
  show ?case
  proof (cases "all_ended m")
    case False
    then obtain m1 where m1: "par_step env m m1" using par_inv_progress [OF 1(2)] by blast
    obtain H1 where "par_inv own H1 m1" using par_inv_step [OF 1(2) m1] by blast
    from 1(1) [OF par_size_decreases [OF 1(2) m1] this] m1 show ?thesis
      by (meson converse_rtranclp_into_rtranclp)
  qed blast
qed

end
