(* ===== verification/Log_Threads_Properties.thy ===== *)
theory Log_Threads_Properties
  imports Log_Progress Log_Delivery Config_Properties
begin

text \<open>
  The properties of the logging system under threads: calls on one logger are atomic, nobody is
  blocked for good, and what the locks do not prevent.
\<close>

section \<open>An example\<close>

text \<open>The root logger and a logger ''net'', each with a \<open>StdoutLogAppender\<close> of its own and the pattern \<open>%m%n\<close>.\<close>

definition plain_formatter :: log_formatter where
  "plain_formatter = \<lparr>fmt_pattern = ''%m%n'', fmt_error = False, fmt_items = [MessageFormatItem, NewLineFormatItem]\<rparr>"

definition plain_appender :: log_appender where
  "plain_appender = new_StdoutLogAppender\<lparr>ap_formatter := Some plain_formatter\<rparr>"

definition two_loggers :: log_sys where
  "two_loggers =
     \<lparr>loggers = [(new_Logger ''root'')\<lparr>lg_appenders := [0]\<rparr>,
                (new_Logger ''net'')\<lparr>lg_appenders := [1], lg_root := Some 0\<rparr>],
      appenders = [plain_appender, plain_appender], mgr_root = 0, mgr_loggers = [(''net'', 1), (''root'', 0)],
      cout = [], files = (\<lambda>_. []), disk = (\<lambda>_. []), ticks = 0\<rparr>"

definition example_envs :: "nat \<Rightarrow> log_env" where
  "example_envs t = (cenv_log example_env)\<lparr>env_thread_id := of_nat t\<rparr>"

definition example_event :: "nat \<Rightarrow> string \<Rightarrow> log_event" where
  "example_event l msg = (new_LogEvent (example_envs 0) l INFO 1 7)\<lparr>ev_ss := msg\<rparr>"

lemma plain_formatter_new: "new_LogFormatter ''%m%n'' = plain_formatter"
  by (simp add: plain_formatter_def new_LogFormatter_def Init_loop.simps itemMap_def flush_str_def)

lemma two_loggers_ready: "log_ready two_loggers"
  by (auto simp: log_ready_def wf_sys_def two_loggers_def logger_ok_def attached_ok_def appender_ok_def
      plain_appender_def new_StdoutLogAppender_def new_Logger_def string_lt_def less_Suc_eq)

section \<open>One logger\<close>

text \<open>
  C2: The calls on one logger that do all their work under its lock are atomic: \<open>Log\<close>, \<open>AddAppender\<close>,
  \<open>DelAppender\<close>, \<open>ClearAppender\<close>, \<open>GetFormatter\<close>, and \<open>SetFormatter\<close> with a formatter or with a pattern
  that is not in error. However threads that make such calls interleave, when all have ended the
  logging system, with all that was written, is the one that some sequence of the same calls
  leaves, made one after the other by the functions for a single thread, in which every thread's
  calls are in their order. (Not of this kind are \<open>SetLevel\<close>, which takes no lock, \<open>SetFormatter\<close>
  with a pattern in error, whose line \<open>error_line_in_a_record\<close> puts into a record, and the macros, which
  read the clock before they take the lock.)
\<close>

theorem one_logger_is_serializable:
  assumes "wf_sys s" and "\<forall>cs \<in> set css. \<forall>c \<in> set cs. on_logger l c"
    and "par_reach env (start_threads s css) m" and "all_ended m"
  shows "\<exists>h. (\<forall>(t, c) \<in> set h. t < length css) \<and> (\<forall>t < length css. calls_of t h = css ! t) \<and>
    run_history env h s = Ok () (lm_sys m)"
proof -
  obtain h where "\<forall>(t, c) \<in> set h. t < length css" "\<And>t. t < length css \<Longrightarrow> calls_of t h = css ! t"
    "run_history env h s = Ok () (lm_sys m)"
    using one_logger_history [OF assms] by blast
  then show ?thesis by blast
qed

text \<open>Two threads log to the root logger, one of them after it has set the format.\<close>

definition example_own :: "nat \<Rightarrow> nat option" where
  "example_own a = (if a < 2 then Some a else None)"

lemma two_loggers_owned: "owned example_own two_loggers"
  by (auto simp: owned_def two_loggers_def example_own_def new_Logger_def less_Suc_eq)

theorem one_logger_is_serializable_witness:
  "\<exists>m h. par_reach example_envs (start_threads two_loggers
      [[Do_Log 0 INFO (example_event 0 ''A'')], [Do_SetFormatter 0 ''%m%n'', Do_Log 0 INFO (example_event 0 ''B'')]]) m \<and>
    all_ended m \<and> run_history example_envs h two_loggers = Ok () (lm_sys m) \<and>
    calls_of 0 h = [Do_Log 0 INFO (example_event 0 ''A'')] \<and>
    calls_of 1 h = [Do_SetFormatter 0 ''%m%n'', Do_Log 0 INFO (example_event 0 ''B'')]"
proof -
  let ?css = "[[Do_Log 0 INFO (example_event 0 ''A'')], [Do_SetFormatter 0 ''%m%n'', Do_Log 0 INFO (example_event 0 ''B'')]]"
  have "par_inv example_own (\<lambda>_. []) (start_threads two_loggers ?css)"
    by (rule par_inv_start [OF two_loggers_ready _ two_loggers_owned])
      (simp add: two_loggers_def loggable_def example_event_def new_LogEvent_def)
  then obtain m where m: "par_reach example_envs (start_threads two_loggers ?css) m" "all_ended m"
    using par_runs_to_end by blast
  have "wf_sys two_loggers" using two_loggers_ready by (simp add: log_ready_def)
  moreover have "\<not> fmt_error (new_LogFormatter ''%m%n'')" by (simp add: plain_formatter_new plain_formatter_def)
  ultimately show ?thesis using one_logger_is_serializable [of two_loggers ?css 0 example_envs m] m
    by (auto simp: less_Suc_eq)
qed

lemma run_records:
  assumes "wf_sys s" and "l < length (loggers s)" and "effective_appenders s l \<noteq> []"
    and "streams_ok s" and "\<forall>t. reliable (env t)" and "\<forall>(t, lvl, e) \<in> set h. ev_logger e < length (loggers s)"
  shows "\<exists>s'. run_history env (map (\<lambda>(t, lvl, e). (t, Do_Log l lvl e)) h) s = Ok () s' \<and>
    cout s' = cout s @ concat (map (\<lambda>(t, lvl, e). sent_to (env t) s None (effective_appenders s l) e) h) \<and>
    (\<forall>fn. files s' fn =
       files s fn @ concat (map (\<lambda>(t, lvl, e). sent_to (env t) s (Some fn) (effective_appenders s l) e) h))"
  using assms(1-4,6)
proof (induction h arbitrary: s)
  case Nil
  then show ?case by (simp add: run_history_def)
next
  case (Cons r h)
  obtain t lvl e where r: "r = (t, lvl, e)" by (cases r)
  let ?as = "effective_appenders s l"
  have len: "\<forall>a \<in> set ?as. a < length (appenders s)"
    using effective_attached [OF Cons.prems(1,2)] by (auto simp: attached_ok_def)
  have "ev_logger e < length (loggers s)" using Cons.prems(5) by (simp add: r)
  from Logger_Log_deliver [OF Cons.prems(1,2) this Cons.prems(3,4) spec [OF assms(5)], of t lvl]
  obtain s1 where log: "Logger_Log (env t) [] l lvl e s = Ok () s1" and s1: "log_frame s s1"
    "streams_ok s1" "cout s1 = cout s @ sent_to (env t) s None ?as e"
    "\<forall>fn. files s1 fn = files s fn @ sent_to (env t) s (Some fn) ?as e" by blast
  have lg: "loggers s1 = loggers s" using log_frame_loggers [OF s1(1)] .
  have as: "effective_appenders s1 l = ?as" by (simp add: effective_appenders_def lg cong: option.case_cong)
  from Cons.IH [of s1] wf_sys_log_frame [OF s1(1) Cons.prems(1)] Cons.prems(2,3,5) s1(2)
  obtain s' where "run_history env (map (\<lambda>(t, lvl, e). (t, Do_Log l lvl e)) h) s1 = Ok () s'"
    "cout s' = cout s1 @ concat (map (\<lambda>(t, lvl, e). sent_to (env t) s None ?as e) h)"
    "\<forall>fn. files s' fn = files s1 fn @ concat (map (\<lambda>(t, lvl, e). sent_to (env t) s (Some fn) ?as e) h)"
    by (auto simp: as lg sent_to_frame [OF s1(1) len])
  with s1 log show ?case by (simp add: run_history_def r)
qed

lemma history_of_records:
  "\<forall>(t, c) \<in> set h. \<exists>lvl e. c = Do_Log l lvl e \<Longrightarrow> \<exists>rs. h = map (\<lambda>(t, lvl, e). (t, Do_Log l lvl e)) rs"
proof (induction h)
  case (Cons x h)
  then obtain t lvl e rs where "x = (t, Do_Log l lvl e)" "h = map (\<lambda>(t, lvl, e). (t, Do_Log l lvl e)) rs"
    by (cases x) auto
  then have "x # h = map (\<lambda>(t, lvl, e). (t, Do_Log l lvl e)) ((t, lvl, e) # rs)" by simp
  then show ?case by (rule exI)
qed simp

lemma calls_of_records:
  "calls_of t (map (\<lambda>(t, lvl, e). (t, Do_Log l lvl e)) rs) = map (\<lambda>(lvl, e). Do_Log l lvl e) xs \<longleftrightarrow>
    map snd (filter (\<lambda>r. fst r = t) rs) = xs"
proof -
  have "calls_of t (map (\<lambda>(t, lvl, e). (t, Do_Log l lvl e)) rs) =
      map (\<lambda>(lvl, e). Do_Log l lvl e) (map snd (filter (\<lambda>r. fst r = t) rs))"
    by (induction rs) (auto simp: calls_of_def)
  moreover have "inj (\<lambda>(lvl, e). Do_Log l lvl e)" by (auto simp: inj_def)
  ultimately show ?thesis by (simp only: inj_map_eq_map)
qed

text \<open>
  C9: Records that threads log to one logger arrive whole, each exactly once, and those of a thread in
  its order. When opening and writing files succeed, and however the threads interleave: when all
  have ended, what standard output and the streams of every file have taken has grown by the texts
  of all the records for the appenders of that device, one record after the other.
\<close>

theorem records_stay_whole:
  assumes wf: "wf_sys s" and l: "l < length (loggers s)" and "effective_appenders s l \<noteq> []"
    and "streams_ok s" and "\<forall>t. reliable (env t)"
    and ev: "\<forall>rs \<in> set rss. \<forall>(lvl, e) \<in> set rs. ev_logger e < length (loggers s)"
    and "par_reach env (start_threads s (map (map (\<lambda>(lvl, e). Do_Log l lvl e)) rss)) m" and "all_ended m"
  shows "\<exists>h. (\<forall>r \<in> set h. fst r < length rss) \<and>
    (\<forall>t < length rss. map snd (filter (\<lambda>r. fst r = t) h) = rss ! t) \<and>
    cout (lm_sys m) =
      cout s @ concat (map (\<lambda>(t, lvl, e). sent_to (env t) s None (effective_appenders s l) e) h) \<and>
    (\<forall>fn. files (lm_sys m) fn =
       files s fn @ concat (map (\<lambda>(t, lvl, e). sent_to (env t) s (Some fn) (effective_appenders s l) e) h))"
proof -
  let ?css = "map (map (\<lambda>(lvl, e). Do_Log l lvl e)) rss"
  have "\<forall>cs \<in> set ?css. \<forall>c \<in> set cs. on_logger l c" by auto
  from one_logger_history [OF wf this assms(7,8)] obtain h where h: "\<forall>(t, c) \<in> set h. t < length rss"
    "\<And>t. t < length rss \<Longrightarrow> calls_of t h = map (\<lambda>(lvl, e). Do_Log l lvl e) (rss ! t)"
    "run_history env h s = Ok () (lm_sys m)" by (auto simp: nth_map)
  have "\<exists>lvl e. c = Do_Log l lvl e" if "(t, c) \<in> set h" for t c
  proof -
    have "c \<in> set (calls_of t h)" using that by (force simp: calls_of_def)
    moreover have "t < length rss" using h(1) that by blast
    ultimately show ?thesis using h(2) by auto
  qed
  then obtain rs where rs: "h = map (\<lambda>(t, lvl, e). (t, Do_Log l lvl e)) rs"
    using history_of_records [of h l] by blast
  have order: "map snd (filter (\<lambda>r. fst r = t) rs) = rss ! t" if "t < length rss" for t
    using h(2) [OF that] unfolding rs calls_of_records .
  have ths: "\<forall>r \<in> set rs. fst r < length rss" using h(1) by (auto simp: rs)
  have "ev_logger e < length (loggers s)" if "(t, lvl, e) \<in> set rs" for t lvl e
  proof -
    have t: "t < length rss" using ths that by fastforce
    have "(lvl, e) \<in> set (map snd (filter (\<lambda>r. fst r = t) rs))" using that by force
    then have "(lvl, e) \<in> set (rss ! t)" by (simp only: order [OF t])
    with ev nth_mem [OF t] show ?thesis by blast
  qed
  then obtain s' where "run_history env h s = Ok () s'"
    "cout s' = cout s @ concat (map (\<lambda>(t, lvl, e). sent_to (env t) s None (effective_appenders s l) e) rs)"
    "\<forall>fn. files s' fn =
       files s fn @ concat (map (\<lambda>(t, lvl, e). sent_to (env t) s (Some fn) (effective_appenders s l) e) rs)"
    using run_records [OF assms(1-5), of rs] by (auto simp: rs)
  with h(3) order ths show ?thesis by (intro exI [of _ rs]) simp
qed

text \<open>Two threads log two records to the root logger.\<close>

theorem records_stay_whole_witness:
  "\<exists>m h. par_reach example_envs (start_threads two_loggers
      (map (map (\<lambda>(lvl, e). Do_Log 0 lvl e)) [[(INFO, example_event 0 ''A'')], [(WARN, example_event 0 ''B'')]])) m \<and>
    all_ended m \<and> map snd (filter (\<lambda>r. fst r = 1) h) = [(WARN, example_event 0 ''B'')] \<and>
    cout (lm_sys m) = concat (map (\<lambda>(t, lvl, e). sent_to (example_envs t) two_loggers None [0] e) h)"
proof -
  let ?rss = "[[(INFO, example_event 0 ''A'')], [(WARN, example_event 0 ''B'')]]"
  let ?css = "map (map (\<lambda>(lvl, e). Do_Log 0 lvl e)) ?rss"
  have "par_inv example_own (\<lambda>_. []) (start_threads two_loggers ?css)"
    by (rule par_inv_start [OF two_loggers_ready _ two_loggers_owned])
      (simp add: two_loggers_def loggable_def example_event_def new_LogEvent_def)
  then obtain m where m: "par_reach example_envs (start_threads two_loggers ?css) m" "all_ended m"
    using par_runs_to_end by blast
  have st: "effective_appenders two_loggers 0 = [0]" "cout two_loggers = []" "streams_ok two_loggers"
    "0 < length (loggers two_loggers)"
    by (simp_all add: two_loggers_def effective_appenders_def streams_ok_def stream_ok_def plain_appender_def
        new_StdoutLogAppender_def)
  have wf: "wf_sys two_loggers" using two_loggers_ready by (simp add: log_ready_def)
  have rel: "\<forall>t. reliable (example_envs t)" by (simp add: reliable_def example_envs_def example_env_def)
  have ev: "\<forall>rs \<in> set ?rss. \<forall>(lvl, e) \<in> set rs. ev_logger e < length (loggers two_loggers)"
    by (simp add: two_loggers_def example_event_def new_LogEvent_def)
  have ne: "effective_appenders two_loggers 0 \<noteq> []" by (simp add: st)
  from records_stay_whole [OF wf st(4) ne st(3) rel ev m]
  obtain h where h: "\<forall>t < length ?rss. map snd (filter (\<lambda>r. fst r = t) h) = ?rss ! t"
    "cout (lm_sys m) = cout two_loggers @ concat (map (\<lambda>(t, lvl, e). sent_to (example_envs t) two_loggers None
       (effective_appenders two_loggers 0) e) h)" by blast
  then have "map snd (filter (\<lambda>r. fst r = 1) h) = [(WARN, example_event 0 ''B'')]"
    using spec [OF h(1), of 1] by simp
  moreover have "cout (lm_sys m) = concat (map (\<lambda>(t, lvl, e). sent_to (example_envs t) two_loggers None [0] e) h)"
    using h(2) by (simp add: st)
  ultimately show ?thesis using m by (intro exI [of _ m] exI [of _ h] conjI)
qed

text \<open>A schedule: which thread makes the next step.\<close>

fun run_schedule :: "(nat \<Rightarrow> log_env) \<Rightarrow> nat list \<Rightarrow> log_machine \<Rightarrow> log_machine option" where
  "run_schedule env [] m = Some m"
| "run_schedule env (t # ts) m =
     (if t < length (lm_threads m) then
        (case thread_move env t m of Some (Ok u m') \<Rightarrow> run_schedule env ts m' | _ \<Rightarrow> None)
      else None)"

lemma run_schedule_reach: "run_schedule env ts m = Some m' \<Longrightarrow> par_reach env m m'"
proof (induction ts arbitrary: m)
  case (Cons t ts)
  from Cons.prems obtain m1 where m1: "t < length (lm_threads m)" "thread_move env t m = Some (Ok () m1)"
    "run_schedule env ts m1 = Some m'"
    by (auto split: if_splits option.splits result.splits)
  then have "par_step env m m1" by (auto simp: par_step_def)
  from this Cons.IH [OF m1(3)] show ?case by (rule converse_rtranclp_into_rtranclp)
qed simp

section \<open>What the locks do not prevent\<close>

text \<open>
  Records of different loggers can be mixed on standard output. Every \<open>StdoutLogAppender\<close> has a
  lock of its own but all write to the one \<open>std::cout\<close>, item by item: when two loggers have one each,
  with the pattern \<open>%m%n\<close>, two threads that log one record each can leave both messages on one line.
\<close>

theorem stdout_records_mix:
  assumes "k < length (loggers s)" and "l < length (loggers s)" and "k \<noteq> l"
    and "a < length (appenders s)" and "b < length (appenders s)" and "a \<noteq> b"
    and "lg_appenders (loggers s ! k) = [a]" and "lg_appenders (loggers s ! l) = [b]"
    and "ap_class (appenders s ! a) = StdoutLogAppender" and "ap_class (appenders s ! b) = StdoutLogAppender"
    and "ap_formatter (appenders s ! a) = Some f" and "ap_formatter (appenders s ! b) = Some f"
    and "fmt_items f = [MessageFormatItem, NewLineFormatItem]"
  shows "\<exists>m. par_reach env (start_threads s [[Do_Log k lvl d], [Do_Log l lvl e]]) m \<and> all_ended m \<and>
    cout (lm_sys m) = cout s @ ev_ss d @ ev_ss e @ [CHR 0x0A, CHR 0x0A]"
proof -
  let ?m = "start_threads s [[Do_Log k lvl d], [Do_Log l lvl e]]"
  let ?ts = "replicate 7 0 @ replicate 7 (1 :: nat) @ replicate 3 0 @ replicate 3 1"
  have "\<exists>m. run_schedule env ?ts ?m = Some m \<and> all_ended m \<and>
      cout (lm_sys m) = cout s @ ev_ss d @ ev_ss e @ [CHR 0x0A, CHR 0x0A]"
    using assms
    by (simp add: numeral_nat thread_move_def start_threads_def set_thread_def ScopedLockImpl_def SpinLock_lock_def
        new_SpinLock_def destroy_ScopedLockImpl_def ScopedLockImpl_Unlock_def SpinLock_unlock_def
        Logger_Log_code_def StdoutLogAppender_Log_code_def locked_def all_ended_def print_cout_def)
  with run_schedule_reach show ?thesis by blast
qed

theorem stdout_records_mix_witness:
  "\<exists>m. par_reach example_envs (start_threads two_loggers
      [[Do_Log 0 INFO (example_event 0 ''one'')], [Do_Log 1 INFO (example_event 1 ''two'')]]) m \<and> all_ended m \<and>
    cout (lm_sys m) = ''onetwo'' @ [CHR 0x0A, CHR 0x0A]"
  using stdout_records_mix [of 0 two_loggers 1 0 1 plain_formatter example_envs INFO "example_event 0 ''one''"
      "example_event 1 ''two''"]
  by (simp add: two_loggers_def plain_appender_def plain_formatter_def new_StdoutLogAppender_def example_event_def)

text \<open>
  C35: The root logger cannot be configured while other threads log. The listener of \<open>logs\<close> sets the
  level, clears the appenders and then adds the new ones, each under a lock of its own. In whatever
  state that starts, a thread that logs to the root logger in between finds no appender, and the
  process dereferences the null \<open>root_\<close>.
\<close>

theorem reconfigured_root_crashes_threads:
  assumes r: "r < length (loggers s)" "lg_root (loggers s ! r) = None" and a: "a < length (appenders s)"
  shows "\<exists>m. par_reach env (start_threads s [[Do_SetLevel r lvl, Do_ClearAppender r, Do_AddAppender r a],
      [Do_Log r wlvl e]]) m \<and> par_crashes env m"
proof -
  let ?m = "start_threads s [[Do_SetLevel r lvl, Do_ClearAppender r, Do_AddAppender r a], [Do_Log r wlvl e]]"
  let ?ts = "replicate 5 0 @ replicate 2 (1 :: nat)"
  have "\<exists>m. run_schedule env ?ts ?m = Some m \<and> length (lm_threads m) = 2 \<and> thread_move env 1 m = Some (Crash NullDeref)"
    using assms
    by (simp add: numeral_nat thread_move_def start_threads_def set_thread_def ScopedLockImpl_def SpinLock_lock_def
        new_SpinLock_def destroy_ScopedLockImpl_def ScopedLockImpl_Unlock_def SpinLock_unlock_def
        Logger_Log_code_def Logger_ClearAppender_code_def locked_def update_logger_def)
  then obtain m where m: "par_reach env ?m m" "length (lm_threads m) = 2" "thread_move env 1 m = Some (Crash NullDeref)"
    using run_schedule_reach by blast
  then have "par_crashes env m" unfolding par_crashes_def by (intro exI [of _ 1]) simp
  with m(1) show ?thesis by blast
qed

text \<open>On two loggers with an appender each. One after the other, in either order, the same calls write the record.\<close>

theorem reconfigured_root_crashes_threads_witness:
  "(\<exists>m. par_reach example_envs (start_threads two_loggers
      [[Do_SetLevel 0 INFO, Do_ClearAppender 0, Do_AddAppender 0 0], [Do_Log 0 INFO (example_event 0 ''one'')]]) m \<and>
      par_crashes example_envs m) \<and>
    (\<exists>t. run_history example_envs [(0, Do_SetLevel 0 INFO), (0, Do_ClearAppender 0), (0, Do_AddAppender 0 0),
       (1, Do_Log 0 INFO (example_event 0 ''one''))] two_loggers = Ok () t \<and> cout t = ''one'' @ [CHR 0x0A]) \<and>
    (\<exists>t. run_history example_envs [(1, Do_Log 0 INFO (example_event 0 ''one'')), (0, Do_SetLevel 0 INFO),
       (0, Do_ClearAppender 0), (0, Do_AddAppender 0 0)] two_loggers = Ok () t \<and> cout t = ''one'' @ [CHR 0x0A])"
proof (intro conjI)
  show "\<exists>m. par_reach example_envs (start_threads two_loggers
      [[Do_SetLevel 0 INFO, Do_ClearAppender 0, Do_AddAppender 0 0], [Do_Log 0 INFO (example_event 0 ''one'')]]) m \<and>
      par_crashes example_envs m"
    by (rule reconfigured_root_crashes_threads) (simp_all add: two_loggers_def new_Logger_def)
qed (simp_all add: run_history_def two_loggers_def plain_appender_def new_StdoutLogAppender_def new_Logger_def
    plain_formatter_def Logger_SetLevel_def Logger_ClearAppender_def Logger_AddAppender_def update_logger_def
    update_appender_def Logger_Log.simps StdoutLogAppender_Log_def LogAppender_Log_def
    LogAppender_GetFormatter_def example_event_def print_cout_def)

text \<open>
  \<open>SetFormatter\<close> with a pattern in error prints its line without any lock, so the line can stand in the
  middle of a record.
\<close>

theorem error_line_in_a_record:
  assumes l: "l < length (loggers s)" and a: "a < length (appenders s)"
    and "lg_appenders (loggers s ! l) = [a]" and "ap_class (appenders s ! a) = StdoutLogAppender"
    and "ap_formatter (appenders s ! a) = Some f" and "fmt_items f = [MessageFormatItem, NewLineFormatItem]"
    and "fmt_error (new_LogFormatter pat)"
  shows "\<exists>m. par_reach env (start_threads s [[Do_Log l lvl e], [Do_SetFormatter l pat]]) m \<and> all_ended m \<and>
    cout (lm_sys m) = cout s @ ev_ss e @ (''Logger SetFormatter name='' @ lg_name (loggers s ! l) @
      '' value='' @ pat @ '' invalid formatter'' @ [CHR 0x0A]) @ [CHR 0x0A]"
proof -
  let ?m = "start_threads s [[Do_Log l lvl e], [Do_SetFormatter l pat]]"
  let ?ts = "replicate 7 0 @ [1 :: nat] @ replicate 3 0"
  have "\<exists>m. run_schedule env ?ts ?m = Some m \<and> all_ended m \<and>
      cout (lm_sys m) = cout s @ ev_ss e @ (''Logger SetFormatter name='' @ lg_name (loggers s ! l) @
        '' value='' @ pat @ '' invalid formatter'' @ [CHR 0x0A]) @ [CHR 0x0A]"
    using assms
    by (simp add: numeral_nat thread_move_def start_threads_def set_thread_def ScopedLockImpl_def SpinLock_lock_def
        new_SpinLock_def destroy_ScopedLockImpl_def ScopedLockImpl_Unlock_def SpinLock_unlock_def
        Logger_Log_code_def StdoutLogAppender_Log_code_def locked_def all_ended_def print_cout_def Let_def)
  with run_schedule_reach show ?thesis by blast
qed

text \<open>
  An appender of two loggers can lose its formatter while it is in use: one thread logs to the first
  logger, another sets the format of the second.
\<close>

theorem shared_appender_crashes:
  assumes "k < length (loggers s)" and "l < length (loggers s)" and "k \<noteq> l" and "a < length (appenders s)"
    and "lg_appenders (loggers s ! k) = [a]" and "lg_appenders (loggers s ! l) = [a]"
    and "ap_class (appenders s ! a) = StdoutLogAppender" and "\<not> ap_has_formatter (appenders s ! a)"
    and "ap_formatter (appenders s ! a) = Some f" and "fmt_items f \<noteq> []"
  shows "\<exists>m. par_reach env (start_threads s [[Do_Log k lvl e], [Do_SetFormatter_ptr l (Some g)]]) m \<and>
    par_crashes env m"
proof -
  let ?m = "start_threads s [[Do_Log k lvl e], [Do_SetFormatter_ptr l (Some g)]]"
  let ?ts = "replicate 6 0 @ replicate 5 (1 :: nat)"
  obtain it its where "fmt_items f = it # its" using assms(10) by (cases "fmt_items f") auto
  then have "\<exists>m. run_schedule env ?ts ?m = Some m \<and> length (lm_threads m) = 2 \<and>
      thread_move env 1 m = Some (Crash (UndefinedBehaviour ''data race on formatter_''))"
    using assms
    by (simp add: numeral_nat thread_move_def start_threads_def set_thread_def ScopedLockImpl_def SpinLock_lock_def
        new_SpinLock_def destroy_ScopedLockImpl_def ScopedLockImpl_Unlock_def SpinLock_unlock_def in_Format_def
        Logger_Log_code_def StdoutLogAppender_Log_code_def Logger_SetFormatter_ptr_code_def locked_def sys_simps)
  then obtain m where m: "par_reach env ?m m" "length (lm_threads m) = 2"
    "thread_move env 1 m = Some (Crash (UndefinedBehaviour ''data race on formatter_''))"
    using run_schedule_reach by blast
  then have "par_crashes env m" unfolding par_crashes_def by (intro exI [of _ 1]) simp
  with m(1) show ?thesis by blast
qed

text \<open>
  A formatter that a program sets on an appender can be lost. \<open>Logger::SetFormatter\<close> tests
  \<open>has_formatter_\<close> and assigns \<open>formatter_\<close> of its appenders without their locks: when another
  thread gives an appender a formatter of its own in between, the appender ends up marked as
  having its own formatter but with that of the logger, which neither order of the two calls
  leaves.
\<close>

theorem own_formatter_is_lost:
  assumes l: "l < length (loggers s)" and a: "a < length (appenders s)"
    and "lg_appenders (loggers s ! l) = [a]" and "\<not> ap_has_formatter (appenders s ! a)"
  shows "(\<exists>m. par_reach env (start_threads s [[Do_SetFormatter_ptr l (Some f)], [Do_appender_SetFormatter a (Some g)]]) m \<and>
      all_ended m \<and>
      ap_has_formatter (appenders (lm_sys m) ! a) \<and> ap_formatter (appenders (lm_sys m) ! a) = Some f) \<and>
    (\<exists>s1. run_history env [(0, Do_SetFormatter_ptr l (Some f)), (1, Do_appender_SetFormatter a (Some g))] s = Ok () s1 \<and>
      ap_formatter (appenders s1 ! a) = Some g) \<and>
    (\<exists>s1. run_history env [(1, Do_appender_SetFormatter a (Some g)), (0, Do_SetFormatter_ptr l (Some f))] s = Ok () s1 \<and>
      ap_formatter (appenders s1 ! a) = Some g)"
proof (intro conjI)
  let ?m = "start_threads s [[Do_SetFormatter_ptr l (Some f)], [Do_appender_SetFormatter a (Some g)]]"
  let ?ts = "replicate 5 0 @ replicate 4 (1 :: nat) @ replicate 2 0"
  have "\<exists>m. run_schedule env ?ts ?m = Some m \<and> all_ended m \<and>
      ap_has_formatter (appenders (lm_sys m) ! a) \<and> ap_formatter (appenders (lm_sys m) ! a) = Some f"
    using assms
    by (simp add: numeral_nat thread_move_def start_threads_def set_thread_def ScopedLockImpl_def SpinLock_lock_def
        new_SpinLock_def in_Format_def destroy_ScopedLockImpl_def ScopedLockImpl_Unlock_def SpinLock_unlock_def
        Logger_SetFormatter_ptr_code_def LogAppender_SetFormatter_code_def locked_def all_ended_def sys_simps
        LogAppender_SetFormatter_def)
  with run_schedule_reach
  show "\<exists>m. par_reach env ?m m \<and> all_ended m \<and>
      ap_has_formatter (appenders (lm_sys m) ! a) \<and> ap_formatter (appenders (lm_sys m) ! a) = Some f" by blast
  show "\<exists>s1. run_history env [(0, Do_SetFormatter_ptr l (Some f)), (1, Do_appender_SetFormatter a (Some g))] s = Ok () s1 \<and>
      ap_formatter (appenders s1 ! a) = Some g"
    "\<exists>s1. run_history env [(1, Do_appender_SetFormatter a (Some g)), (0, Do_SetFormatter_ptr l (Some f))] s = Ok () s1 \<and>
      ap_formatter (appenders s1 ! a) = Some g"
    using assms
    by (simp_all add: run_history_def Logger_SetFormatter_ptr_def Let_def sys_simps LogAppender_SetFormatter_def)
qed

theorem own_formatter_is_lost_witness:
  "(\<exists>m. par_reach example_envs (start_threads two_loggers
        [[Do_SetFormatter_ptr 1 (Some (new_LogFormatter ''%p%m%n''))],
         [Do_appender_SetFormatter 1 (Some (new_LogFormatter ''%m''))]]) m \<and> all_ended m \<and>
      ap_formatter (appenders (lm_sys m) ! 1) = Some (new_LogFormatter ''%p%m%n'')) \<and>
    (\<exists>s1. run_history example_envs [(1, Do_appender_SetFormatter 1 (Some (new_LogFormatter ''%m''))),
        (0, Do_SetFormatter_ptr 1 (Some (new_LogFormatter ''%p%m%n'')))] two_loggers = Ok () s1 \<and>
      ap_formatter (appenders s1 ! 1) = Some (new_LogFormatter ''%m''))"
  using own_formatter_is_lost [of 1 two_loggers 1 example_envs "new_LogFormatter ''%p%m%n''" "new_LogFormatter ''%m''"]
  by (auto simp add: two_loggers_def plain_appender_def new_StdoutLogAppender_def)

section \<open>Every thread comes to its end\<close>

text \<open>
  C8: Threads that use the logging system under the conditions below never block each other for good and
  never crash: no run is endless, and in every reachable state the system can log, no thread is
  about to crash, either all threads have ended or one can make a step, and some run goes on
  to the end of all threads. They may make any calls of the interface, the macros included, in any
  number and order, as long as nobody takes an appender from the root logger, passes a null formatter
  or logs to a logger that is not registered, and every appender either belongs to one logger, and
  is used through that one (or set to a level, or reopened), or to none, and is used directly.
  Without the first of these conditions \<open>reconfigured_root_crashes_threads\<close> shows a crash, without the
  last \<open>shared_appender_crashes\<close>.
\<close>

theorem logging_threads_always_end:
  assumes "log_ready s" and "\<forall>cs \<in> set css. \<forall>c \<in> set cs. call_ok s c \<and> call_owned own c" and "owned own s"
  shows "(\<nexists>f. f 0 = start_threads s css \<and> (\<forall>n. par_step env (f n) (f (Suc n)))) \<and>
    (\<forall>m. par_reach env (start_threads s css) m \<longrightarrow>
      log_ready (lm_sys m) \<and> \<not> par_crashes env m \<and> (all_ended m \<or> (\<exists>m'. par_step env m m')) \<and>
      (\<exists>m'. par_reach env m m' \<and> all_ended m'))"
proof (intro conjI [OF _ allI [OF impI]])
  note start = par_inv_start [OF assms]
  show "\<nexists>f. f 0 = start_threads s css \<and> (\<forall>n. par_step env (f n) (f (Suc n)))"
    using no_endless_run start by metis
  fix m
  assume "par_reach env (start_threads s css) m"
  then obtain H where inv: "par_inv own H m" using par_inv_reach start by blast
  then have "log_ready (lm_sys m)" by (simp add: par_inv_def)
  with inv par_inv_no_crash par_inv_progress par_runs_to_end
  show "log_ready (lm_sys m) \<and> \<not> par_crashes env m \<and> (all_ended m \<or> (\<exists>m'. par_step env m m')) \<and>
      (\<exists>m'. par_reach env m m' \<and> all_ended m')" by blast
qed

theorem logging_threads_always_end_witness:
  "(\<nexists>f. f 0 = start_threads two_loggers [[Do_ZCS_LEVEL_name ''db'' WARN 3 ''slow'', Do_SetFormatter 0 ''%m''],
        [Do_AddAppender 1 1, Do_ZCS_LEVEL 1 INFO 9 ''up'', Do_ClearAppender 1]] \<and>
      (\<forall>n. par_step example_envs (f n) (f (Suc n)))) \<and>
   (\<exists>m. par_reach example_envs (start_threads two_loggers
        [[Do_ZCS_LEVEL_name ''db'' WARN 3 ''slow'', Do_SetFormatter 0 ''%m''],
         [Do_AddAppender 1 1, Do_ZCS_LEVEL 1 INFO 9 ''up'', Do_ClearAppender 1]]) m \<and> all_ended m)"
  using logging_threads_always_end [OF two_loggers_ready _ two_loggers_owned, of
      "[[Do_ZCS_LEVEL_name ''db'' WARN 3 ''slow'', Do_SetFormatter 0 ''%m''],
        [Do_AddAppender 1 1, Do_ZCS_LEVEL 1 INFO 9 ''up'', Do_ClearAppender 1]]" example_envs]
  by (simp add: two_loggers_def loggable_def example_own_def)

end
