(* ===== verification/Config_Threads.thy ===== *)
theory Config_Threads
  imports Config_Properties Locks
begin

text \<open>
  Configuration variables used by several threads (\<open>ConfigVar\<close> in \<open>src/src/config.h\<close> with its
  \<open>RWMutex\<close>). As for the logging system, a thread has a list of instructions left, and a step of
  the system is one instruction of one thread. Here the state \<open>config_sys\<close> holds what threads
  share, and the locks of the variables are kept beside it with their owners; a listener runs in
  one step, and when one throws the exception leaves the thread and the program makes no further
  step of that thread.
\<close>

section \<open>Instructions\<close>

datatype 'v cfg_instr =
    Rdlock nat | Wrlock nat | Unlock_var nat
  | Test_value nat 'v
  | Notify nat nat 'v
  | Assign_value nat 'v
  | Read_value nat
  | Load_fun_id nat
  | Store_fun_id nat
  | Insert_listener nat nat
  | Return_fun_id nat
  | Erase_listener nat "64 word"
  | Clear_listeners nat

text \<open>What a thread has loaded last, and what its calls have returned.\<close>

record 'v cfg_regs =
  cr_id :: "64 word"
  cr_ids :: "64 word list"
  cr_values :: "'v list"

text \<open>
  The member functions. \<open>SetValue\<close> holds the read lock while it compares and notifies, gives it
  back, and takes the write lock to assign. The counter \<open>s_fun_id\<close> of \<open>AddListener\<close> is one per type
  and is not locked by the lock of the variable of another thread: it is loaded, stored, and read
  again twice.
\<close>

definition SetValue_code :: "nat \<Rightarrow> 'v \<Rightarrow> 'v cfg_instr list" where
  "SetValue_code a v = [Rdlock a, Test_value a v]"

definition GetValue_code :: "nat \<Rightarrow> 'v cfg_instr list" where
  "GetValue_code a = [Rdlock a, Read_value a, Unlock_var a]"

definition AddListener_code :: "nat \<Rightarrow> nat \<Rightarrow> 'v cfg_instr list" where
  "AddListener_code a cb =
     [Wrlock a, Load_fun_id a, Store_fun_id a, Insert_listener a cb, Return_fun_id a, Unlock_var a]"

definition DelListener_code :: "nat \<Rightarrow> 64 word \<Rightarrow> 'v cfg_instr list" where
  "DelListener_code a fid = [Wrlock a, Erase_listener a fid, Unlock_var a]"

definition ClearListener_code :: "nat \<Rightarrow> 'v cfg_instr list" where
  "ClearListener_code a = [Wrlock a, Clear_listeners a, Unlock_var a]"

fun cfg_step ::
  "'v config_env \<Rightarrow> 'v cfg_instr \<Rightarrow> 'v cfg_regs \<times> 'v config_sys
   \<Rightarrow> ('v cfg_instr list, 'v cfg_regs \<times> 'v config_sys) result"
where
  "cfg_step env (Test_value a v) (rg, s) =
     (let var = cfg_vars s ! a
      in if cls_eq (cenv_class env (cv_type var)) (cv_val var) v then Ok [Unlock_var a] (rg, s)
         else Ok (map (\<lambda>(fid, cb). Notify a cb v) (cv_cbs var) @
                  [Unlock_var a, Wrlock a, Assign_value a v, Unlock_var a]) (rg, s))"
| "cfg_step env (Notify a cb v) (rg, s) =
     (case cenv_run env cb v (cv_val (cfg_vars s ! a)) s of
        Ok u s1 \<Rightarrow> Ok [] (rg, s1)
      | Throw e s1 \<Rightarrow> Throw e (rg, s1)
      | Crash c \<Rightarrow> Crash c)"
| "cfg_step env (Assign_value a v) (rg, s) = Ok [] (rg, update_var a (\<lambda>cv. cv\<lparr>cv_val := v\<rparr>) s)"
| "cfg_step env (Read_value a) (rg, s) =
     Ok [] (rg\<lparr>cr_values := cr_values rg @ [cv_val (cfg_vars s ! a)]\<rparr>, s)"
| "cfg_step env (Load_fun_id a) (rg, s) = Ok [] (rg\<lparr>cr_id := cfg_fun_ids s (cv_type (cfg_vars s ! a))\<rparr>, s)"
| "cfg_step env (Store_fun_id a) (rg, s) =
     Ok [] (rg, s\<lparr>cfg_fun_ids := (cfg_fun_ids s)(cv_type (cfg_vars s ! a) := cr_id rg + 1)\<rparr>)"
| "cfg_step env (Insert_listener a cb) (rg, s) =
     Ok [] (rg, update_var a (\<lambda>cv. cv\<lparr>cv_cbs := map_set u64_lt (cfg_fun_ids s (cv_type cv)) cb (cv_cbs cv)\<rparr>) s)"
| "cfg_step env (Return_fun_id a) (rg, s) =
     Ok [] (rg\<lparr>cr_ids := cr_ids rg @ [cfg_fun_ids s (cv_type (cfg_vars s ! a))]\<rparr>, s)"
| "cfg_step env (Erase_listener a fid) (rg, s) =
     Ok [] (rg, update_var a (\<lambda>cv. cv\<lparr>cv_cbs := map_erase u64_lt fid (cv_cbs cv)\<rparr>) s)"
| "cfg_step env (Clear_listeners a) (rg, s) = Ok [] (rg, update_var a (\<lambda>cv. cv\<lparr>cv_cbs := []\<rparr>) s)"
| "cfg_step env _ st = Ok [] st"

section \<open>The threads\<close>

record 'v cfg_thread =
  ct_code :: "'v cfg_instr list"
  ct_regs :: "'v cfg_regs"

record 'v cfg_machine =
  cm_sys :: "'v config_sys"
  cm_locks :: "nat \<Rightarrow> rwlock"
  cm_threads :: "'v cfg_thread list"

text \<open>The lock of a variable, through the templates of scoped locks.\<close>

fun lock_step_var :: "nat \<Rightarrow> 'v cfg_instr \<Rightarrow> (nat \<Rightarrow> rwlock) \<Rightarrow> (nat \<Rightarrow> rwlock) option" where
  "lock_step_var t (Rdlock a) lks =
     map_option (\<lambda>lk. lks(a := snd lk)) (ReadScopedLockImpl RWMutex_rdlock t (lks a))"
| "lock_step_var t (Wrlock a) lks =
     map_option (\<lambda>lk. lks(a := snd lk)) (WriteScopedLockImpl RWMutex_wrlock t (lks a))"
| "lock_step_var t (Unlock_var a) lks =
     Some (lks(a := destroy_WriteScopedLockImpl RWMutex_unlock t (True, lks a)))"
| "lock_step_var t i lks = Some lks"

definition cfg_move :: "'v config_env \<Rightarrow> nat \<Rightarrow> 'v cfg_machine \<Rightarrow> 'v cfg_machine option" where
  "cfg_move env t m =
     (let th = cm_threads m ! t
      in case ct_code th of
           [] \<Rightarrow> None
         | i # is \<Rightarrow>
             (case lock_step_var t i (cm_locks m) of
                None \<Rightarrow> None
              | Some lks \<Rightarrow>
                  (case cfg_step env i (ct_regs th, cm_sys m) of
                     Ok new (rg, s) \<Rightarrow>
                       Some \<lparr>cm_sys = s, cm_locks = lks,
                             cm_threads = (cm_threads m)[t := \<lparr>ct_code = new @ is, ct_regs = rg\<rparr>]\<rparr>
                   | _ \<Rightarrow> None)))"

definition cfg_par_step :: "'v config_env \<Rightarrow> 'v cfg_machine \<Rightarrow> 'v cfg_machine \<Rightarrow> bool" where
  "cfg_par_step env m m' \<longleftrightarrow> (\<exists>t < length (cm_threads m). cfg_move env t m = Some m')"

definition start_cfg :: "'v config_sys \<Rightarrow> 'v cfg_instr list list \<Rightarrow> 'v cfg_machine" where
  "start_cfg s codes =
     \<lparr>cm_sys = s, cm_locks = (\<lambda>_. new_RWMutex),
      cm_threads = map (\<lambda>is. \<lparr>ct_code = is, ct_regs = \<lparr>cr_id = 0, cr_ids = [], cr_values = []\<rparr>\<rparr>) codes\<rparr>"

definition cfg_ended :: "'v cfg_machine \<Rightarrow> bool" where
  "cfg_ended m \<longleftrightarrow> list_all (\<lambda>th. ct_code th = []) (cm_threads m)"

fun cfg_schedule :: "'v config_env \<Rightarrow> nat list \<Rightarrow> 'v cfg_machine \<Rightarrow> 'v cfg_machine option" where
  "cfg_schedule env [] m = Some m"
| "cfg_schedule env (t # ts) m =
     (if t < length (cm_threads m) then Option.bind (cfg_move env t m) (cfg_schedule env ts) else None)"

lemma cfg_schedule_reach: "cfg_schedule env ts m = Some m' \<Longrightarrow> (cfg_par_step env)\<^sup>*\<^sup>* m m'"
proof (induction ts arbitrary: m)
  case (Cons t ts)
  then obtain m1 where m1: "cfg_par_step env m m1" "cfg_schedule env ts m1 = Some m'"
    by (auto simp: cfg_par_step_def bind_eq_Some_conv split: if_splits)
  from m1(1) Cons.IH [OF m1(2)] show ?case by (rule converse_rtranclp_into_rtranclp)
qed simp

lemmas cfg_machine_simps = cfg_move_def start_cfg_def new_RWMutex_def ReadScopedLockImpl_def
  WriteScopedLockImpl_def destroy_WriteScopedLockImpl_def WriteScopedLockImpl_Unlock_def cfg_ended_def

section \<open>Setting one variable from two threads\<close>

text \<open>
  Two threads that set the same variable can leave its listeners with a wrong picture. Both
  compare and notify under the read lock, which they can hold together, and assign later: the
  listener is told of the change from the old value to each of the two new ones, last to \<open>w\<close>, and
  the variable ends with \<open>v\<close>. One after the other the calls tell the listener each change from the
  value before, the last one to the final value.
\<close>

theorem concurrent_SetValue_misinforms:
  assumes a: "a < length (cfg_vars s)" and readers: "cv_readers (cfg_vars s ! a) = 0"
    and cbs: "cv_cbs (cfg_vars s ! a) = [(fid, cb)]" and old: "cv_val (cfg_vars s ! a) = old"
    and diff: "old \<noteq> v" "old \<noteq> w" "v \<noteq> w"
    and eq: "\<forall>x y. cls_eq (cenv_class env (cv_type (cfg_vars s ! a))) x y = (x = y)"
    and run: "\<forall>x y t. cenv_run env cb x y t = Ok () (t\<lparr>cfg_log := told x y (cfg_log t)\<rparr>)"
  shows "(\<exists>m. (cfg_par_step env)\<^sup>*\<^sup>* (start_cfg s [SetValue_code a v, SetValue_code a w]) m \<and> cfg_ended m \<and>
      cv_val (cfg_vars (cm_sys m) ! a) = v \<and> cfg_log (cm_sys m) = told w old (told v old (cfg_log s))) \<and>
    (\<exists>s1 s2. ConfigVar_SetValue env a v s = Ok () s1 \<and> ConfigVar_SetValue env a w s1 = Ok () s2 \<and>
      cv_val (cfg_vars s2 ! a) = w \<and> cfg_log s2 = told w v (told v old (cfg_log s)))"
proof
  let ?m = "start_cfg s [SetValue_code a v, SetValue_code a w]"
  let ?ts = "replicate 3 0 @ replicate 3 (1 :: nat) @ [0] @ replicate 4 1 @ replicate 3 0"
  have "\<exists>m. cfg_schedule env ?ts ?m = Some m \<and> cfg_ended m \<and>
      cv_val (cfg_vars (cm_sys m) ! a) = v \<and> cfg_log (cm_sys m) = told w old (told v old (cfg_log s))"
    using assms by (simp add: numeral_nat cfg_machine_simps SetValue_code_def update_var_def Let_def)
  with cfg_schedule_reach
  show "\<exists>m. (cfg_par_step env)\<^sup>*\<^sup>* ?m m \<and> cfg_ended m \<and>
      cv_val (cfg_vars (cm_sys m) ! a) = v \<and> cfg_log (cm_sys m) = told w old (told v old (cfg_log s))" by blast
  show "\<exists>s1 s2. ConfigVar_SetValue env a v s = Ok () s1 \<and> ConfigVar_SetValue env a w s1 = Ok () s2 \<and>
      cv_val (cfg_vars s2 ! a) = w \<and> cfg_log s2 = told w v (told v old (cfg_log s))"
    using assms
    by (simp add: ConfigVar_SetValue_def Let_def with_wrlock_def var_rdlock_def var_unlock_def update_var_def)
qed

theorem concurrent_SetValue_misinforms_witness:
  "\<exists>m. (cfg_par_step example_env)\<^sup>*\<^sup>*
      (start_cfg (watched_config\<lparr>cfg_vars := [(new_ConfigVar 0 ''port'' 80 [])\<lparr>cv_cbs := [(1, 5)]\<rparr>]\<rparr>)
         [SetValue_code 0 81, SetValue_code 0 82]) m \<and> cfg_ended m \<and>
    cv_val (cfg_vars (cm_sys m) ! 0) = 81 \<and>
    cout (cfg_log (cm_sys m)) = ''5: 80 -> 81'' @ ''5: 80 -> 82''"
proof -
  let ?s = "watched_config\<lparr>cfg_vars := [(new_ConfigVar 0 ''port'' 80 [])\<lparr>cv_cbs := [(1, 5)]\<rparr>]\<rparr>"
  have dec: "dec_nat 5 = ''5''" "dec_nat 80 = ''80''" "dec_nat 81 = ''81''" "dec_nat 82 = ''82''"
    by code_simp+
  let ?told = "\<lambda>v old l. print_cout l (dec_nat 5 @ '': '' @ dec_nat old @ '' -> '' @ dec_nat v)"
  have "\<exists>m. (cfg_par_step example_env)\<^sup>*\<^sup>* (start_cfg ?s [SetValue_code 0 81, SetValue_code 0 82]) m \<and> cfg_ended m \<and>
      cv_val (cfg_vars (cm_sys m) ! 0) = 81 \<and> cfg_log (cm_sys m) = ?told 82 80 (?told 81 80 (cfg_log ?s))"
    by (rule concurrent_SetValue_misinforms [where fid = 1 and cb = 5 and told = ?told, THEN conjunct1])
      (simp_all add: new_ConfigVar_def example_env_def nat_class_def cfg_print_def)
  moreover have "cout (?told 82 80 (?told 81 80 (cfg_log ?s))) = ''5: 80 -> 81'' @ ''5: 80 -> 82''"
    by (simp add: watched_config_def example_config_def example_log_def print_cout_def dec)
  ultimately show ?thesis by metis
qed

section \<open>Adding listeners from two threads\<close>

text \<open>
  The counter of listener ids is shared by all variables of a type and protected by none of
  their locks. When two threads add a listener each, to two variables of one type, one of them can
  be given the id of the other's: deleting that id leaves its listener in place.
\<close>

theorem AddListener_returns_foreign_id:
  assumes a: "a < length (cfg_vars s)" and b: "b < length (cfg_vars s)" and "a \<noteq> b"
    and type: "cv_type (cfg_vars s ! b) = cv_type (cfg_vars s ! a)"
    and none: "cv_cbs (cfg_vars s ! a) = []" "cv_cbs (cfg_vars s ! b) = []"
    and free: "cv_readers (cfg_vars s ! a) = 0"
  shows "\<exists>m. (cfg_par_step env)\<^sup>*\<^sup>* (start_cfg s [AddListener_code a cb, AddListener_code b cb']) m \<and> cfg_ended m \<and>
    (\<exists>fid. cr_ids (ct_regs (cm_threads m ! 0)) = [fid] \<and>
      (\<exists>s1. ConfigVar_DelListener a fid (cm_sys m) = Ok () s1 \<and>
        cv_cbs (cfg_vars s1 ! a) = cv_cbs (cfg_vars (cm_sys m) ! a) \<and>
        map snd (cv_cbs (cfg_vars s1 ! a)) = [cb]))"
proof -
  let ?m = "start_cfg s [AddListener_code a cb, AddListener_code b cb']"
  let ?ts = "[0, 0, 0, 0, 1, 1, 1, 1, 1, 1, 0, 0 :: nat]"
  define n where "n = cfg_fun_ids s (cv_type (cfg_vars s ! a)) + 1"
  have "\<exists>m. cfg_schedule env ?ts ?m = Some m \<and> cfg_ended m \<and>
      cr_ids (ct_regs (cm_threads m ! 0)) = [n + 1] \<and> cv_cbs (cfg_vars (cm_sys m) ! a) = [(n, cb)] \<and>
      a < length (cfg_vars (cm_sys m)) \<and> cv_readers (cfg_vars (cm_sys m) ! a) = 0"
    using assms by (simp add: cfg_machine_simps AddListener_code_def update_var_def n_def)
  then obtain m where m: "cfg_schedule env ?ts ?m = Some m" "cfg_ended m"
      "cr_ids (ct_regs (cm_threads m ! 0)) = [n + 1]" "cv_cbs (cfg_vars (cm_sys m) ! a) = [(n, cb)]"
      "a < length (cfg_vars (cm_sys m))" "cv_readers (cfg_vars (cm_sys m) ! a) = 0" by blast
  have "n + 1 \<noteq> n" by simp
  then have "n + 1 < n \<or> n < n + 1" by (simp only: neq_iff)
  then have "map_erase u64_lt (n + 1) [(n, cb)] = [(n, cb)]" by (auto simp: u64_lt_def)
  then obtain s1 where "ConfigVar_DelListener a (n + 1) (cm_sys m) = Ok () s1"
      "cv_cbs (cfg_vars s1 ! a) = [(n, cb)]"
    using m(4-6) by (simp add: ConfigVar_DelListener_def with_wrlock_def update_var_def)
  with m cfg_schedule_reach [OF m(1)] show ?thesis by auto
qed

theorem AddListener_returns_foreign_id_witness:
  "\<exists>m. (cfg_par_step example_env)\<^sup>*\<^sup>*
      (start_cfg (watched_config\<lparr>cfg_vars := [new_ConfigVar 0 ''port'' 80 [], new_ConfigVar 0 ''limit'' 9 []]\<rparr>)
         [AddListener_code 0 5, AddListener_code 1 6]) m \<and> cfg_ended m \<and>
    (\<exists>fid. cr_ids (ct_regs (cm_threads m ! 0)) = [fid] \<and>
      (\<exists>s1. ConfigVar_DelListener 0 fid (cm_sys m) = Ok () s1 \<and>
        cv_cbs (cfg_vars s1 ! 0) = cv_cbs (cfg_vars (cm_sys m) ! 0) \<and>
        map snd (cv_cbs (cfg_vars s1 ! 0)) = [5]))"
proof -
  let ?s = "watched_config\<lparr>cfg_vars := [new_ConfigVar 0 ''port'' 80 [], new_ConfigVar 0 ''limit'' 9 []]\<rparr>"
  have "0 < length (cfg_vars ?s)" "1 < length (cfg_vars ?s)" "cv_type (cfg_vars ?s ! 1) = cv_type (cfg_vars ?s ! 0)"
      "cv_cbs (cfg_vars ?s ! 0) = []" "cv_cbs (cfg_vars ?s ! 1) = []" "cv_readers (cfg_vars ?s ! 0) = 0"
    by (simp_all add: new_ConfigVar_def)
  from AddListener_returns_foreign_id [OF this(1,2) zero_neq_one this(3-6), of example_env 5 6] show ?thesis .
qed


end
