(* ===== verification/Config_Locking.thy ===== *)
theory Config_Locking
  imports Config_Threads "HOL-Library.Multiset"
begin

text \<open>
  What the locks of the variables do achieve: threads that call the member functions of any
  variables never read or write a member while another thread writes it, never block each other
  for good, and always come to an end.
\<close>

section \<open>Programs\<close>

datatype 'v cfg_call =
    Call_SetValue nat 'v | Call_GetValue nat | Call_AddListener nat nat
  | Call_DelListener nat "64 word" | Call_ClearListener nat

fun cfg_call_code :: "'v cfg_call \<Rightarrow> 'v cfg_instr list" where
  "cfg_call_code (Call_SetValue a v) = SetValue_code a v"
| "cfg_call_code (Call_GetValue a) = GetValue_code a"
| "cfg_call_code (Call_AddListener a cb) = AddListener_code a cb"
| "cfg_call_code (Call_DelListener a fid) = DelListener_code a fid"
| "cfg_call_code (Call_ClearListener a) = ClearListener_code a"

definition start_calls :: "'v config_sys \<Rightarrow> 'v cfg_call list list \<Rightarrow> 'v cfg_machine" where
  "start_calls s css = start_cfg s (map (\<lambda>cs. concat (map cfg_call_code cs)) css)"

text \<open>The members of the variable at \<open>a\<close> that a line reads or writes.\<close>

fun writes_var :: "nat \<Rightarrow> 'v cfg_instr \<Rightarrow> bool" where
  "writes_var a (Assign_value b v) = (b = a)"
| "writes_var a (Insert_listener b cb) = (b = a)"
| "writes_var a (Erase_listener b fid) = (b = a)"
| "writes_var a (Clear_listeners b) = (b = a)"
| "writes_var a _ = False"

fun reads_var :: "nat \<Rightarrow> 'v cfg_instr \<Rightarrow> bool" where
  "reads_var a (Test_value b v) = (b = a)"
| "reads_var a (Notify b cb v) = (b = a)"
| "reads_var a (Read_value b) = (b = a)"
| "reads_var a _ = False"

definition at_instr :: "'v cfg_machine \<Rightarrow> nat \<Rightarrow> ('v cfg_instr \<Rightarrow> bool) \<Rightarrow> bool" where
  "at_instr m t P \<longleftrightarrow>
     t < length (cm_threads m) \<and> (case ct_code (cm_threads m ! t) of [] \<Rightarrow> False | i # is \<Rightarrow> P i)"

section \<open>The invariant\<close>

text \<open>
  \<open>brackets h is\<close>: code for a thread that holds the lock \<open>h\<close> (a variable and the kind of lock); it
  takes one lock at a time, gives it back, and touches members only under a lock that allows it.
\<close>

fun brackets :: "(nat \<times> scope) option \<Rightarrow> 'v cfg_instr list \<Rightarrow> bool" where
  "brackets h [] = (h = None)"
| "brackets h (Rdlock a # is) = (h = None \<and> brackets (Some (a, Read_scoped)) is)"
| "brackets h (Wrlock a # is) = (h = None \<and> brackets (Some (a, Write_scoped)) is)"
| "brackets h (Unlock_var a # is) = (h \<noteq> None \<and> fst (the h) = a \<and> brackets None is)"
| "brackets h (Test_value a v # is) = (h = Some (a, Read_scoped) \<and> brackets None is)"
| "brackets h (Notify a cb v # is) = (h = Some (a, Read_scoped) \<and> brackets h is)"
| "brackets h (Read_value a # is) = (h = Some (a, Read_scoped) \<and> brackets h is)"
| "brackets h (Assign_value a v # is) = (h = Some (a, Write_scoped) \<and> brackets h is)"
| "brackets h (Load_fun_id a # is) = (h = Some (a, Write_scoped) \<and> brackets h is)"
| "brackets h (Store_fun_id a # is) = (h = Some (a, Write_scoped) \<and> brackets h is)"
| "brackets h (Insert_listener a cb # is) = (h = Some (a, Write_scoped) \<and> brackets h is)"
| "brackets h (Return_fun_id a # is) = (h = Some (a, Write_scoped) \<and> brackets h is)"
| "brackets h (Erase_listener a fid # is) = (h = Some (a, Write_scoped) \<and> brackets h is)"
| "brackets h (Clear_listeners a # is) = (h = Some (a, Write_scoped) \<and> brackets h is)"

text \<open>Who holds the lock of the variable at \<open>a\<close>, and how.\<close>

definition holds_var :: "(nat \<Rightarrow> (nat \<times> scope) option) \<Rightarrow> nat \<Rightarrow> nat \<Rightarrow> scope option" where
  "holds_var H a t = (case H t of None \<Rightarrow> None | Some (b, k) \<Rightarrow> if b = a then Some k else None)"

definition lock_inv_cfg :: "(nat \<Rightarrow> (nat \<times> scope) option) \<Rightarrow> 'v cfg_machine \<Rightarrow> bool" where
  "lock_inv_cfg H m \<longleftrightarrow>
     (\<forall>t < length (cm_threads m). brackets (H t) (ct_code (cm_threads m ! t))) \<and>
     (\<forall>t. length (cm_threads m) \<le> t \<longrightarrow> H t = None) \<and>
     (\<forall>a. rw_rep (cm_locks m a) (holds_var H a))"

text \<open>What a step of a thread makes of its lock.\<close>

fun lock_after :: "'v cfg_instr \<Rightarrow> (nat \<times> scope) option \<Rightarrow> (nat \<times> scope) option" where
  "lock_after (Rdlock a) h = Some (a, Read_scoped)"
| "lock_after (Wrlock a) h = Some (a, Write_scoped)"
| "lock_after (Unlock_var a) h = None"
| "lock_after _ h = h"

lemma brackets_notify:
  "brackets (Some (a, Read_scoped)) (map (\<lambda>(fid, cb). Notify a cb v) cbs @ is) =
    brackets (Some (a, Read_scoped)) is"
  by (induction cbs) auto

lemma brackets_step:
  assumes "brackets h (i # is)" and "cfg_step env i (rg, s) = Ok new st"
  shows "brackets (lock_after i h) (new @ is)"
  using assms
  by (cases i) (auto simp: Let_def brackets_notify split: if_splits result.splits)

lemma holds_var_update:
  "holds_var (H(t := h)) a = (holds_var H a)(t := (case h of None \<Rightarrow> None | Some (b, k) \<Rightarrow> if b = a then Some k else None))"
  by (rule ext) (simp add: holds_var_def)

lemma lock_step_rep:
  assumes rep: "\<And>a. rw_rep (lks a) (holds_var H a)" and br: "brackets (H t) (i # is)"
    and step: "lock_step_var t i lks = Some lks'"
  shows "rw_rep (lks' a) (holds_var (H(t := lock_after i (H t))) a)"
proof (cases "\<exists>b. i = Rdlock b \<or> i = Wrlock b \<or> i = Unlock_var b")
  case False
  then have "lks' = lks" "lock_after i (H t) = H t" using step by (cases i; auto)+
  with rep show ?thesis by simp
next
  case True
  then consider b where "i = Rdlock b" | b where "i = Wrlock b" | b where "i = Unlock_var b" by blast
  then show ?thesis
  proof cases
    case (1 b)
    then have free: "holds_var H b t = None" using br by (simp add: holds_var_def)
    obtain lk where lk: "RWMutex_rdlock t (lks b) = Some lk" "lks' = lks(b := lk)"
      using step 1 by (auto simp: ReadScopedLockImpl_def split: option.splits)
    then have "acquire RWMutex_class Read_scoped t (lks b) = Some lk"
      by (simp add: acquire_def RWMutex_class_def)
    from rw.rep_acquire [OF rep free _ this] have "rw_rep lk ((holds_var H b)(t := Some Read_scoped))"
      by (simp add: RWMutex_class_def)
    moreover have "(holds_var H c)(t := None) = holds_var H c" for c
      using br 1 by (auto simp: holds_var_def fun_eq_iff)
    ultimately show ?thesis using rep lk 1 by (auto simp: holds_var_update)
  next
    case (2 b)
    then have free: "holds_var H b t = None" using br by (simp add: holds_var_def)
    obtain lk where lk: "RWMutex_wrlock t (lks b) = Some lk" "lks' = lks(b := lk)"
      using step 2 by (auto simp: WriteScopedLockImpl_def split: option.splits)
    then have "acquire RWMutex_class Write_scoped t (lks b) = Some lk"
      by (simp add: acquire_def RWMutex_class_def)
    from rw.rep_acquire [OF rep free _ this] have "rw_rep lk ((holds_var H b)(t := Some Write_scoped))"
      by (simp add: RWMutex_class_def)
    moreover have "(holds_var H c)(t := None) = holds_var H c" for c
      using br 2 by (auto simp: holds_var_def fun_eq_iff)
    ultimately show ?thesis using rep lk 2 by (auto simp: holds_var_update)
  next
    case (3 b)
    then obtain k where k: "H t = Some (b, k)" using br by auto
    then have "holds_var H b t = Some k" by (simp add: holds_var_def)
    from rw.rep_unlock [OF rep this] have "rw_rep (RWMutex_unlock t (lks b)) ((holds_var H b)(t := None))"
      by (simp add: RWMutex_class_def)
    moreover have "(holds_var H c)(t := None) = holds_var H c" if "c \<noteq> b" for c
      using k that by (auto simp: holds_var_def fun_eq_iff)
    moreover have "lks' = lks(b := RWMutex_unlock t (lks b))"
      using step 3 by (simp add: destroy_WriteScopedLockImpl_def WriteScopedLockImpl_Unlock_def)
    ultimately show ?thesis using rep 3 by (auto simp: holds_var_update)
  qed
qed

lemma cfg_moveE:
  assumes "cfg_par_step env m m'"
  obtains t i "is" rg s new rg' s' lks where "t < length (cm_threads m)" and "cm_threads m ! t = \<lparr>ct_code = i # is, ct_regs = rg\<rparr>"
    and "lock_step_var t i (cm_locks m) = Some lks" and "cfg_step env i (rg, cm_sys m) = Ok new (rg', s')"
    and "m' = \<lparr>cm_sys = s', cm_locks = lks, cm_threads = (cm_threads m)[t := \<lparr>ct_code = new @ is, ct_regs = rg'\<rparr>]\<rparr>"
proof -
  obtain t where t: "t < length (cm_threads m)" "cfg_move env t m = Some m'"
    using assms by (auto simp: cfg_par_step_def)
  obtain code rg where th: "cm_threads m ! t = \<lparr>ct_code = code, ct_regs = rg\<rparr>"
    by (cases "cm_threads m ! t") auto
  from t(2) th that [OF t(1)] show thesis
    by (auto simp: cfg_move_def Let_def split: list.splits option.splits result.splits prod.splits)
qed

lemma lock_inv_cfg_step:
  assumes inv: "lock_inv_cfg H m" and step: "cfg_par_step env m m'"
  shows "\<exists>H'. lock_inv_cfg H' m'"
  using step
proof (rule cfg_moveE)
  fix t i "is" rg s new rg' s' lks
  assume st: "t < length (cm_threads m)" "cm_threads m ! t = \<lparr>ct_code = i # is, ct_regs = rg\<rparr>"
    "lock_step_var t i (cm_locks m) = Some lks" "cfg_step env i (rg, cm_sys m) = Ok new (rg', s')"
    "m' = \<lparr>cm_sys = s', cm_locks = lks, cm_threads = (cm_threads m)[t := \<lparr>ct_code = new @ is, ct_regs = rg'\<rparr>]\<rparr>"
  have br: "brackets (H t) (i # is)" using inv st(1,2) by (force simp: lock_inv_cfg_def)
  have "brackets (lock_after i (H t)) (new @ is)" using brackets_step [OF br st(4)] .
  moreover have "rw_rep (lks a) (holds_var (H(t := lock_after i (H t))) a)" for a
    using inv lock_step_rep [of "cm_locks m" H t i "is" lks a] br st(3) by (simp add: lock_inv_cfg_def)
  ultimately have "lock_inv_cfg (H(t := lock_after i (H t))) m'"
    using inv st(1) by (auto simp: lock_inv_cfg_def st(5) nth_list_update)
  then show ?thesis by blast
qed

lemma lock_inv_cfg_reach: "(cfg_par_step env)\<^sup>*\<^sup>* m m' \<Longrightarrow> lock_inv_cfg H m \<Longrightarrow> \<exists>H'. lock_inv_cfg H' m'"
  by (induction rule: rtranclp_induct) (auto dest: lock_inv_cfg_step)

lemma brackets_call: "brackets None (cfg_call_code c @ is) = brackets None is"
  by (cases c) (simp_all add: SetValue_code_def GetValue_code_def AddListener_code_def DelListener_code_def
      ClearListener_code_def)

lemma brackets_calls: "brackets None (concat (map cfg_call_code cs))"
  by (induction cs) (simp_all add: brackets_call)

lemma lock_inv_cfg_start: "lock_inv_cfg (\<lambda>_. None) (start_calls s css)"
  by (simp add: lock_inv_cfg_def start_calls_def start_cfg_def brackets_calls holds_var_def new_RWMutex_def fun_eq_iff)

section \<open>Exclusion\<close>

lemma rw_rep_writer: "rw_rep lk H \<Longrightarrow> H t = Some Write_scoped \<Longrightarrow> t \<noteq> u \<Longrightarrow> H u = None"
  by (cases lk) (auto split: if_splits)

lemma brackets_writes: "brackets h (i # is) \<Longrightarrow> writes_var a i \<Longrightarrow> h = Some (a, Write_scoped)"
  by (cases i) auto

lemma brackets_reads: "brackets h (i # is) \<Longrightarrow> reads_var a i \<Longrightarrow> h = Some (a, Read_scoped)"
  by (cases i) auto

lemma writer_excludes:
  assumes inv: "lock_inv_cfg H m" and w: "at_instr m t (writes_var a)" and ne: "t \<noteq> u"
  shows "\<not> at_instr m u (\<lambda>i. writes_var a i \<or> reads_var a i)"
proof
  assume u: "at_instr m u (\<lambda>i. writes_var a i \<or> reads_var a i)"
  obtain i "is" j js where "ct_code (cm_threads m ! t) = i # is" "writes_var a i" "t < length (cm_threads m)"
    "ct_code (cm_threads m ! u) = j # js" "writes_var a j \<or> reads_var a j" "u < length (cm_threads m)"
    using w u by (auto simp: at_instr_def split: list.splits)
  moreover from this have "brackets (H t) (i # is)" "brackets (H u) (j # js)"
    using inv by (metis lock_inv_cfg_def)+
  ultimately have ht: "holds_var H a t = Some Write_scoped" and hu: "holds_var H a u \<noteq> None"
    using brackets_writes [of "H t" i "is" a] brackets_reads [of "H u" j js a] brackets_writes [of "H u" j js a]
    by (auto simp: holds_var_def)
  have "rw_rep (cm_locks m a) (holds_var H a)" using inv by (simp add: lock_inv_cfg_def)
  then show False using rw_rep_writer [where H = "holds_var H a" and lk = "cm_locks m a", OF _ ht ne] hu by simp
qed

section \<open>Progress and termination\<close>

definition listeners_return :: "'v config_env \<Rightarrow> bool" where
  "listeners_return env \<longleftrightarrow> (\<forall>cb v old s. \<exists>s'. cenv_run env cb v old s = Ok () s')"

lemma cfg_step_returns:
  assumes "listeners_return env"
  shows "\<exists>new rg' s'. cfg_step env i (rg, s) = Ok new (rg', s')"
proof (cases i)
  case (Notify a cb v)
  have "\<exists>s'. cenv_run env cb v (cv_val (cfg_vars s ! a)) s = Ok () s'"
    using assms by (simp add: listeners_return_def)
  with Notify show ?thesis by auto
qed (auto simp: Let_def)

lemma cfg_moves:
  assumes "listeners_return env" and t: "t < length (cm_threads m)" and "ct_code (cm_threads m ! t) = i # is"
    and "lock_step_var t i (cm_locks m) = Some lks"
  shows "\<exists>m'. cfg_par_step env m m'"
proof -
  obtain new rg' s' where "cfg_step env i (ct_regs (cm_threads m ! t), cm_sys m) = Ok new (rg', s')"
    using cfg_step_returns [OF assms(1)] by blast
  with assms(3,4) have "cfg_move env t m = Some \<lparr>cm_sys = s', cm_locks = lks,
      cm_threads = (cm_threads m)[t := \<lparr>ct_code = new @ is, ct_regs = rg'\<rparr>]\<rparr>"
    by (simp add: cfg_move_def Let_def)
  with t show ?thesis by (auto simp: cfg_par_step_def)
qed

lemma cfg_progress:
  assumes inv: "lock_inv_cfg H m" and lis: "listeners_return env" and run: "\<not> cfg_ended m"
  shows "\<exists>m'. cfg_par_step env m m'"
proof (cases "\<exists>t. H t \<noteq> None")
  case True
  then obtain t b k where t: "H t = Some (b, k)" by auto
  then have len: "t < length (cm_threads m)" using inv by (metis lock_inv_cfg_def not_le option.distinct(1))
  then have br: "brackets (H t) (ct_code (cm_threads m ! t))" using inv by (simp add: lock_inv_cfg_def)
  then obtain i "is" where code: "ct_code (cm_threads m ! t) = i # is" using t by (cases "ct_code (cm_threads m ! t)") auto
  with br t have "\<exists>lks. lock_step_var t i (cm_locks m) = Some lks" by (cases i) auto
  with cfg_moves [OF lis len code] show ?thesis by blast
next
  case False
  obtain t where t: "t < length (cm_threads m)" "ct_code (cm_threads m ! t) \<noteq> []"
    using run by (auto simp: cfg_ended_def list_all_length)
  then obtain i "is" where code: "ct_code (cm_threads m ! t) = i # is" by (cases "ct_code (cm_threads m ! t)") auto
  have "\<forall>a. holds_var H a = (\<lambda>_. None)" using False by (simp add: holds_var_def fun_eq_iff split: option.splits)
  then have rep: "rw_rep (cm_locks m a) (\<lambda>_. None)" for a using inv by (metis lock_inv_cfg_def)
  have "acquire RWMutex_class k t (cm_locks m a) \<noteq> None" if "k = Read_scoped \<or> k = Write_scoped" for k a
    using rw.rep_free [OF rep, of k t a] that by (auto simp: RWMutex_class_def)
  then have free: "\<exists>lk. RWMutex_rdlock t (cm_locks m a) = Some lk" "\<exists>lk. RWMutex_wrlock t (cm_locks m a) = Some lk" for a
    by (force simp: acquire_def RWMutex_class_def)+
  have "\<exists>lks. lock_step_var t i (cm_locks m) = Some lks"
  proof (cases i)
    case (Rdlock b)
    then show ?thesis using free(1) [of b] by (auto simp: ReadScopedLockImpl_def)
  next
    case (Wrlock b)
    then show ?thesis using free(2) [of b] by (auto simp: WriteScopedLockImpl_def)
  qed simp_all
  with cfg_moves [OF lis t(1) code] show ?thesis by blast
qed


text \<open>
  A step replaces one line by lines of a smaller rank: the comparison in \<open>SetValue\<close> by one
  notification for every listener that there is then, and the assignment.
\<close>

fun cfg_rank :: "'v cfg_instr \<Rightarrow> nat" where
  "cfg_rank (Test_value a v) = 1"
| "cfg_rank _ = 0"

definition cfg_size :: "'v cfg_machine \<Rightarrow> nat multiset" where
  "cfg_size m = mset (concat (map (\<lambda>th. map cfg_rank (ct_code th)) (cm_threads m)))"

lemma cfg_step_rank: "cfg_step env i (rg, s) = Ok new st \<Longrightarrow> j \<in> set new \<Longrightarrow> cfg_rank j < cfg_rank i"
  by (cases i) (auto simp: Let_def split: if_splits result.splits)

lemma mset_concat_update:
  "t < length xss \<Longrightarrow> mset (concat (map f (xss[t := y]))) + mset (f (xss ! t)) =
    mset (concat (map f xss)) + mset (f y)"
proof (induction xss arbitrary: t)
  case (Cons xs xss)
  then show ?case by (cases t) auto
qed simp

lemma cfg_size_decreases:
  assumes "cfg_par_step env m m'"
  shows "(cfg_size m', cfg_size m) \<in> mult {(x, y). x < y}"
  using assms
proof (rule cfg_moveE)
  fix t i "is" rg s new rg' s' lks
  assume st: "t < length (cm_threads m)" "cm_threads m ! t = \<lparr>ct_code = i # is, ct_regs = rg\<rparr>"
    "lock_step_var t i (cm_locks m) = Some lks" "cfg_step env i (rg, cm_sys m) = Ok new (rg', s')"
    "m' = \<lparr>cm_sys = s', cm_locks = lks, cm_threads = (cm_threads m)[t := \<lparr>ct_code = new @ is, ct_regs = rg'\<rparr>]\<rparr>"
  let ?f = "\<lambda>th. map cfg_rank (ct_code th)" and ?new = "mset (map cfg_rank new)"
  have eq: "cfg_size m' + {#cfg_rank i#} = cfg_size m + ?new"
    using mset_concat_update [OF st(1), of ?f "\<lparr>ct_code = new @ is, ct_regs = rg'\<rparr>"] st(2)
    by (simp add: cfg_size_def st(5) ac_simps)
  define I where "I = cfg_size m - {#cfg_rank i#}"
  have "cfg_rank i \<in># cfg_size m"
    using st(1,2) nth_mem [OF st(1)] by (force simp: cfg_size_def)
  then have m: "cfg_size m = I + {#cfg_rank i#}" by (simp add: I_def)
  then have "cfg_size m' = I + ?new" using eq by simp
  moreover have "(I + ?new, I + {#cfg_rank i#}) \<in> mult {(x, y). x < y}"
    by (intro one_step_implies_mult) (auto simp: cfg_step_rank [OF st(4)])
  ultimately show ?thesis using m by simp
qed

lemma wf_cfg_size: "wf (mult {(x :: nat, y). x < y})"
  by (rule wf_mult) (rule wf_less)

lemma cfg_runs_to_end:
  assumes "listeners_return env" and "lock_inv_cfg H m"
  shows "\<exists>m'. (cfg_par_step env)\<^sup>*\<^sup>* m m' \<and> cfg_ended m'"
  using assms(2)
proof (induction "cfg_size m" arbitrary: H m rule: wf_induct_rule [OF wf_cfg_size])
  case 1
  show ?case
  proof (cases "cfg_ended m")
    case False
    then obtain m1 where m1: "cfg_par_step env m m1" using cfg_progress [OF 1(2) assms(1)] by blast
    obtain H1 where "lock_inv_cfg H1 m1" using lock_inv_cfg_step [OF 1(2) m1] by blast
    from 1(1) [OF cfg_size_decreases [OF m1] this] m1 show ?thesis
      by (meson converse_rtranclp_into_rtranclp)
  qed blast
qed

lemma no_endless_cfg_run: "\<nexists>f. \<forall>n. cfg_par_step env (f n) (f (Suc n))"
proof
  assume "\<exists>f. \<forall>n. cfg_par_step env (f n) (f (Suc n))"
  then obtain f where "\<forall>n. cfg_par_step env (f n) (f (Suc n))" by blast
  then have "\<forall>n. (cfg_size (f (Suc n)), cfg_size (f n)) \<in> mult {(x, y). x < y}"
    using cfg_size_decreases by blast
  then have "\<exists>g. \<forall>n. (g (Suc n), g n) \<in> mult {(x :: nat, y). x < y}"
    by (intro exI [of _ "\<lambda>n. cfg_size (f n)"])
  with wf_cfg_size show False unfolding wf_iff_no_infinite_down_chain by blast
qed

text \<open>
  C32: The locks of the variables exclude and never block for good. In every state that threads reach
  with calls of the member functions of any variables, no thread is about to write the value or
  the listeners of a variable while another is about to read or write them; when the listeners
  return, every such state leads to the end of all threads, and no run is endless.
\<close>

theorem variables_are_locked:
  assumes lis: "listeners_return env" and reach: "(cfg_par_step env)\<^sup>*\<^sup>* (start_calls s css) m"
  shows "(\<forall>a t u. t \<noteq> u \<and> at_instr m t (writes_var a) \<longrightarrow>
      \<not> at_instr m u (\<lambda>i. writes_var a i \<or> reads_var a i)) \<and>
    (\<exists>m'. (cfg_par_step env)\<^sup>*\<^sup>* m m' \<and> cfg_ended m') \<and>
    (\<nexists>f. f 0 = m \<and> (\<forall>n. cfg_par_step env (f n) (f (Suc n))))"
proof -
  obtain H where inv: "lock_inv_cfg H m" using lock_inv_cfg_reach [OF reach lock_inv_cfg_start] by blast
  show ?thesis using writer_excludes [OF inv] cfg_runs_to_end [OF lis inv] no_endless_cfg_run [of env] by blast
qed

theorem variables_are_locked_witness:
  "\<exists>m'. (cfg_par_step example_env)\<^sup>*\<^sup>*
      (start_calls (watched_config\<lparr>cfg_vars := [(new_ConfigVar 0 ''port'' 80 [])\<lparr>cv_cbs := [(1, 5)]\<rparr>]\<rparr>)
         [[Call_SetValue 0 81, Call_GetValue 0], [Call_SetValue 0 82, Call_ClearListener 0]]) m' \<and> cfg_ended m'"
proof -
  have "listeners_return example_env" by (simp add: listeners_return_def example_env_def)
  from variables_are_locked [OF this rtranclp.rtrancl_refl] show ?thesis by blast
qed


end
