(* ===== verification/Log_Streams.thy ===== *)
theory Log_Streams
  imports Log_Config_Properties Log_Delivery
begin

text \<open>
  The listener of the variable \<open>logs\<close> keeps the streams of all appenders working when opening and
  writing files succeed.
\<close>

section \<open>The streams of the appenders\<close>

text \<open>\<open>keeps_streams f\<close>: when \<open>f\<close> returns, all streams are still open and have not failed.\<close>

definition keeps_streams :: "(log_sys \<Rightarrow> (unit, log_sys) result) \<Rightarrow> bool" where
  "keeps_streams f \<longleftrightarrow> (\<forall>s t. streams_ok s \<longrightarrow> f s = Ok () t \<longrightarrow> streams_ok t)"

lemma keeps_streamsD: "keeps_streams f \<Longrightarrow> streams_ok s \<Longrightarrow> f s = Ok () t \<Longrightarrow> streams_ok t"
  by (auto simp: keeps_streams_def)

lemma keeps_streams_Ok [intro]: "keeps_streams (Ok ())"
  by (simp add: keeps_streams_def)

lemma keeps_streams_if:
  "keeps_streams f \<Longrightarrow> keeps_streams g \<Longrightarrow> keeps_streams (\<lambda>s. if b then f s else g s)"
  by (cases b) simp_all

lemma keeps_streams_and_then [intro]:
  assumes f: "keeps_streams f" and g: "\<And>u. keeps_streams (g u)"
  shows "keeps_streams (\<lambda>s. and_then (f s) g)"
  unfolding keeps_streams_def
proof (intro allI impI)
  fix s t
  assume "streams_ok s" "and_then (f s) g = Ok () t"
  then obtain u s1 where "f s = Ok u s1" "g u s1 = Ok () t" by (cases "f s") simp_all
  with keeps_streamsD [OF f \<open>streams_ok s\<close>] keeps_streamsD [OF g] show "streams_ok t" by simp
qed

lemma keeps_streams_for_each [intro]:
  assumes "\<And>x. x \<in> set xs \<Longrightarrow> keeps_streams (f x)"
  shows "keeps_streams (for_each f xs)"
  using assms
proof (induction xs)
  case Nil
  then show ?case by (simp add: keeps_streams_def)
next
  case (Cons x xs)
  then have "keeps_streams (f x)" "keeps_streams (for_each f xs)" by simp_all
  then have "keeps_streams (\<lambda>s. and_then (f x s) (\<lambda>_. for_each f xs))" by (rule keeps_streams_and_then)
  then show ?case by simp
qed

lemma streams_ok_formatter:
  assumes "streams_ok s" and "\<And>ap. ap_class (g ap) = ap_class ap"
  shows "streams_ok (update_appender a g s)"
proof (cases "a < length (appenders s)")
  case True
  with assms(1) have "stream_ok (appenders s ! a)" by (simp add: streams_ok_def)
  then have "stream_ok (g (appenders s ! a))" by (simp add: stream_ok_def assms(2))
  with assms(1) show ?thesis by (rule streams_ok_update_appender)
next
  case False
  with assms(1) show ?thesis by (simp add: update_appender_def list_update_beyond)
qed

lemma streams_ok_logger [simp]: "streams_ok (update_logger l f s) = streams_ok s"
  by (simp add: streams_ok_def update_logger_def)

lemma streams_ok_alloc: "streams_ok s \<Longrightarrow> stream_ok ap \<Longrightarrow> streams_ok (snd (alloc_appender ap s))"
  by (simp add: streams_ok_def alloc_appender_def)

lemma streams_ok_new_file:
  assumes "reliable env" and "streams_ok s"
  shows "streams_ok (snd (new_FileLogAppender env fn s))"
  using assms
  by (simp add: new_FileLogAppender_def alloc_appender_def FileLogAppender_Reopen_def Let_def update_appender_def
      streams_ok_def ofstream_close_def ofstream_open_def write_disk_def reliable_def stream_ok_def)

lemma streams_ok_inherit: "streams_ok s \<Longrightarrow> streams_ok (inherit_formatter f as s)"
  by (induction as arbitrary: s) (simp_all add: streams_ok_formatter)

lemma keeps_streams_SetLevel [intro]: "keeps_streams (Logger_SetLevel l lvl)"
  by (auto simp: keeps_streams_def Logger_SetLevel_def split: if_splits)

lemma keeps_streams_ClearAppender [intro]: "keeps_streams (Logger_ClearAppender l)"
  by (auto simp: keeps_streams_def Logger_ClearAppender_def split: if_splits)

lemma keeps_streams_SetFormatter [intro]: "keeps_streams (Logger_SetFormatter l fmt)"
  by (auto simp: keeps_streams_def Logger_SetFormatter_def Logger_SetFormatter_ptr_def Let_def streams_ok_inherit
      split: if_splits)

lemma keeps_streams_AddAppender [intro]: "keeps_streams (Logger_AddAppender l a)"
  by (auto simp: keeps_streams_def Logger_AddAppender_def Let_def streams_ok_formatter split: if_splits)

lemma streams_ok_GetLogger: "streams_ok s \<Longrightarrow> streams_ok (snd (LoggerManager_GetLogger name s))"
  by (auto simp: LoggerManager_GetLogger_def alloc_logger_def streams_ok_def Let_def split: option.splits)

lemma keeps_streams_install_appender:
  assumes "reliable env"
  shows "keeps_streams (install_appender env name l d)"
proof -
  have new: "streams_ok (snd (if lad_type d = 1 then new_FileLogAppender env (lad_file d) s
      else alloc_appender new_StdoutLogAppender s))" if "streams_ok s" for s
    using streams_ok_new_file [OF assms that] streams_ok_alloc [OF that, of new_StdoutLogAppender]
    by (simp add: stream_ok_def new_StdoutLogAppender_def)
  show ?thesis
    unfolding keeps_streams_def
  proof (intro allI impI)
    fix s t
    assume s: "streams_ok s" and run: "install_appender env name l d s = Ok () t"
    obtain ap s1 where ap: "(if lad_type d = 1 then new_FileLogAppender env (lad_file d) s
        else alloc_appender new_StdoutLogAppender s) = (ap, s1)" by fastforce
    then have "streams_ok s1" using new [OF s] by simp
    then have "streams_ok (LogAppender_SetLevel ap (lad_level d) s1)"
      by (simp add: LogAppender_SetLevel_def streams_ok_formatter)
    then have add: "streams_ok u" if "Logger_AddAppender l ap (if lad_formatter d \<noteq> [] then
          if \<not> fmt_error (new_LogFormatter (lad_formatter d))
          then LogAppender_SetFormatter ap (Some (new_LogFormatter (lad_formatter d))) (LogAppender_SetLevel ap (lad_level d) s1)
          else print_cout (LogAppender_SetLevel ap (lad_level d) s1) x
        else LogAppender_SetLevel ap (lad_level d) s1) = Ok () u" for x u
      using keeps_streamsD [OF keeps_streams_AddAppender _ that]
      by (auto simp: LogAppender_SetFormatter_def streams_ok_formatter split: if_splits)
    from run s add show "streams_ok t"
      by (auto simp: install_appender_def ap Let_def simp del: if_split split: if_split_asm)
  qed
qed

lemma keeps_streams_install_define:
  assumes "reliable env"
  shows "keeps_streams (install_define env i)"
proof -
  have tail: "keeps_streams (\<lambda>s. and_then (Logger_SetLevel l (ld_level i) s)
        (\<lambda>_ s2. and_then (if ld_formatter i \<noteq> [] then Logger_SetFormatter l (ld_formatter i) s2 else Ok () s2)
           (\<lambda>_ s3. and_then (Logger_ClearAppender l s3)
              (\<lambda>_. for_each (install_appender env (ld_name i) l) (ld_appenders i)))))" for l
    by (cases "ld_formatter i = []"; simp only: simp_thms if_True if_False)
      (intro keeps_streams_and_then keeps_streams_for_each keeps_streams_SetLevel keeps_streams_ClearAppender
        keeps_streams_SetFormatter keeps_streams_Ok keeps_streams_install_appender [OF assms])+
  show ?thesis
    unfolding keeps_streams_def
  proof (intro allI impI)
    fix s t
    assume s: "streams_ok s" "install_define env i s = Ok () t"
    obtain l s1 where get: "LoggerManager_GetLogger (ld_name i) s = (l, s1)" by fastforce
    then have "streams_ok s1" using streams_ok_GetLogger [OF s(1), of "ld_name i"] by simp
    from keeps_streamsD [OF tail this, of l t] s(2) show "streams_ok t" by (simp add: install_define_def get)
  qed
qed

lemma keeps_streams_remove_define: "keeps_streams (remove_define j)"
proof -
  have tail: "keeps_streams (\<lambda>s. and_then (Logger_SetLevel l UNKONW s) (\<lambda>_. Logger_ClearAppender l))" for l
    by (intro keeps_streams_and_then keeps_streams_SetLevel keeps_streams_ClearAppender)
  show ?thesis
    unfolding keeps_streams_def
  proof (intro allI impI)
    fix s t
    assume s: "streams_ok s" "remove_define j s = Ok () t"
    obtain l s1 where get: "LoggerManager_GetLogger (ld_name j) s = (l, s1)" by fastforce
    then have "streams_ok s1" using streams_ok_GetLogger [OF s(1), of "ld_name j"] by simp
    from keeps_streamsD [OF tail this, of l t] s(2) show "streams_ok t" by (simp add: remove_define_def get)
  qed
qed

lemma ZCS_LEVEL_streams:
  assumes ready: "log_ready s" and ok: "streams_ok s" and rel: "reliable env"
    and run: "ZCS_LEVEL env (mgr_root s) lvl line msg s = Ok () t"
  shows "streams_ok t"
proof -
  let ?s = "s\<lparr>ticks := Suc (ticks s)\<rparr>"
  let ?e = "new_LogEvent env (mgr_root s) lvl line (env_clock env (ticks s))"
  have "wf_sys ?s" "effective_appenders ?s (mgr_root s) \<noteq> []" "mgr_root s < length (loggers ?s)"
    using ready by (auto simp: log_ready_def effective_appenders_def wf_sys_root)
  from Logger_Log_deliver [OF this(1,3) _ this(2) _ rel, of "?e\<lparr>ev_ss := ev_ss ?e @ msg\<rparr>" lvl]
  obtain u where "Logger_Log env [] (mgr_root s) lvl (?e\<lparr>ev_ss := ev_ss ?e @ msg\<rparr>) ?s = Ok () u" "streams_ok u"
    using ok \<open>mgr_root s < length (loggers ?s)\<close> by (auto simp: new_LogEvent_def)
  with run show ?thesis by (simp add: ZCS_LEVEL_def destroy_LogEventWrap_def Let_def new_LogEvent_def)
qed

lemma on_logs_changed_streams:
  assumes ready: "log_ready s" and ok: "streams_ok s" and rel: "reliable env"
    and run: "on_logs_changed env new old s = Ok () t"
  shows "streams_ok t"
proof -
  obtain s1 where s1: "ZCS_LEVEL env (mgr_root s) INFO 677 ''***** log config changed *****'' s = Ok () s1"
    using run unfolding on_logs_changed_def
    by (cases "ZCS_LEVEL env (mgr_root s) INFO 677 ''***** log config changed *****'' s") simp_all
  have "keeps_streams (\<lambda>s. and_then
      (for_each (\<lambda>i s. if define_changed old i then install_define env i s else Ok () s) new s)
      (\<lambda>_. for_each (\<lambda>j s. if set_find LogDefine_lt j new = None then remove_define j s else Ok () s) old))"
    by (intro keeps_streams_and_then keeps_streams_for_each keeps_streams_if keeps_streams_Ok
        keeps_streams_install_define [OF rel] keeps_streams_remove_define)
  from keeps_streamsD [OF this ZCS_LEVEL_streams [OF ready ok rel s1], of t] run show ?thesis
    by (simp add: on_logs_changed_def s1)
qed


text \<open>Before a configuration is loaded there are no files; logging adds none.\<close>

definition only_cout :: "log_sys \<Rightarrow> bool" where
  "only_cout s \<longleftrightarrow> (\<forall>ap \<in> set (appenders s). ap_class ap = StdoutLogAppender)"

lemma only_cout_streams: "only_cout s \<Longrightarrow> streams_ok s"
  by (simp add: only_cout_def streams_ok_def stream_ok_def)

lemma only_cout_frame:
  assumes fr: "log_frame s t" and s: "only_cout s"
  shows "only_cout t"
proof -
  have "ap_class (appenders t ! a) = StdoutLogAppender" if "a < length (appenders t)" for a
  proof -
    have a: "a < length (appenders s)" using that log_frame_length [OF fr] by simp
    then have "ap_class (appenders s ! a) = StdoutLogAppender" using s by (simp add: only_cout_def)
    with file_of_frame [OF fr a] show ?thesis by (simp add: file_of_def split: appender_class.splits)
  qed
  then show ?thesis by (auto simp: only_cout_def in_set_conv_nth)
qed

end
