(* ===== verification/Startup.thy ===== *)
theory Startup
  imports Log_Streams
begin

text \<open>
  The start of the library and its configuration by a document: the objects with static storage
  duration that \<open>log.cpp\<close>, \<open>config.cpp\<close>, \<open>fiber.cpp\<close>, \<open>thread.cpp\<close>, \<open>thread_pool.cpp\<close> and
  \<open>util.cpp\<close> initialise before \<open>main\<close>, in an order that the language leaves open between the files;
  and what loading a document does then, from its text to the loggers.
\<close>

section \<open>The types of the variables\<close>

text \<open>The variables of the library: \<open>logs\<close> of type \<open>std::set<LogDefine>\<close>, \<open>fiber.stacksize\<close> of type \<open>uint32_t\<close>.\<close>

datatype zcs_value = Logs_value "log_define list" | Stacksize_value "32 word"

abbreviation (input) T_logs :: nat where "T_logs \<equiv> 0"
abbreviation (input) T_uint32 :: nat where "T_uint32 \<equiv> 1"

fun zcs_eq :: "zcs_value \<Rightarrow> zcs_value \<Rightarrow> bool" where
  "zcs_eq (Logs_value a) (Logs_value b) = list_all2 LogDefine_eq a b"
| "zcs_eq (Stacksize_value a) (Stacksize_value b) = (a = b)"
| "zcs_eq _ _ = False"

lemma zcs_eq_iff: "zcs_eq a b \<longleftrightarrow> a = b"
proof -
  have "LogDefine_eq = (=)" by (intro ext) (rule LogDefine_eq_iff)
  then show ?thesis by (cases a; cases b) (simp_all add: list.rel_eq)
qed

text \<open>What the program takes from its environment: the log, the names of the two types, and the two
  functions \<open>boost::lexical_cast\<close> between \<open>uint32_t\<close> and text.\<close>

record start_env =
  senv_log :: log_env
  senv_logs_name :: string
  senv_uint32_name :: string
  senv_uint32_from :: "string \<Rightarrow> exn + 32 word"
  senv_uint32_to :: "32 word \<Rightarrow> exn + string"

definition zcs_class :: "start_env \<Rightarrow> 'n yaml_lib \<Rightarrow> nat \<Rightarrow> zcs_value config_class" where
  "zcs_class env lib T =
     (if T = T_logs then
        \<lparr>cls_name = senv_logs_name env,
         cls_from = (\<lambda>t. cast_bind (set_from_string lib LogDefine_lt (LogDefine_from_string lib) t)
           (\<lambda>lds. ([], Inr (Logs_value lds)))),
         cls_to = (\<lambda>v. case v of
             Logs_value lds \<Rightarrow> set_to_string lib (LogDefine_to_string lib) lds
           | Stacksize_value n \<Rightarrow> ([], Inr [])),
         cls_eq = zcs_eq\<rparr>
      else
        \<lparr>cls_name = senv_uint32_name env,
         cls_from = (\<lambda>t. cast_bind (LexicalCast (senv_uint32_from env) t) (\<lambda>n. ([], Inr (Stacksize_value n)))),
         cls_to = (\<lambda>v. case v of
             Stacksize_value n \<Rightarrow> LexicalCast (senv_uint32_to env) n
           | Logs_value lds \<Rightarrow> ([], Inr [])),
         cls_eq = zcs_eq\<rparr>)"

text \<open>
  The only closure that is ever added as a listener, at address 0, is the one of \<open>LogIniter\<close>; it is
  added to a variable of type \<open>T_logs\<close> and called with two values of that type.
\<close>

definition zcs_listener ::
  "log_env \<Rightarrow> nat \<Rightarrow> zcs_value \<Rightarrow> zcs_value \<Rightarrow> zcs_value config_sys \<Rightarrow> (unit, zcs_value config_sys) result"
where
  "zcs_listener env cb new_val old_val s =
     (case (cb, new_val, old_val) of
        (0, Logs_value new_lds, Logs_value old_lds) \<Rightarrow> on_log (on_logs_changed env new_lds old_lds) s
      | _ \<Rightarrow> Crash NullDeref)"

definition zcs_env :: "start_env \<Rightarrow> 'n yaml_lib \<Rightarrow> zcs_value config_env" where
  "zcs_env env lib =
     \<lparr>cenv_log = senv_log env, cenv_class = zcs_class env lib, cenv_run = zcs_listener (senv_log env)\<rparr>"

section \<open>Static initialisation\<close>

text \<open>The source files with objects to initialise.\<close>

datatype source_file = Log_cpp | Config_cpp | Fiber_cpp | Thread_cpp | Thread_pool_cpp | Util_cpp

text \<open>
  The process before \<open>main\<close>. \<open>pr_built\<close>: the static \<open>LoggerManager\<close> of \<open>Singleton\<close> has been built;
  before that \<open>cfg_log (pr_cfg p)\<close> means nothing. \<open>pr_loggers\<close> holds the file-level loggers, null
  at first, and \<open>pr_log_defines\<close> and \<open>pr_fiber_stacksize\<close> the two pointers to variables.
\<close>

record process =
  pr_built :: bool
  pr_loggers :: "source_file \<rightharpoonup> nat"
  pr_log_defines :: "nat option"
  pr_fiber_stacksize :: "nat option"
  pr_cfg :: "zcs_value config_sys"

text \<open>\<open>static Logger::ptr g_logger = ZCS_LOG_NAME(name);\<close>\<close>

definition init_logger :: "source_file \<Rightarrow> string \<Rightarrow> process \<Rightarrow> (unit, process) result" where
  "init_logger file name p =
     (case ZCS_LOG_NAME name (if pr_built p then Some (cfg_log (pr_cfg p)) else None) of
        Ok l s \<Rightarrow> Ok () (p\<lparr>pr_built := True, pr_loggers := (pr_loggers p)(file \<mapsto> l),
                            pr_cfg := (pr_cfg p)\<lparr>cfg_log := s\<rparr>\<rparr>)
      | Throw e s \<Rightarrow> Throw e (p\<lparr>pr_built := True, pr_cfg := (pr_cfg p)\<lparr>cfg_log := s\<rparr>\<rparr>)
      | Crash c \<Rightarrow> Crash c)"

text \<open>A call on the configuration from an initialiser; the names looked up are free, and a \<open>LookUp\<close>
  of a free name does not touch the log.\<close>

definition on_cfg ::
  "(zcs_value config_sys \<Rightarrow> ('a, zcs_value config_sys) result) \<Rightarrow> process \<Rightarrow> ('a, process) result"
where
  "on_cfg f p =
     (case f (pr_cfg p) of
        Ok x s \<Rightarrow> Ok x (p\<lparr>pr_cfg := s\<rparr>)
      | Throw e s \<Rightarrow> Throw e (p\<lparr>pr_cfg := s\<rparr>)
      | Crash c \<Rightarrow> Crash c)"

definition init_log_defines :: "zcs_value config_env \<Rightarrow> process \<Rightarrow> (unit, process) result" where
  "init_log_defines env p =
     and_then (on_cfg (Config_LookUp env T_logs ''logs'' (Logs_value []) ''log config'') p)
       (\<lambda>v p1. Ok () (p1\<lparr>pr_log_defines := v\<rparr>))"

text \<open>The constructor of \<open>LogIniter\<close>.\<close>

definition LogIniter :: "process \<Rightarrow> (unit, process) result" where
  "LogIniter p =
     (case pr_log_defines p of
        None \<Rightarrow> Crash NullDeref
      | Some a \<Rightarrow> and_then (on_cfg (ConfigVar_AddListener a 0) p) (\<lambda>fid p1. Ok () p1))"

definition init_fiber_stacksize :: "zcs_value config_env \<Rightarrow> process \<Rightarrow> (unit, process) result" where
  "init_fiber_stacksize env p =
     and_then
       (on_cfg (Config_LookUp env T_uint32 ''fiber.stacksize'' (Stacksize_value (1024 * 1024))
          ''fiber stack size'') p)
       (\<lambda>v p1. Ok () (p1\<lparr>pr_fiber_stacksize := v\<rparr>))"

text \<open>The initialisers of a file, in the order of the file.\<close>

fun init_file :: "zcs_value config_env \<Rightarrow> source_file \<Rightarrow> process \<Rightarrow> (unit, process) result" where
  "init_file env Log_cpp p = and_then (init_log_defines env p) (\<lambda>_. LogIniter)"
| "init_file env Config_cpp p =
     and_then (init_logger Config_cpp ''system'' p)
       (\<lambda>_ p1. Ok () (p1\<lparr>pr_cfg := (pr_cfg p1)\<lparr>cfg_g_logger := the (pr_loggers p1 Config_cpp)\<rparr>\<rparr>))"
| "init_file env Fiber_cpp p =
     and_then (init_logger Fiber_cpp ''system'' p) (\<lambda>_. init_fiber_stacksize env)"
| "init_file env Thread_cpp p = init_logger Thread_cpp ''system'' p"
| "init_file env Thread_pool_cpp p = init_logger Thread_pool_cpp ''thread_pool'' p"
| "init_file env Util_cpp p = init_logger Util_cpp ''system'' p"

text \<open>The process at first: no variable, no listener id given out; the rest is as it happens to be.\<close>

definition before_start :: "log_sys \<Rightarrow> nat \<Rightarrow> process" where
  "before_start l g =
     \<lparr>pr_built = False, pr_loggers = Map.empty, pr_log_defines = None, pr_fiber_stacksize = None,
      pr_cfg = \<lparr>cfg_vars = [], cfg_datas = Map.empty, cfg_readers = 0, cfg_fun_ids = (\<lambda>_. 0),
                cfg_g_logger = g, cfg_log = l\<rparr>\<rparr>"

definition start_library :: "zcs_value config_env \<Rightarrow> source_file list \<Rightarrow> process \<Rightarrow> (unit, process) result"
where
  "start_library env order = for_each (init_file env) order"

section \<open>Every order of initialisation\<close>

definition logs_var :: "zcs_value config_var" where
  "logs_var = (new_ConfigVar T_logs ''logs'' (Logs_value []) ''log config'')\<lparr>cv_cbs := [(1, 0)]\<rparr>"

definition stacksize_var :: "zcs_value config_var" where
  "stacksize_var =
     new_ConfigVar T_uint32 ''fiber.stacksize'' (Stacksize_value (1024 * 1024)) ''fiber stack size''"

definition var_at :: "process \<Rightarrow> nat option \<Rightarrow> zcs_value config_var \<Rightarrow> bool" where
  "var_at p v cv \<longleftrightarrow>
     (case v of None \<Rightarrow> True | Some a \<Rightarrow> a < length (cfg_vars (pr_cfg p)) \<and> cfg_vars (pr_cfg p) ! a = cv)"

definition file_logger_name :: "source_file \<Rightarrow> string" where
  "file_logger_name file = (if file = Thread_pool_cpp then ''thread_pool'' else ''system'')"

text \<open>The loggers: the manager, once built, has a root that prints, and no other logger has appenders.\<close>

definition loggers_started :: "process \<Rightarrow> bool" where
  "loggers_started p \<longleftrightarrow>
     (let s = cfg_log (pr_cfg p) in
      (pr_built p \<longrightarrow> log_ready s \<and> only_cout s \<and> cout s = [] \<and> files s = (\<lambda>_. []) \<and>
         (\<forall>l < length (loggers s). effective_appenders s l = lg_appenders (loggers s ! mgr_root s))) \<and>
      (\<forall>file l. pr_loggers p file = Some l \<longrightarrow>
         pr_built p \<and> map_find string_lt (file_logger_name file) (mgr_loggers s) = Some l))"

text \<open>What holds when the files in \<open>fs\<close> have been initialised.\<close>

definition started_files :: "source_file set \<Rightarrow> process \<Rightarrow> bool" where
  "started_files fs p \<longleftrightarrow>
     loggers_started p \<and>
     cfg_readers (pr_cfg p) = 0 \<and>
     cfg_fun_ids (pr_cfg p) T_logs = (if Log_cpp \<in> fs then 1 else 0) \<and>
     cfg_datas (pr_cfg p) =
       (\<lambda>name. if name = ''logs'' then pr_log_defines p
               else if name = ''fiber.stacksize'' then pr_fiber_stacksize p else None) \<and>
     (pr_log_defines p = None \<longleftrightarrow> Log_cpp \<notin> fs) \<and> var_at p (pr_log_defines p) logs_var \<and>
     (pr_fiber_stacksize p = None \<longleftrightarrow> Fiber_cpp \<notin> fs) \<and> var_at p (pr_fiber_stacksize p) stacksize_var \<and>
     (\<forall>cv \<in> set (cfg_vars (pr_cfg p)). cv_readers cv = 0) \<and>
     (\<forall>file. (pr_loggers p file = None) = (file \<notin> fs - {Log_cpp})) \<and>
     (Config_cpp \<in> fs \<longrightarrow> pr_loggers p Config_cpp = Some (cfg_g_logger (pr_cfg p)))"

lemma started_before: "started_files {} (before_start l g)"
  by (simp add: started_files_def before_start_def var_at_def loggers_started_def fun_eq_iff)

lemma effective_GetLogger:
  assumes ready: "log_ready s" and all: "\<forall>l < length (loggers s). effective_appenders s l = as"
    and root: "lg_appenders (loggers s ! mgr_root s) = as"
    and get: "LoggerManager_GetLogger name s = (l, t)"
  shows "log_ready t \<and> appenders t = appenders s \<and> cout t = cout s \<and> files t = files s \<and>
    mgr_root t = mgr_root s \<and> lg_appenders (loggers t ! mgr_root t) = as \<and>
    (\<forall>l < length (loggers t). effective_appenders t l = as) \<and>
    map_find string_lt name (mgr_loggers t) = Some l \<and>
    (\<forall>k m. map_find string_lt k (mgr_loggers s) = Some m \<longrightarrow> map_find string_lt k (mgr_loggers t) = Some m)"
proof -
  have wf: "wf_sys s" using ready by (simp add: log_ready_def)
  have r: "mgr_root s < length (loggers s)" using wf by (rule wf_sys_root)
  have "wf_sys t" using wf_sys_GetLogger [OF wf, of name] get by simp
  moreover have "map_find string_lt k (mgr_loggers t) = Some m"
    if "map_find string_lt k (mgr_loggers s) = Some m" for k m
    using loggers_registry.lookup_kept [OF wf _ that, of name] get by simp
  moreover have "map_find string_lt name (mgr_loggers t) = Some l"
    using loggers_registry.get_stored [OF wf, of name] get by simp
  moreover have "lg_appenders (loggers t ! mgr_root t) = as \<and> mgr_root t = mgr_root s \<and>
      appenders t = appenders s \<and> cout t = cout s \<and> files t = files s \<and>
      (\<forall>l < length (loggers t). effective_appenders t l = as)"
  proof (cases "map_find string_lt name (mgr_loggers s)")
    case None
    with get have "t = snd (LoggerManager_GetLogger name s)" by simp
    then have t: "loggers t = loggers s @ [(new_Logger name)\<lparr>lg_root := Some (mgr_root s)\<rparr>]"
      "mgr_root t = mgr_root s" "appenders t = appenders s" "cout t = cout s" "files t = files s"
      using None by (simp_all add: GetLogger_fresh)
    have "effective_appenders t m = as" if m: "m < length (loggers t)" for m
    proof (cases "m < length (loggers s)")
      case True
      then have "lg_root (loggers s ! m) = None \<or> lg_root (loggers s ! m) = Some (mgr_root s)"
        using wf_sys_logger [OF wf True] by (simp add: logger_ok_def)
      moreover have "effective_appenders s m = as" using all True by simp
      ultimately show ?thesis using True r t by (auto simp: effective_appenders_def nth_append)
    next
      case False
      with m t have "m = length (loggers s)" by simp
      with t r root show ?thesis by (simp add: effective_appenders_def nth_append new_Logger_def)
    qed
    with t r root show ?thesis by (simp add: nth_append)
  next
    case (Some m)
    with get all root show ?thesis by (simp add: GetLogger_found)
  qed
  ultimately show ?thesis using ready root by (auto simp: log_ready_def)
qed


lemma init_logger_started:
  assumes p: "loggers_started p" and name: "name = file_logger_name file"
  shows "\<exists>l s. init_logger file name p =
      Ok () (p\<lparr>pr_built := True, pr_loggers := (pr_loggers p)(file \<mapsto> l), pr_cfg := (pr_cfg p)\<lparr>cfg_log := s\<rparr>\<rparr>) \<and>
    loggers_started (p\<lparr>pr_built := True, pr_loggers := (pr_loggers p)(file \<mapsto> l),
      pr_cfg := (pr_cfg p)\<lparr>cfg_log := s\<rparr>\<rparr>)"
proof -
  let ?s = "cfg_log (pr_cfg p)"
  obtain s0 where new: "new_LoggerManager = Ok () s0" by (simp add: new_LoggerManager_state)
  have s0: "log_ready s0 \<and> only_cout s0 \<and> cout s0 = [] \<and> files s0 = (\<lambda>_. []) \<and>
      (\<forall>l < length (loggers s0). effective_appenders s0 l = lg_appenders (loggers s0 ! mgr_root s0))"
    using new wf_sys_initial [OF new] 
    by (auto simp: new_LoggerManager_state log_ready_def effective_appenders_def only_cout_def
      new_StdoutLogAppender_def)
  define t0 where "t0 = (if pr_built p then ?s else s0)"
  have t0: "log_ready t0 \<and> only_cout t0 \<and> cout t0 = [] \<and> files t0 = (\<lambda>_. []) \<and>
      (\<forall>l < length (loggers t0). effective_appenders t0 l = lg_appenders (loggers t0 ! mgr_root t0))"
    using p s0 by (simp add: loggers_started_def Let_def t0_def)
  obtain l t where get: "LoggerManager_GetLogger name t0 = (l, t)" by fastforce
  have run: "init_logger file name p =
      Ok () (p\<lparr>pr_built := True, pr_loggers := (pr_loggers p)(file \<mapsto> l), pr_cfg := (pr_cfg p)\<lparr>cfg_log := t\<rparr>\<rparr>)"
    using get
    by (cases "pr_built p")
      (simp_all add: init_logger_def ZCS_LOG_NAME_def LoggerMgr_GetInstance_def Singleton_GetInstance_def new t0_def)
  have t: "log_ready t \<and> appenders t = appenders t0 \<and> cout t = cout t0 \<and> files t = files t0 \<and>
      mgr_root t = mgr_root t0 \<and> lg_appenders (loggers t ! mgr_root t) = lg_appenders (loggers t0 ! mgr_root t0) \<and>
      (\<forall>m < length (loggers t). effective_appenders t m = lg_appenders (loggers t0 ! mgr_root t0)) \<and>
      map_find string_lt name (mgr_loggers t) = Some l \<and>
      (\<forall>k m. map_find string_lt k (mgr_loggers t0) = Some m \<longrightarrow> map_find string_lt k (mgr_loggers t) = Some m)"
    using t0 by (intro effective_GetLogger [OF _ _ _ get]) simp_all
  have "pr_built p \<and> map_find string_lt (file_logger_name f) (mgr_loggers ?s) = Some m"
    if "pr_loggers p f = Some m" for f m
    using p that by (simp add: loggers_started_def Let_def)
  moreover have "t0 = ?s" if "pr_built p" using that by (simp add: t0_def)
  ultimately have "map_find string_lt (file_logger_name f) (mgr_loggers t) = Some m"
    if "pr_loggers p f = Some m" for f m
    using t that by metis
  then have "loggers_started (p\<lparr>pr_built := True, pr_loggers := (pr_loggers p)(file \<mapsto> l),
      pr_cfg := (pr_cfg p)\<lparr>cfg_log := t\<rparr>\<rparr>)"
    using t t0 name by (auto simp: loggers_started_def Let_def only_cout_def)
  with run show ?thesis by blast
qed

lemma init_logger_files:
  assumes p: "started_files fs p" and f: "file \<noteq> Log_cpp" "file \<noteq> Fiber_cpp" "file \<noteq> Config_cpp"
    and name: "name = file_logger_name file"
  shows "\<exists>q. init_logger file name p = Ok () q \<and> started_files (insert file fs) q"
proof -
  have "loggers_started p" using p by (simp add: started_files_def)
  from init_logger_started [OF this name] obtain l s where run: "init_logger file name p =
      Ok () (p\<lparr>pr_built := True, pr_loggers := (pr_loggers p)(file \<mapsto> l), pr_cfg := (pr_cfg p)\<lparr>cfg_log := s\<rparr>\<rparr>)"
    "loggers_started (p\<lparr>pr_built := True, pr_loggers := (pr_loggers p)(file \<mapsto> l),
      pr_cfg := (pr_cfg p)\<lparr>cfg_log := s\<rparr>\<rparr>)" by blast
  moreover from this have "started_files (insert file fs) (p\<lparr>pr_built := True,
      pr_loggers := (pr_loggers p)(file \<mapsto> l), pr_cfg := (pr_cfg p)\<lparr>cfg_log := s\<rparr>\<rparr>)"
    using p f by (auto simp: started_files_def var_at_def split: option.splits)
  ultimately show ?thesis by blast
qed

lemma name_ok_vars: "\<not> has_char_not_of ''logs'' lookup_chars" "\<not> has_char_not_of ''fiber.stacksize'' lookup_chars"
  by (simp_all add: has_char_not_of_def lookup_chars_def)

lemma init_file_started:
  assumes p: "started_files fs p" and f: "file \<notin> fs"
  shows "\<exists>q. init_file env file p = Ok () q \<and> started_files (insert file fs) q"
proof (cases "file")
  case Log_cpp
  let ?s = "pr_cfg p" and ?a = "length (cfg_vars (pr_cfg p))"
  let ?q = "p\<lparr>pr_log_defines := Some ?a,
      pr_cfg := ?s\<lparr>cfg_vars := cfg_vars ?s @ [logs_var], cfg_datas := (cfg_datas ?s)(''logs'' \<mapsto> ?a),
        cfg_fun_ids := (cfg_fun_ids ?s)(T_logs := 1)\<rparr>\<rparr>"
  have run: "init_file env file p = Ok () ?q"
    using p f Log_cpp name_ok_vars
    by (simp add: started_files_def init_log_defines_def on_cfg_def Config_LookUp_def LogIniter_def
        ConfigVar_AddListener_def with_wrlock_def update_var_def new_ConfigVar_def logs_var_def Let_def)
  have "loggers_started ?q" using p by (simp add: started_files_def loggers_started_def Let_def)
  moreover have "var_at ?q (pr_fiber_stacksize p) stacksize_var"
    using p by (auto simp: started_files_def var_at_def nth_append split: option.splits)
  ultimately have "started_files (insert file fs) ?q"
    using p f Log_cpp by (auto simp: started_files_def var_at_def fun_eq_iff logs_var_def new_ConfigVar_def)
  with run show ?thesis by blast
next
  case Config_cpp
  have "loggers_started p" using p by (simp add: started_files_def)
  from init_logger_started [OF this, of "''system''" Config_cpp] obtain l s where run: "init_logger Config_cpp ''system'' p =
      Ok () (p\<lparr>pr_built := True, pr_loggers := (pr_loggers p)(Config_cpp \<mapsto> l), pr_cfg := (pr_cfg p)\<lparr>cfg_log := s\<rparr>\<rparr>)"
    "loggers_started (p\<lparr>pr_built := True, pr_loggers := (pr_loggers p)(Config_cpp \<mapsto> l),
      pr_cfg := (pr_cfg p)\<lparr>cfg_log := s\<rparr>\<rparr>)" by (auto simp: file_logger_name_def)
  let ?q = "p\<lparr>pr_built := True, pr_loggers := (pr_loggers p)(Config_cpp \<mapsto> l),
      pr_cfg := (pr_cfg p)\<lparr>cfg_log := s, cfg_g_logger := l\<rparr>\<rparr>"
  have "init_file env file p = Ok () ?q" using run(1) Config_cpp by simp
  moreover have "loggers_started ?q" using run(2) by (simp add: loggers_started_def Let_def)
  then have "started_files (insert file fs) ?q"
    using p Config_cpp by (auto simp: started_files_def var_at_def split: option.splits)
  ultimately show ?thesis by blast
next
  case Fiber_cpp
  have "loggers_started p" using p by (simp add: started_files_def)
  from init_logger_started [OF this, of "''system''" Fiber_cpp] obtain l s where run: "init_logger Fiber_cpp ''system'' p =
      Ok () (p\<lparr>pr_built := True, pr_loggers := (pr_loggers p)(Fiber_cpp \<mapsto> l), pr_cfg := (pr_cfg p)\<lparr>cfg_log := s\<rparr>\<rparr>)"
    "loggers_started (p\<lparr>pr_built := True, pr_loggers := (pr_loggers p)(Fiber_cpp \<mapsto> l),
      pr_cfg := (pr_cfg p)\<lparr>cfg_log := s\<rparr>\<rparr>)" by (auto simp: file_logger_name_def)
  let ?s = "(pr_cfg p)\<lparr>cfg_log := s\<rparr>" and ?a = "length (cfg_vars (pr_cfg p))"
  let ?q = "p\<lparr>pr_built := True, pr_loggers := (pr_loggers p)(Fiber_cpp \<mapsto> l), pr_fiber_stacksize := Some ?a,
      pr_cfg := ?s\<lparr>cfg_vars := cfg_vars ?s @ [stacksize_var], cfg_datas := (cfg_datas ?s)(''fiber.stacksize'' \<mapsto> ?a)\<rparr>\<rparr>"
  have "init_file env file p = Ok () ?q"
    using p f Fiber_cpp name_ok_vars run(1)
    by (simp add: started_files_def init_fiber_stacksize_def on_cfg_def Config_LookUp_def stacksize_var_def Let_def)
  moreover have "loggers_started ?q" using run(2) by (simp add: loggers_started_def Let_def)
  moreover have "var_at ?q (pr_log_defines p) logs_var"
    using p by (auto simp: started_files_def var_at_def nth_append split: option.splits)
  ultimately show ?thesis
    using p f Fiber_cpp by (auto simp: started_files_def var_at_def fun_eq_iff stacksize_var_def new_ConfigVar_def)
qed (use p in \<open>auto intro!: init_logger_files simp: file_logger_name_def\<close>)

lemma init_files_started:
  assumes "started_files fs p" and "distinct order" and "fs \<inter> set order = {}"
  shows "\<exists>q. for_each (init_file env) order p = Ok () q \<and> started_files (fs \<union> set order) q"
  using assms
proof (induction order arbitrary: fs p)
  case Nil
  then show ?case by simp
next
  case (Cons src order)
  then obtain q where q: "init_file env src p = Ok () q" "started_files (insert src fs) q"
    using init_file_started [of fs p src env] by auto
  from Cons.IH [OF q(2)] Cons.prems q(1) show ?case by auto
qed


definition zcs_typing :: "string \<Rightarrow> nat" where
  "zcs_typing name = (if name = ''fiber.stacksize'' then T_uint32 else T_logs)"

lemma started_all:
  assumes p: "started_files UNIV p"
  shows "\<exists>a b. config_inv zcs_typing (pr_cfg p) \<and> vars_unlocked (pr_cfg p) \<and>
    cfg_datas (pr_cfg p) = [''logs'' \<mapsto> a, ''fiber.stacksize'' \<mapsto> b] \<and>
    cfg_vars (pr_cfg p) ! a = logs_var \<and> cfg_vars (pr_cfg p) ! b = stacksize_var"
    and "cout (cfg_log (pr_cfg p)) = []" and "only_cout (cfg_log (pr_cfg p))" and "pr_loggers p Config_cpp = Some (cfg_g_logger (pr_cfg p))"
    and "\<forall>src \<in> UNIV - {Log_cpp}. \<exists>m. pr_loggers p src = Some m \<and>
       map_find string_lt (file_logger_name src) (mgr_loggers (cfg_log (pr_cfg p))) = Some m \<and>
       effective_appenders (cfg_log (pr_cfg p)) m =
         lg_appenders (loggers (cfg_log (pr_cfg p)) ! mgr_root (cfg_log (pr_cfg p)))"
proof -
  let ?s = "pr_cfg p"
  from p obtain a b where ab: "pr_log_defines p = Some a" "pr_fiber_stacksize p = Some b"
    by (auto simp: started_files_def)
  have st: "loggers_started p" and datas: "cfg_datas ?s = [''logs'' \<mapsto> a, ''fiber.stacksize'' \<mapsto> b]"
    and vars: "a < length (cfg_vars ?s)" "cfg_vars ?s ! a = logs_var"
      "b < length (cfg_vars ?s)" "cfg_vars ?s ! b = stacksize_var"
    using p ab by (auto simp: started_files_def var_at_def fun_eq_iff)
  have logger: "\<exists>m. pr_loggers p src = Some m" if "src \<noteq> Log_cpp" for src
  proof -
    have "pr_loggers p src \<noteq> None" using p that by (simp add: started_files_def)
    then show ?thesis by blast
  qed
  then have built: "pr_built p" using st logger [of Config_cpp] by (auto simp: loggers_started_def Let_def)
  have reg: "map_find string_lt (file_logger_name src) (mgr_loggers (cfg_log ?s)) = Some m"
    if "pr_loggers p src = Some m" for src m
    using st that by (simp add: loggers_started_def Let_def)
  have ready: "log_ready (cfg_log ?s)" and quiet: "cout (cfg_log ?s) = []" and streams: "only_cout (cfg_log ?s)"
    and all: "\<forall>m < length (loggers (cfg_log ?s)).
      effective_appenders (cfg_log ?s) m = lg_appenders (loggers (cfg_log ?s) ! mgr_root (cfg_log ?s))"
    using st built by (simp_all add: loggers_started_def Let_def)
  have "m < length (loggers (cfg_log ?s))" if "pr_loggers p src = Some m" for src m
    using ready reg [OF that] wf_sys_registered(1) by (auto simp: log_ready_def)
  with all reg logger show "\<forall>src \<in> UNIV - {Log_cpp}. \<exists>m. pr_loggers p src = Some m \<and>
      map_find string_lt (file_logger_name src) (mgr_loggers (cfg_log ?s)) = Some m \<and>
      effective_appenders (cfg_log ?s) m = lg_appenders (loggers (cfg_log ?s) ! mgr_root (cfg_log ?s))"
    by fastforce
  have readers: "cfg_readers ?s = 0" using p by (simp add: started_files_def)
  have "config_inv zcs_typing ?s"
    using ready readers vars name_ok_vars
    by (auto simp: config_inv_def datas zcs_typing_def name_ok_def logs_var_def stacksize_var_def
        new_ConfigVar_def split: if_splits)
  moreover have "vars_unlocked ?s" using p by (simp add: started_files_def vars_unlocked_def list_all_iff)
  ultimately show "\<exists>a b. config_inv zcs_typing ?s \<and> vars_unlocked ?s \<and>
      cfg_datas ?s = [''logs'' \<mapsto> a, ''fiber.stacksize'' \<mapsto> b] \<and>
      cfg_vars ?s ! a = logs_var \<and> cfg_vars ?s ! b = stacksize_var"
    using datas vars by blast
  show "cout (cfg_log ?s) = []" by (rule quiet)
  show "only_cout (cfg_log ?s)" by (rule streams)
  show "pr_loggers p Config_cpp = Some (cfg_g_logger ?s)" using p by (simp add: started_files_def)
qed

lemma started_registered: "started_files UNIV p \<Longrightarrow> system_registered (pr_cfg p)"
  using started_all(4) [of p] bspec [OF started_all(5) [of p], of Config_cpp]
  unfolding system_registered_def by auto

text \<open>
  C15: The initialisation of the library does not depend on the order in which the language initialises
  its source files: in every order it returns without logging or printing anything, with both
  variables registered under their names, with their defaults and \<open>logs\<close> with exactly the listener
  of \<open>LogIniter\<close>, and with the logger of every file being the one registered under its name and
  writing to the appenders of the root logger, which are not empty.
\<close>

theorem library_starts_in_any_order:
  assumes "distinct order" and "set order = UNIV"
  shows "\<exists>p a b. start_library env order (before_start l g) = Ok () p \<and>
    config_inv zcs_typing (pr_cfg p) \<and> vars_unlocked (pr_cfg p) \<and>
    cfg_datas (pr_cfg p) = [''logs'' \<mapsto> a, ''fiber.stacksize'' \<mapsto> b] \<and>
    cfg_vars (pr_cfg p) ! a = logs_var \<and> cfg_vars (pr_cfg p) ! b = stacksize_var \<and>
    cout (cfg_log (pr_cfg p)) = [] \<and>
    pr_loggers p Config_cpp = Some (cfg_g_logger (pr_cfg p)) \<and>
    (\<forall>src \<in> UNIV - {Log_cpp}. \<exists>m. pr_loggers p src = Some m \<and>
       map_find string_lt (file_logger_name src) (mgr_loggers (cfg_log (pr_cfg p))) = Some m \<and>
       effective_appenders (cfg_log (pr_cfg p)) m =
         lg_appenders (loggers (cfg_log (pr_cfg p)) ! mgr_root (cfg_log (pr_cfg p))))"
proof -
  obtain p where run: "start_library env order (before_start l g) = Ok () p" and p: "started_files UNIV p"
    using init_files_started [OF started_before assms(1), of env l g] assms(2) by (auto simp: start_library_def)
  from started_all(1) [OF p] obtain a b where "config_inv zcs_typing (pr_cfg p)" "vars_unlocked (pr_cfg p)"
    "cfg_datas (pr_cfg p) = [''logs'' \<mapsto> a, ''fiber.stacksize'' \<mapsto> b]"
    "cfg_vars (pr_cfg p) ! a = logs_var" "cfg_vars (pr_cfg p) ! b = stacksize_var" by blast
  with run started_all(2-) [OF p] show ?thesis by blast
qed

definition example_start_env :: start_env where
  "example_start_env =
     \<lparr>senv_log = cenv_log example_env, senv_logs_name = ''logs'', senv_uint32_name = ''j'',
      senv_uint32_from = (\<lambda>t. Inl (BadLexicalCast t)), senv_uint32_to = (\<lambda>n. Inr (dec_nat (unat n)))\<rparr>"

lemma all_source_files: "distinct [Fiber_cpp, Log_cpp, Thread_cpp, Config_cpp, Util_cpp, Thread_pool_cpp]"
  "set [Fiber_cpp, Log_cpp, Thread_cpp, Config_cpp, Util_cpp, Thread_pool_cpp] = UNIV"
proof -
  show "set [Fiber_cpp, Log_cpp, Thread_cpp, Config_cpp, Util_cpp, Thread_pool_cpp] = UNIV"
    by (auto intro: source_file.exhaust)
qed simp

theorem library_starts_in_any_order_witness:
  "\<exists>p a b. start_library (zcs_env example_start_env tree_lib)
      [Fiber_cpp, Log_cpp, Thread_cpp, Config_cpp, Util_cpp, Thread_pool_cpp] (before_start example_log 7) = Ok () p \<and>
    cfg_datas (pr_cfg p) = [''logs'' \<mapsto> a, ''fiber.stacksize'' \<mapsto> b] \<and> cout (cfg_log (pr_cfg p)) = []"
proof -
  let ?env = "zcs_env example_start_env tree_lib"
  obtain p a b where "start_library ?env [Fiber_cpp, Log_cpp, Thread_cpp, Config_cpp, Util_cpp, Thread_pool_cpp]
      (before_start example_log 7) = Ok () p"
    and "cfg_datas (pr_cfg p) = [''logs'' \<mapsto> a, ''fiber.stacksize'' \<mapsto> b]" and "cout (cfg_log (pr_cfg p)) = []"
    using library_starts_in_any_order [OF all_source_files, of ?env example_log 7] by blast
  then show ?thesis by blast
qed

section \<open>A document configures the loggers\<close>

lemma seq_from_string_inv:
  assumes "seq_from_string lib add start dec v = (out, Inr c)" and "P start"
    and "\<And>x c. P c \<Longrightarrow> P (add x c)"
  shows "P c"
proof -
  have loop: "P c" if "snd (cast_loop (\<lambda>i vec. cast_bind (dec (y_emit lib (y_at lib node i)))
      (\<lambda>x. ([], Inr (add x vec)))) xs acc) = Inr c" "P acc" for node xs acc
    using that
  proof (induction xs arbitrary: acc)
    case (Cons x xs)
    obtain o1 r where "dec (y_emit lib (y_at lib node x)) = (o1, r)" by fastforce
    with Cons assms(3) show ?case by (cases r) auto
  qed simp
  have "snd (seq_from_string lib add start dec v) = Inr c" using assms(1) by simp
  with assms(2) loop show ?thesis
    by (cases "y_load lib v") (auto simp: seq_from_string_def yaml_load_def)
qed

lemma set_from_string_sorted:
  "set_from_string lib LogDefine_lt dec v = (out, Inr lds) \<Longrightarrow> sorted_wrt LogDefine_lt lds"
  unfolding set_from_string_def
  by (erule seq_from_string_inv) (simp_all add: log_define_order.sorted_set_insert)

text \<open>
  The loggers are in line with \<open>new\<close>, where \<open>old\<close> were the definitions before.
\<close>

definition reconfigured :: "log_define list \<Rightarrow> log_define list \<Rightarrow> log_sys \<Rightarrow> bool" where
  "reconfigured old new t \<longleftrightarrow>
     wf_sys t \<and> (\<forall>i \<in> set new - set old. installed t i) \<and>
     (\<forall>j \<in> set old. ld_name j \<notin> ld_name ` set new \<longrightarrow> removed t (ld_name j))"

lemma update_var_cfg_log: "update_var a f (s\<lparr>cfg_log := l\<rparr>) = (update_var a f s)\<lparr>cfg_log := l\<rparr>"
  by (simp add: update_var_def)

lemma SetValue_logs:
  assumes ready: "log_ready (cfg_log s)" and a: "a < length (cfg_vars s)"
    and var: "cv_type (cfg_vars s ! a) = T_logs" "cv_val (cfg_vars s ! a) = Logs_value old"
      "cv_cbs (cfg_vars s ! a) = [(fid, 0)]" "cv_readers (cfg_vars s ! a) = 0"
    and sorted: "sorted_wrt LogDefine_lt old" "sorted_wrt LogDefine_lt new"
  shows "\<exists>l. ConfigVar_SetValue (zcs_env env lib) a (Logs_value new) s =
      Ok () ((update_var a (\<lambda>cv. cv\<lparr>cv_val := Logs_value new\<rparr>) s)\<lparr>cfg_log := l\<rparr>) \<and>
    reconfigured old new l \<and> (reliable (senv_log env) \<and> streams_ok (cfg_log s) \<longrightarrow> streams_ok l)"
proof (cases "old = new")
  case True
  have "update_var a (\<lambda>cv. cv\<lparr>cv_val := Logs_value new\<rparr>) s = s"
    using var True by (intro update_var_same) simp
  moreover have "ConfigVar_SetValue (zcs_env env lib) a (Logs_value new) s = Ok () s"
    using a var True by (simp add: ConfigVar_SetValue_def zcs_env_def zcs_class_def zcs_eq_iff Let_def cfg_simps)
  moreover have "reconfigured old new (cfg_log s)"
    using True ready by (auto simp: reconfigured_def log_ready_def)
  ultimately show ?thesis by (intro exI [of _ "cfg_log s"]) simp
next
  case False
  let ?s = "var_rdlock a s"
  have log: "cfg_log ?s = cfg_log s" by (simp add: var_rdlock_def cfg_simps)
  from on_logs_changed_result [OF ready sorted(2,1), of "senv_log env"]
  obtain l where l: "on_logs_changed (senv_log env) new old (cfg_log ?s) = Ok () l" "reconfigured old new l"
    by (auto simp: reconfigured_def log)
  have "streams_ok l" if "reliable (senv_log env)" "streams_ok (cfg_log s)"
    using on_logs_changed_streams [OF ready that(2,1)] l(1) by (simp add: log)
  note l = l this
  have "var_unlock a (?s\<lparr>cfg_log := l\<rparr>) = s\<lparr>cfg_log := l\<rparr>"
    using lock_unlock [of a s] by (simp add: var_unlock_def var_rdlock_def update_var_cfg_log)
  then have "ConfigVar_SetValue (zcs_env env lib) a (Logs_value new) s =
      Ok () (update_var a (\<lambda>cv. cv\<lparr>cv_val := Logs_value new\<rparr>) (s\<lparr>cfg_log := l\<rparr>))"
    using a var False l(1)
    by (simp add: ConfigVar_SetValue_def zcs_env_def zcs_class_def zcs_eq_iff Let_def zcs_listener_def
        with_wrlock_def)
  with l(2,3) show ?thesis by (auto simp: update_var_cfg_log)
qed

lemma load_entry_logs:
  assumes inv: "config_inv zcs_typing s" and free: "vars_unlocked s"
    and a: "cfg_datas s ''logs'' = Some a" and var: "cv_val (cfg_vars s ! a) = Logs_value old"
      "cv_cbs (cfg_vars s ! a) = [(fid, 0)]" and old: "sorted_wrt LogDefine_lt old"
    and node: "\<not> y_is_scalar lib node"
    and defs: "set_from_string lib LogDefine_lt (LogDefine_from_string lib) (y_emit lib node) = (out, Inr new)"
  shows "\<exists>l. load_entry (zcs_env env lib) lib (''logs'', node) s =
      Ok () ((update_var a (\<lambda>cv. cv\<lparr>cv_val := Logs_value new\<rparr>) s)\<lparr>cfg_log := l\<rparr>) \<and>
    reconfigured old new l \<and> (reliable (senv_log env) \<and> streams_ok (cfg_log s) \<longrightarrow> streams_ok l)"
proof -
  have len: "a < length (cfg_vars s)" and ty: "cv_type (cfg_vars s ! a) = T_logs"
    and ready: "log_ready (cfg_log s)"
    using inv a by (auto simp: config_inv_def zcs_typing_def)
  have low: "map tolower_char ''logs'' = ''logs''" by (simp add: tolower_char_def)
  let ?s = "cfg_print s out"
  have vars: "cfg_vars ?s = cfg_vars s" "log_ready (cfg_log ?s)"
    using log_ready_print [OF ready, of out] by (simp_all add: log_changed_fields)
  have "cv_readers (cfg_vars s ! a) = 0" using free len by (simp add: vars_unlocked_def list_all_length)
  then obtain l where l: "ConfigVar_SetValue (zcs_env env lib) a (Logs_value new) ?s =
      Ok () ((update_var a (\<lambda>cv. cv\<lparr>cv_val := Logs_value new\<rparr>) ?s)\<lparr>cfg_log := l\<rparr>)" "reconfigured old new l"
      "reliable (senv_log env) \<and> streams_ok (cfg_log s) \<longrightarrow> streams_ok l"
    using SetValue_logs [of ?s a old fid new env lib] vars len ty var old set_from_string_sorted [OF defs]
    by (auto simp: cfg_print_def)
  have "(update_var a (\<lambda>cv. cv\<lparr>cv_val := Logs_value new\<rparr>) ?s)\<lparr>cfg_log := l\<rparr> =
      (update_var a (\<lambda>cv. cv\<lparr>cv_val := Logs_value new\<rparr>) s)\<lparr>cfg_log := l\<rparr>"
    by (simp add: cfg_print_def update_var_cfg_log)
  then have "load_entry (zcs_env env lib) lib (''logs'', node) s =
      Ok () ((update_var a (\<lambda>cv. cv\<lparr>cv_val := Logs_value new\<rparr>) s)\<lparr>cfg_log := l\<rparr>)"
    using a low node len ty defs l(1)
    by (simp add: load_entry_def Config_LookUpBase_def ConfigVar_FromString_def zcs_env_def zcs_class_def Let_def)
  with l(2,3) show ?thesis by blast
qed


lemma load_unregistered:
  assumes "\<forall>it \<in> set es. map tolower_char (fst it) = fst it \<and> (fst it = [] \<or> cfg_datas s (fst it) = None)"
  shows "for_each (load_entry env lib) es s = Ok () s"
  using assms by (induction es) (auto simp: load_entry_def Config_LookUpBase_def)

lemma load_document_logs:
  assumes inv: "config_inv zcs_typing s" and free: "vars_unlocked s" and sys: "system_registered s"
    and a: "cfg_datas s ''logs'' = Some a" and var: "cv_val (cfg_vars s ! a) = Logs_value old"
      "cv_cbs (cfg_vars s ! a) = [(fid, 0)]" and old: "sorted_wrt LogDefine_lt old"
    and doc: "depth_ok lib fuel root" "dotted lib fuel [] root = pre @ (''logs'', node) # post"
    and others: "\<forall>it \<in> set (pre @ post). fst it = [] \<or> cfg_datas s (fst it) = None"
    and node: "\<not> y_is_scalar lib node"
    and defs: "set_from_string lib LogDefine_lt (LogDefine_from_string lib) (y_emit lib node) = (out, Inr new)"
  shows "\<exists>l. Config_LoadFromYaml (zcs_env env lib) lib fuel root s =
      Ok () ((update_var a (\<lambda>cv. cv\<lparr>cv_val := Logs_value new\<rparr>) s)\<lparr>cfg_log := l\<rparr>) \<and>
    reconfigured old new l \<and> (reliable (senv_log env) \<and> only_cout (cfg_log s) \<longrightarrow> streams_ok l)"
proof -
  have ready: "log_ready (cfg_log s)" using inv by (simp add: config_inv_def)
  from ListAllMember_dotted [OF doc(1) ready sys, of "zcs_env env lib" "[]" "[]"]
  obtain t where t: "ListAllMember (zcs_env env lib) lib fuel [] root ([], s) =
      Ok () (pre @ (''logs'', node) # post, t)" "log_step s t" by (auto simp: doc(2))
  have eq: "t = s\<lparr>cfg_log := cfg_log t\<rparr>" using t(2) unfolding log_step_def by (rule conjunct1)
  note keep = log_step_fields [OF t(2)]
  have low: "map tolower_char (fst it) = fst it" if "it \<in> set (pre @ post)" for it
    using dotted_lower [of "fst it" "snd it" lib fuel "[]" root] that by (auto simp: doc(2))
  have loads: "for_each (load_entry (zcs_env env lib) lib) es u = Ok () u"
    if "set es \<subseteq> set (pre @ post)" "cfg_datas u = cfg_datas s" for es u
    using that low others by (intro load_unregistered) auto
  have inv_t: "config_inv zcs_typing t" "vars_unlocked t"
    using config_inv_log_step [OF t(2) inv] free by (simp_all add: vars_unlocked_def keep)
  have a_t: "cfg_datas t ''logs'' = Some a" "cv_val (cfg_vars t ! a) = Logs_value old"
    "cv_cbs (cfg_vars t ! a) = [(fid, 0)]" using a var by (simp_all add: keep)
  from load_entry_logs [OF inv_t a_t old node defs, of env]
  obtain l where l: "load_entry (zcs_env env lib) lib (''logs'', node) t =
      Ok () ((update_var a (\<lambda>cv. cv\<lparr>cv_val := Logs_value new\<rparr>) t)\<lparr>cfg_log := l\<rparr>)" "reconfigured old new l"
      "reliable (senv_log env) \<and> streams_ok (cfg_log t) \<longrightarrow> streams_ok l"
    by blast
  have "only_cout (cfg_log s) \<longrightarrow> streams_ok (cfg_log t)"
    using only_cout_frame [OF keep(6)] only_cout_streams by blast
  note l = l this
  have "(update_var a (\<lambda>cv. cv\<lparr>cv_val := Logs_value new\<rparr>) t)\<lparr>cfg_log := l\<rparr> =
      (update_var a (\<lambda>cv. cv\<lparr>cv_val := Logs_value new\<rparr>) s)\<lparr>cfg_log := l\<rparr>"
    by (subst eq) (simp add: update_var_cfg_log)
  moreover have "for_each (load_entry (zcs_env env lib) lib) pre t = Ok () t"
    "for_each (load_entry (zcs_env env lib) lib) post
       ((update_var a (\<lambda>cv. cv\<lparr>cv_val := Logs_value new\<rparr>) s)\<lparr>cfg_log := l\<rparr>) =
     Ok () ((update_var a (\<lambda>cv. cv\<lparr>cv_val := Logs_value new\<rparr>) s)\<lparr>cfg_log := l\<rparr>)"
    by (intro loads; simp add: keep update_var_def)+
  ultimately have "Config_LoadFromYaml (zcs_env env lib) lib fuel root s =
      Ok () ((update_var a (\<lambda>cv. cv\<lparr>cv_val := Logs_value new\<rparr>) s)\<lparr>cfg_log := l\<rparr>)"
    using l(1) by (simp add: Config_LoadFromYaml_def t(1) for_each_append)
  with l(2-) show ?thesis by blast
qed

text \<open>
  C3: Loading a document configures the loggers. When the variable \<open>logs\<close> has the listener that the
  initialisation gave it, and the document has the member \<open>logs\<close> once, with a sequence whose
  elements cast to the definitions \<open>new\<close>, and no other member that is a variable, loading it
  returns, the variable holds \<open>new\<close>, no other variable changes, every logger with a new or changed
  definition has its level, formatter and appenders, and every logger that was defined before and
  is not any more is shut off.
\<close>

theorem document_configures_loggers:
  assumes inv: "config_inv zcs_typing s" and free: "vars_unlocked s" and sys: "system_registered s"
    and a: "cfg_datas s ''logs'' = Some a" and var: "cv_val (cfg_vars s ! a) = Logs_value old"
      "cv_cbs (cfg_vars s ! a) = [(fid, 0)]" and old: "sorted_wrt LogDefine_lt old"
    and doc: "depth_ok lib fuel root" "dotted lib fuel [] root = pre @ (''logs'', node) # post"
    and others: "\<forall>it \<in> set (pre @ post). fst it = [] \<or> cfg_datas s (fst it) = None"
    and node: "\<not> y_is_scalar lib node"
    and defs: "set_from_string lib LogDefine_lt (LogDefine_from_string lib) (y_emit lib node) = (out, Inr new)"
  shows "\<exists>l. Config_LoadFromYaml (zcs_env env lib) lib fuel root s =
      Ok () ((update_var a (\<lambda>cv. cv\<lparr>cv_val := Logs_value new\<rparr>) s)\<lparr>cfg_log := l\<rparr>) \<and>
    reconfigured old new l"
  using load_document_logs [OF assms] by blast


text \<open>The library is started, and then a document with one logger is loaded.\<close>

definition example_document :: tree where
  "example_document =
     Map [(Scalar ''logs'', Seq [Map [(Scalar ''name'', Scalar ''net''), (Scalar ''level'', Scalar ''WARN''),
       (Scalar ''appenders'', Seq [Map [(Scalar ''type'', Scalar ''FileLogAppender''),
          (Scalar ''file'', Scalar ''net.log'')]])]])]"

definition example_net :: log_define where
  "example_net = \<lparr>ld_name = ''net'', ld_level = WARN, ld_formatter = [],
     ld_appenders = [\<lparr>lad_type = 1, lad_level = UNKONW, lad_formatter = [], lad_file = ''net.log''\<rparr>]\<rparr>"

lemma example_document_defines:
  "set_from_string tree_lib LogDefine_lt (LogDefine_from_string tree_lib)
     (tree_text (Seq [Map [(Scalar ''name'', Scalar ''net''), (Scalar ''level'', Scalar ''WARN''),
       (Scalar ''appenders'', Seq [Map [(Scalar ''type'', Scalar ''FileLogAppender''),
          (Scalar ''file'', Scalar ''net.log'')]])]])) = ([], Inr [example_net])"
  by (simp add: set_from_string_def seq_from_string_def yaml_load_def load_tree_text LogDefine_from_string_def
      tree_key_def key_or_def appender_from_node_def new_lad_def example_net_def LogLevel_FromString_def upt_rec
      tree_at_def del: tree_text.simps)


lemma example_document_members:
  "depth_ok tree_lib 3 example_document \<and>
   dotted tree_lib 3 [] example_document =
     [([], example_document)] @ (''logs'', Seq [Map [(Scalar ''name'', Scalar ''net''), (Scalar ''level'', Scalar ''WARN''),
       (Scalar ''appenders'', Seq [Map [(Scalar ''type'', Scalar ''FileLogAppender''),
          (Scalar ''file'', Scalar ''net.log'')]])]]) # []"
  by (simp add: eval_nat_numeral example_document_def has_char_not_of_def member_chars_def join_path_def tree_lib_def)

theorem document_configures_loggers_witness:
  "\<exists>p t l. start_library (zcs_env example_start_env tree_lib)
      [Fiber_cpp, Log_cpp, Thread_cpp, Config_cpp, Util_cpp, Thread_pool_cpp] (before_start example_log 7) = Ok () p \<and>
    Config_LoadFromYaml (zcs_env example_start_env tree_lib) tree_lib 3 example_document (pr_cfg p) =
      Ok () (t\<lparr>cfg_log := l\<rparr>) \<and> reconfigured [] [example_net] l"
proof -
  let ?env = "zcs_env example_start_env tree_lib"
  obtain p where p: "start_library ?env [Fiber_cpp, Log_cpp, Thread_cpp, Config_cpp, Util_cpp, Thread_pool_cpp]
      (before_start example_log 7) = Ok () p" "started_files UNIV p"
    using init_files_started [OF started_before all_source_files(1), of ?env example_log 7] all_source_files(2)
    by (auto simp: start_library_def)
  from started_all(1) [OF p(2)] obtain a b where s: "config_inv zcs_typing (pr_cfg p)" "vars_unlocked (pr_cfg p)"
    "cfg_datas (pr_cfg p) = [''logs'' \<mapsto> a, ''fiber.stacksize'' \<mapsto> b]" "cfg_vars (pr_cfg p) ! a = logs_var" by blast
  from document_configures_loggers [OF s(1,2) started_registered [OF p(2)] _ _ _ _ conjunct1 [OF example_document_members]
      conjunct2 [OF example_document_members] _ _ example_document_defines [folded tree_lib_fields(2)],
      of a "[]" 1 example_start_env] s(3,4) p(1)
  show ?thesis by (auto simp: logs_var_def new_ConfigVar_def tree_lib_def)
qed


end
