(* ===== verification/Util.thy ===== *)
theory Util
  imports Config_Facts
begin

text \<open>
  \<open>src/src/util.cpp\<close> and \<open>src/src/macro.h\<close>: stack traces and assertions. What \<open>backtrace\<close> and
  \<open>backtrace_symbols\<close> of the C library return is a parameter.
\<close>

section \<open>Stack traces\<close>

text \<open>
  \<open>ue_frames n\<close> is the number of frames \<open>backtrace\<close> finds for a buffer of \<open>n\<close> pointers and
  \<open>ue_symbols n\<close> the texts \<open>backtrace_symbols\<close> makes of \<open>n\<close> pointers, or \<open>None\<close> for the null
  pointer. \<open>ue_system\<close> is the static \<open>g_logger\<close> of a source file, the logger named ''system''.
\<close>

record util_env =
  ue_log :: log_env
  ue_system :: nat
  ue_frames :: "32 word \<Rightarrow> nat"
  ue_symbols :: "32 word \<Rightarrow> string list option"

definition Backtrace ::
  "util_env \<Rightarrow> string list \<Rightarrow> 32 word \<Rightarrow> 32 word \<Rightarrow> log_sys \<Rightarrow> (string list, log_sys) result"
where
  "Backtrace env bt sz skip l =
     (case ue_symbols env sz of
        None \<Rightarrow>
          and_then (ZCS_LEVEL (ue_log env) (ue_system env) ERROR 26 ''backtrace_symbols error'' l)
            (\<lambda>_ l1. Ok bt l1)
      | Some strings \<Rightarrow> Ok (bt @ map (\<lambda>i. strings ! i) [unat skip..<ue_frames env sz]) l)"

definition BacktraceToString ::
  "util_env \<Rightarrow> 32 word \<Rightarrow> 32 word \<Rightarrow> string \<Rightarrow> log_sys \<Rightarrow> (string, log_sys) result"
where
  "BacktraceToString env sz skip perfix l =
     and_then (Backtrace env [] sz skip l)
       (\<lambda>bt l1. Ok (concat (map (\<lambda>t. perfix @ t @ [CHR 0x0A]) bt)) l1)"

section \<open>Assertions\<close>

text \<open>
  The macros log to the root logger and call \<open>assert\<close>. \<open>x\<close> is the condition and \<open>text_x\<close> its
  source text.
\<close>

definition ZCS_ASSERT ::
  "util_env \<Rightarrow> 32 word \<Rightarrow> bool \<Rightarrow> string \<Rightarrow> log_sys \<Rightarrow> (unit, log_sys) result"
where
  "ZCS_ASSERT env line x text_x l =
     (if x then Ok () l
      else
        and_then (BacktraceToString env 100 2 ''    '' l) (\<lambda>trace l1.
        and_then (ZCS_LEVEL (ue_log env) (mgr_root l1) ERROR line
                    (''ASSERTION: '' @ text_x @ [CHR 0x0A] @ ''backtrace:'' @ [CHR 0x0A] @ trace) l1)
          (\<lambda>_ l2. Crash (AssertFailed text_x))))"

definition ZCS_ASSERT2 ::
  "util_env \<Rightarrow> 32 word \<Rightarrow> bool \<Rightarrow> string \<Rightarrow> string \<Rightarrow> log_sys \<Rightarrow> (unit, log_sys) result"
where
  "ZCS_ASSERT2 env line x text_x w l =
     (if x then Ok () l
      else
        and_then (BacktraceToString env 100 2 ''    '' l) (\<lambda>trace l1.
        and_then (ZCS_LEVEL (ue_log env) (mgr_root l1) ERROR line
                    (''ASSERTION: '' @ text_x @ [CHR 0x0A] @ w @ [CHR 0x0A] @ ''backtrace:'' @
                     [CHR 0x0A] @ trace) l1)
          (\<lambda>_ l2. Crash (AssertFailed text_x))))"

lemma ZCS_ASSERT_True [simp]:
  "ZCS_ASSERT env line True t l = Ok () l" "ZCS_ASSERT2 env line True t w l = Ok () l"
  by (simp_all add: ZCS_ASSERT_def ZCS_ASSERT2_def)

section \<open>With a working logging system\<close>

text \<open>The root logger has an appender and the logger of the source file is registered.\<close>

definition util_ready :: "util_env \<Rightarrow> log_sys \<Rightarrow> bool" where
  "util_ready env l \<longleftrightarrow>
     log_ready l \<and> map_find string_lt ''system'' (mgr_loggers l) = Some (ue_system env)"

lemma util_ready_frame: "log_frame l l' \<Longrightarrow> util_ready env l \<Longrightarrow> util_ready env l'"
  unfolding util_ready_def using log_ready_frame by (auto simp: log_frame_def)

lemma registered_log_returns:
  assumes "log_ready l" and reg: "map_find string_lt name (mgr_loggers l) = Some k"
  shows "\<exists>l'. ZCS_LEVEL lenv k lvl line msg l = Ok () l' \<and> log_frame l l'"
proof -
  have wf: "wf_sys l" and root: "lg_appenders (loggers l ! mgr_root l) \<noteq> []"
    using assms(1) by (simp_all add: log_ready_def)
  show ?thesis
    using ZCS_LEVEL_returns [OF wf wf_sys_registered(1) [OF wf reg]] effective_nonempty [OF wf reg] root
    by blast
qed

lemma system_log_returns:
  assumes "util_ready env l"
  shows "\<exists>l'. ZCS_LEVEL lenv (ue_system env) lvl line msg l = Ok () l' \<and> log_frame l l'"
  using assms unfolding util_ready_def by (elim conjE) (rule registered_log_returns)

lemma root_log_returns:
  assumes "log_ready l"
  shows "\<exists>l'. ZCS_LEVEL lenv (mgr_root l) lvl line msg l = Ok () l' \<and> log_frame l l'"
proof -
  have "wf_sys l" "mgr_root l < length (loggers l)" "effective_appenders l (mgr_root l) \<noteq> []"
    using assms by (auto simp: log_ready_def wf_sys_root effective_appenders_def)
  from ZCS_LEVEL_returns [OF this] show ?thesis .
qed

lemma BacktraceToString_returns:
  assumes "util_ready env l"
  obtains trace l' where "BacktraceToString env sz skip perfix l = Ok trace l'" and "log_frame l l'"
proof (cases "ue_symbols env sz")
  case None
  obtain l' where "ZCS_LEVEL (ue_log env) (ue_system env) ERROR 26 ''backtrace_symbols error'' l = Ok () l'"
    and "log_frame l l'" using system_log_returns [OF assms] by blast
  with None that show thesis by (simp add: BacktraceToString_def Backtrace_def)
next
  case (Some strings)
  with that show thesis by (simp add: BacktraceToString_def Backtrace_def)
qed

lemma ZCS_ASSERT_fails:
  assumes "util_ready env l"
  shows "ZCS_ASSERT env line False t l = Crash (AssertFailed t)"
    and "ZCS_ASSERT2 env line False t w l = Crash (AssertFailed t)"
proof -
  obtain trace l1 where tr: "BacktraceToString env 100 2 ''    '' l = Ok trace l1" and fr: "log_frame l l1"
    by (rule BacktraceToString_returns [OF assms])
  have ready: "log_ready l1" using util_ready_frame [OF fr assms] by (simp add: util_ready_def)
  have "\<exists>l2. ZCS_LEVEL (ue_log env) (mgr_root l1) ERROR line msg l1 = Ok () l2" for msg
    using root_log_returns [OF ready] by blast
  then have "and_then (ZCS_LEVEL (ue_log env) (mgr_root l1) ERROR line msg l1) (\<lambda>_ l2. Crash (AssertFailed t))
      = Crash (AssertFailed t)" for msg
    by (metis and_then.simps(1))
  with tr show "ZCS_ASSERT env line False t l = Crash (AssertFailed t)"
    and "ZCS_ASSERT2 env line False t w l = Crash (AssertFailed t)"
    by (simp_all add: ZCS_ASSERT_def ZCS_ASSERT2_def)
qed

text \<open>Whatever the logging system, a failed assertion never continues.\<close>

lemma ZCS_ASSERT_Ok:
  "ZCS_ASSERT env line x t l = Ok u l' \<longleftrightarrow> x \<and> l' = l"
  "ZCS_ASSERT2 env line x t w l = Ok u l' \<longleftrightarrow> x \<and> l' = l"
  by (auto simp: ZCS_ASSERT_def ZCS_ASSERT2_def and_then_Ok_iff)

end
