(* ===== verification/Fiber_System.thy ===== *)
theory Fiber_System
  imports Util
begin

text \<open>
  Fibers (\<open>src/src/fiber.h\<close>, \<open>src/src/fiber.cpp\<close>) as one thread sees them: a machine whose steps
  are the calls the running code makes. The code a client runs, in the thread itself or as the
  callback of a fiber, is a value of the type \<open>code\<close>; what an \<open>ucontext_t\<close> holds is the stack of
  the calls that were active when it was saved.
\<close>

section \<open>State\<close>

text \<open>\<open>Fiber::State\<close>; \<open>TERM\<close> alone is a word of Isabelle's own syntax.\<close>

datatype fiber_state = INIT | HOLD | EXEC | TERM_ST | READY | EXECPT

text \<open>
  Code of a client: it ends, throws, or makes one call of the interface and goes on. Fibers are
  named by their addresses, the order in which they were created. \<open>Get_this\<close> keeps the pointer
  it gets and \<open>Drop\<close> gives up one pointer to a fiber; \<open>std::function\<close> may be empty.
\<close>

datatype code = Finish | Throws exn | Do fiber_op code
and fiber_op =
    New_fiber "code option" "64 word"
  | Reset_fiber nat "code option"
  | Swap_in nat
  | Yield_to_hold
  | Yield_to_ready
  | Get_this
  | Drop nat

text \<open>
  Active calls: the code of the thread, \<open>MainFunc\<close> before it calls the callback of its fiber, in
  that callback (its local \<open>cur\<close> owns the fiber), and behind its last \<open>SwapOut\<close>; and a
  \<open>YieldToHold\<close> or \<open>YieldToReady\<close> whose local \<open>cur\<close> owns the fiber that yielded.
\<close>

datatype frame =
    Thread_code code
  | MainFunc_start
  | MainFunc_callback nat code
  | MainFunc_left
  | Yielded nat

text \<open>
  An \<open>ucontext_t\<close>: not filled, filled by \<open>makecontext\<close> to enter \<open>MainFunc\<close>, saved with the calls
  active then (the innermost first), or only of calls that have returned since: one that
  \<open>getcontext\<close> took in a constructor, or one that was resumed.
\<close>

datatype ctx = Stale | Entry | Saved "frame list"

record fiber =
  fb_id :: "64 word"
  fb_stacksize :: "32 word"
  fb_state :: fiber_state
  fb_ctx :: ctx
  fb_stack :: bool
  fb_cb :: "code option"
  fb_refs :: nat

text \<open>
  \<open>fb_refs\<close> is the use count of the shared pointers to the fiber; the object is destroyed when it
  falls to zero. \<open>fs_held\<close> lists the shared pointers client code holds.
\<close>

record fiber_sys =
  fs_fibers :: "fiber list"
  t_fiber :: "nat option"
  t_thread_fiber :: "nat option"
  s_fiber_id :: "64 word"
  s_fiber_count :: "64 word"
  fs_stacksize :: "32 word"
  fs_running :: "frame list"
  fs_held :: "nat list"
  fs_log :: log_sys

text \<open>
  Whether \<open>getcontext\<close> and \<open>swapcontext\<close> succeed, whether \<open>malloc\<close> gives a stack of a size, and
  how many bytes of stack the code of a fiber needs.
\<close>

record fiber_env =
  fe_util :: util_env
  fe_context_ok :: bool
  fe_malloc_ok :: "32 word \<Rightarrow> bool"
  fe_stack_need :: "32 word"

definition Fiber_GetId :: "nat \<Rightarrow> fiber_sys \<Rightarrow> 64 word" where
  "Fiber_GetId f s = fb_id (fs_fibers s ! f)"

definition Fiber_GetState :: "nat \<Rightarrow> fiber_sys \<Rightarrow> fiber_state" where
  "Fiber_GetState f s = fb_state (fs_fibers s ! f)"

definition update_fiber :: "nat \<Rightarrow> (fiber \<Rightarrow> fiber) \<Rightarrow> fiber_sys \<Rightarrow> fiber_sys" where
  "update_fiber f g s = s\<lparr>fs_fibers := (fs_fibers s)[f := g (fs_fibers s ! f)]\<rparr>"

definition live :: "fiber_sys \<Rightarrow> nat \<Rightarrow> bool" where
  "live s f \<longleftrightarrow> f < length (fs_fibers s) \<and> 0 < fb_refs (fs_fibers s ! f)"

definition TotalFibers :: "fiber_sys \<Rightarrow> 64 word" where
  "TotalFibers s = s_fiber_count s"

definition Fiber_GetFiberId :: "fiber_sys \<Rightarrow> 64 word" where
  "Fiber_GetFiberId s = (case t_fiber s of None \<Rightarrow> 0 | Some f \<Rightarrow> fb_id (fs_fibers s ! f))"

text \<open>\<open>GetFiberId\<close> of \<open>util.cpp\<close>, which the logging macros record, is a \<open>pid_t\<close>.\<close>

definition GetFiberId :: "fiber_sys \<Rightarrow> 32 word" where
  "GetFiberId s = ucast (Fiber_GetFiberId s)"

definition fiber_util :: "fiber_env \<Rightarrow> fiber_sys \<Rightarrow> util_env" where
  "fiber_util env s =
     (fe_util env)\<lparr>ue_log := (ue_log (fe_util env))\<lparr>env_fiber_id := GetFiberId s\<rparr>\<rparr>"

fun on_fs_log :: "(log_sys \<Rightarrow> ('a, log_sys) result) \<Rightarrow> fiber_sys \<Rightarrow> ('a, fiber_sys) result" where
  "on_fs_log g s =
     (case g (fs_log s) of
        Ok a l \<Rightarrow> Ok a (s\<lparr>fs_log := l\<rparr>)
      | Throw e l \<Rightarrow> Throw e (s\<lparr>fs_log := l\<rparr>)
      | Crash c \<Rightarrow> Crash c)"

definition fs_assert ::
  "fiber_env \<Rightarrow> 32 word \<Rightarrow> bool \<Rightarrow> string \<Rightarrow> fiber_sys \<Rightarrow> (unit, fiber_sys) result"
where
  "fs_assert env line x t s = on_fs_log (ZCS_ASSERT (fiber_util env s) line x t) s"

definition fs_assert2 ::
  "fiber_env \<Rightarrow> 32 word \<Rightarrow> bool \<Rightarrow> string \<Rightarrow> string \<Rightarrow> fiber_sys \<Rightarrow> (unit, fiber_sys) result"
where
  "fs_assert2 env line x t w s = on_fs_log (ZCS_ASSERT2 (fiber_util env s) line x t w) s"

section \<open>Construction and destruction\<close>

definition SetThis :: "nat option \<Rightarrow> fiber_sys \<Rightarrow> fiber_sys" where
  "SetThis f s = s\<lparr>t_fiber := f\<rparr>"

text \<open>\<open>Fiber()\<close>, the fiber of the thread itself.\<close>

definition new_main_Fiber :: "fiber_env \<Rightarrow> fiber_sys \<Rightarrow> (nat, fiber_sys) result" where
  "new_main_Fiber env s =
     (let f = length (fs_fibers s);
          s1 = s\<lparr>fs_fibers := fs_fibers s @
                 [\<lparr>fb_id = 0, fb_stacksize = 0, fb_state = EXEC, fb_ctx = Stale, fb_stack = False,
                   fb_cb = None, fb_refs = 1\<rparr>]\<rparr>
      in and_then (fs_assert2 env 39 (fe_context_ok env) ''false'' ''getcontext error'' (SetThis (Some f) s1))
           (\<lambda>_ s2. Ok f (s2\<lparr>s_fiber_count := s_fiber_count s2 + 1\<rparr>)))"

text \<open>\<open>MallocStackAllocator::Alloc\<close>: whether there is a stack.\<close>

abbreviation MallocStackAllocator_Alloc :: "fiber_env \<Rightarrow> 32 word \<Rightarrow> bool" where
  "MallocStackAllocator_Alloc env sz \<equiv> fe_malloc_ok env sz"

text \<open>\<open>Fiber(cb, stacksize)\<close>: the size is a \<open>size_t\<close>, its copy \<open>stacksize_\<close> has 32 bits.\<close>

definition new_Fiber ::
  "fiber_env \<Rightarrow> code option \<Rightarrow> 64 word \<Rightarrow> fiber_sys \<Rightarrow> (nat, fiber_sys) result"
where
  "new_Fiber env cb stacksize s =
     (let f = length (fs_fibers s);
          fid = s_fiber_id s + 1;
          sz = (if stacksize \<noteq> 0 then ucast stacksize else fs_stacksize s);
          s1 = s\<lparr>s_fiber_id := fid, s_fiber_count := s_fiber_count s + 1\<rparr>
      in and_then (fs_assert2 env 53 (fe_context_ok env) ''false'' ''getcontext error'' s1)
           (\<lambda>_ s2. Ok f (s2\<lparr>fs_fibers := fs_fibers s2 @
                 [\<lparr>fb_id = fid, fb_stacksize = sz, fb_state = INIT, fb_ctx = Entry,
                   fb_stack = MallocStackAllocator_Alloc env sz, fb_cb = cb, fb_refs = 1\<rparr>]\<rparr>)))"

definition destroy_Fiber :: "fiber_env \<Rightarrow> nat \<Rightarrow> fiber_sys \<Rightarrow> (unit, fiber_sys) result" where
  "destroy_Fiber env f s =
     (let fb = fs_fibers s ! f;
          s1 = s\<lparr>s_fiber_count := s_fiber_count s - 1\<rparr>
      in if fb_stack fb then
           and_then (fs_assert env 67 (fb_state fb = INIT \<or> fb_state fb = TERM_ST \<or> fb_state fb = EXECPT)
                       ''state_ == INIT || state_ == TERM || state_ == EXECPT'' s1)
             (\<lambda>_ s2. Ok () (update_fiber f (\<lambda>fb. fb\<lparr>fb_ctx := Stale\<rparr>) s2))
         else
           and_then (fs_assert env 70 (fb_cb fb = None) ''!cb_'' s1) (\<lambda>_ s2.
           and_then (fs_assert env 71 (fb_state fb = EXEC) ''state_ == EXEC'' s2) (\<lambda>_ s3.
             Ok () (update_fiber f (\<lambda>fb. fb\<lparr>fb_ctx := Stale\<rparr>)
               (if t_fiber s3 = Some f then SetThis None s3 else s3)))))"

text \<open>Copies and ends of shared pointers.\<close>

definition retain :: "nat \<Rightarrow> fiber_sys \<Rightarrow> fiber_sys" where
  "retain f s = update_fiber f (\<lambda>fb. fb\<lparr>fb_refs := Suc (fb_refs fb)\<rparr>) s"

definition release :: "fiber_env \<Rightarrow> nat \<Rightarrow> fiber_sys \<Rightarrow> (unit, fiber_sys) result" where
  "release env f s =
     (if \<not> live s f then Crash (UndefinedBehaviour ''use after free'')
      else
        let s1 = update_fiber f (\<lambda>fb. fb\<lparr>fb_refs := fb_refs fb - 1\<rparr>) s
        in if fb_refs (fs_fibers s ! f) = 1 then destroy_Fiber env f s1 else Ok () s1)"

definition Fiber_Reset ::
  "fiber_env \<Rightarrow> nat \<Rightarrow> code option \<Rightarrow> fiber_sys \<Rightarrow> (unit, fiber_sys) result"
where
  "Fiber_Reset env f cb s =
     (if \<not> live s f then Crash (UndefinedBehaviour ''use after free'')
      else
        let fb = fs_fibers s ! f
        in and_then (fs_assert env 82 (fb_stack fb) ''stack_'' s) (\<lambda>_ s1.
           and_then (fs_assert env 83 (fb_state fb = INIT \<or> fb_state fb = TERM_ST \<or> fb_state fb = EXECPT)
                       ''state_ == INIT || state_ == TERM || state_ == EXECPT'' s1) (\<lambda>_ s2.
           and_then (fs_assert2 env 87 (fe_context_ok env) ''false'' ''getcontext error'' s2) (\<lambda>_ s3.
             Ok () (update_fiber f (\<lambda>fb. fb\<lparr>fb_cb := cb, fb_ctx := Entry, fb_state := INIT\<rparr>) s3)))))"

section \<open>Switching\<close>

text \<open>
  \<open>swapcontext\<close> saves the active calls in one context and resumes another, which after that is
  only good to be saved again. A context is entered on the stack of its fiber.
\<close>

definition swapcontext ::
  "fiber_env \<Rightarrow> nat \<Rightarrow> nat \<Rightarrow> fiber_sys \<Rightarrow> (unit, fiber_sys) result"
where
  "swapcontext env from to s =
     (let s1 = update_fiber from (\<lambda>fb. fb\<lparr>fb_ctx := Saved (fs_running s)\<rparr>) s;
          s2 = update_fiber to (\<lambda>fb. fb\<lparr>fb_ctx := Stale\<rparr>) s1
      in case fb_ctx (fs_fibers s1 ! to) of
           Stale \<Rightarrow> Crash (UndefinedBehaviour ''context of a call that has returned'')
         | Entry \<Rightarrow>
             if \<not> fb_stack (fs_fibers s1 ! to) then Crash (UndefinedBehaviour ''no stack'')
             else if fb_stacksize (fs_fibers s1 ! to) < fe_stack_need env then Crash StackOverflow
             else Ok () (s2\<lparr>fs_running := [MainFunc_start]\<rparr>)
         | Saved frs \<Rightarrow> Ok () (s2\<lparr>fs_running := frs\<rparr>))"

definition Fiber_SwapIn :: "fiber_env \<Rightarrow> nat \<Rightarrow> fiber_sys \<Rightarrow> (unit, fiber_sys) result" where
  "Fiber_SwapIn env f s =
     (if \<not> live s f then Crash (UndefinedBehaviour ''use after free'')
      else
        and_then (fs_assert env 100 (fb_state (fs_fibers s ! f) \<noteq> EXEC) ''state_ != EXEC''
                   (SetThis (Some f) s)) (\<lambda>_ s1.
        let s2 = update_fiber f (\<lambda>fb. fb\<lparr>fb_state := EXEC\<rparr>) s1
        in case t_thread_fiber s2 of
             None \<Rightarrow> Crash NullDeref
           | Some m \<Rightarrow>
               and_then (fs_assert2 env 103 (fe_context_ok env) ''false'' ''swapcontext error'' s2)
                 (\<lambda>_ s3. swapcontext env m f s3)))"

definition Fiber_SwapOut :: "fiber_env \<Rightarrow> nat \<Rightarrow> fiber_sys \<Rightarrow> (unit, fiber_sys) result" where
  "Fiber_SwapOut env f s =
     (if \<not> live s f then Crash (UndefinedBehaviour ''use after free'')
      else
        let s1 = SetThis (t_thread_fiber s) s
        in case t_thread_fiber s1 of
             None \<Rightarrow> Crash NullDeref
           | Some m \<Rightarrow>
               and_then (fs_assert2 env 110 (fe_context_ok env) ''false'' ''swapcontext error'' s1)
                 (\<lambda>_ s2. swapcontext env f m s2))"

text \<open>
  \<open>GetThis\<close>: the caller owns the pointer returned. The first call in a thread creates the fiber
  of the thread, which \<open>t_thread_fiber\<close> owns from then on.
\<close>

definition Fiber_GetThis :: "fiber_env \<Rightarrow> fiber_sys \<Rightarrow> (nat, fiber_sys) result" where
  "Fiber_GetThis env s =
     (case t_fiber s of
        Some f \<Rightarrow>
          if live s f then Ok f (retain f s) else Crash (UndefinedBehaviour ''use after free'')
      | None \<Rightarrow>
          and_then (new_main_Fiber env s) (\<lambda>main_fiber s1.
          and_then (fs_assert env 122 (t_fiber s1 = Some main_fiber) ''t_fiber == main_fiber.get()'' s1)
            (\<lambda>_ s2.
          and_then (case t_thread_fiber s2 of None \<Rightarrow> Ok () s2 | Some m \<Rightarrow> release env m s2)
            (\<lambda>_ s3. Ok main_fiber (retain main_fiber (s3\<lparr>t_thread_fiber := Some main_fiber\<rparr>))))))"

text \<open>\<open>YieldToHold\<close> and \<open>YieldToReady\<close> differ in the state they set.\<close>

definition yield_to ::
  "fiber_env \<Rightarrow> 32 word \<Rightarrow> fiber_state \<Rightarrow> fiber_sys \<Rightarrow> (unit, fiber_sys) result"
where
  "yield_to env line st s =
     and_then (Fiber_GetThis env s) (\<lambda>cur s1.
     and_then (fs_assert env line (fb_state (fs_fibers s1 ! cur) = EXEC) ''cur->state_ == EXEC'' s1)
       (\<lambda>_ s2.
         let s3 = update_fiber cur (\<lambda>fb. fb\<lparr>fb_state := st\<rparr>) s2
         in Fiber_SwapOut env cur (s3\<lparr>fs_running := Yielded cur # fs_running s3\<rparr>)))"

definition YieldToHold :: "fiber_env \<Rightarrow> fiber_sys \<Rightarrow> (unit, fiber_sys) result" where
  "YieldToHold env s = yield_to env 133 HOLD s"

definition YieldToReady :: "fiber_env \<Rightarrow> fiber_sys \<Rightarrow> (unit, fiber_sys) result" where
  "YieldToReady env s = yield_to env 141 READY s"

section \<open>\<open>MainFunc\<close>\<close>

text \<open>
  The end of \<open>MainFunc\<close>: \<open>cur\<close> gives up the fiber, which a raw pointer still names, and the fiber
  is left for good.
\<close>

definition MainFunc_end :: "fiber_env \<Rightarrow> nat \<Rightarrow> fiber_sys \<Rightarrow> (unit, fiber_sys) result" where
  "MainFunc_end env cur s =
     and_then (release env cur s)
       (\<lambda>_ s1. Fiber_SwapOut env cur (s1\<lparr>fs_running := MainFunc_left # fs_running s1\<rparr>))"

definition MainFunc_return :: "fiber_env \<Rightarrow> nat \<Rightarrow> fiber_sys \<Rightarrow> (unit, fiber_sys) result" where
  "MainFunc_return env cur s =
     MainFunc_end env cur (update_fiber cur (\<lambda>fb. fb\<lparr>fb_state := TERM_ST\<rparr>) s)"

text \<open>The two handlers; what is thrown decides.\<close>

definition MainFunc_catch :: "fiber_env \<Rightarrow> nat \<Rightarrow> exn \<Rightarrow> fiber_sys \<Rightarrow> (unit, fiber_sys) result" where
  "MainFunc_catch env cur ex s =
     (let s1 = (if is_std_exception ex then s
                else update_fiber cur (\<lambda>fb. fb\<lparr>fb_state := EXECPT\<rparr>) s);
          text_ex = (if is_std_exception ex then what ex else []);
          fid = dec_nat (unat (fb_id (fs_fibers s1 ! cur)))
      in and_then (on_fs_log (BacktraceToString (fiber_util env s1) 64 2 []) s1) (\<lambda>trace s2.
         and_then (on_fs_log (ZCS_LEVEL (ue_log (fiber_util env s2)) (ue_system (fe_util env)) ERROR
                     (if is_std_exception ex then 165 else 171)
                     (''Fiber exception: '' @ text_ex @ '' fiber id= '' @ fid @ [CHR 0x0A] @ trace)) s2)
           (\<lambda>_ s3. MainFunc_end env cur s3)))"

text \<open>The first part: an empty \<open>cb_\<close> throws when it is called.\<close>

definition MainFunc_begin :: "fiber_env \<Rightarrow> fiber_sys \<Rightarrow> (unit, fiber_sys) result" where
  "MainFunc_begin env s =
     and_then (Fiber_GetThis env s) (\<lambda>cur s1.
       let frs = tl (fs_running s1)
       in case fb_cb (fs_fibers s1 ! cur) of
            None \<Rightarrow> MainFunc_catch env cur BadFunctionCall (s1\<lparr>fs_running := frs\<rparr>)
          | Some c \<Rightarrow> Ok () (s1\<lparr>fs_running := MainFunc_callback cur c # frs\<rparr>))"

section \<open>The machine\<close>

text \<open>One call of a client; \<open>fs_running\<close> already is what goes on after it.\<close>

fun fiber_call :: "fiber_env \<Rightarrow> fiber_op \<Rightarrow> fiber_sys \<Rightarrow> (unit, fiber_sys) result" where
  "fiber_call env (New_fiber cb stacksize) s =
     and_then (new_Fiber env cb stacksize s) (\<lambda>f s1. Ok () (s1\<lparr>fs_held := fs_held s1 @ [f]\<rparr>))"
| "fiber_call env (Reset_fiber f cb) s = Fiber_Reset env f cb s"
| "fiber_call env (Swap_in f) s = Fiber_SwapIn env f s"
| "fiber_call env Yield_to_hold s = YieldToHold env s"
| "fiber_call env Yield_to_ready s = YieldToReady env s"
| "fiber_call env Get_this s =
     and_then (Fiber_GetThis env s) (\<lambda>f s1. Ok () (s1\<lparr>fs_held := fs_held s1 @ [f]\<rparr>))"
| "fiber_call env (Drop f) s =
     (if f \<in> set (fs_held s)
      then release env f (s\<lparr>fs_held := erase_first f (fs_held s)\<rparr>)
      else Crash (UndefinedBehaviour ''pointer given up twice''))"

text \<open>The end of the thread destroys its \<open>t_thread_fiber\<close>.\<close>

definition thread_exit :: "fiber_env \<Rightarrow> fiber_sys \<Rightarrow> (unit, fiber_sys) result" where
  "thread_exit env s =
     (let s1 = s\<lparr>fs_running := []\<rparr>
      in case t_thread_fiber s1 of
           None \<Rightarrow> Ok () s1
         | Some m \<Rightarrow> release env m (s1\<lparr>t_thread_fiber := None\<rparr>))"

text \<open>
  One step of the thread. It stays where it is once nothing is active any more; an exception of
  the code of the thread leaves the thread function.
\<close>

fun fiber_step :: "fiber_env \<Rightarrow> fiber_sys \<Rightarrow> (unit, fiber_sys) result" where
  "fiber_step env s =
     (case fs_running s of
        [] \<Rightarrow> Ok () s
      | fr # frs \<Rightarrow>
          (case fr of
             Thread_code c \<Rightarrow>
               (case c of
                  Finish \<Rightarrow> thread_exit env s
                | Throws ex \<Rightarrow> Throw ex s
                | Do call c' \<Rightarrow> fiber_call env call (s\<lparr>fs_running := Thread_code c' # frs\<rparr>))
           | MainFunc_start \<Rightarrow> MainFunc_begin env s
           | MainFunc_callback f c \<Rightarrow>
               (case c of
                  Finish \<Rightarrow> MainFunc_return env f (s\<lparr>fs_running := frs\<rparr>)
                | Throws ex \<Rightarrow> MainFunc_catch env f ex (s\<lparr>fs_running := frs\<rparr>)
                | Do call c' \<Rightarrow>
                    fiber_call env call (s\<lparr>fs_running := MainFunc_callback f c' # frs\<rparr>))
           | MainFunc_left \<Rightarrow>
               and_then (fs_assert2 env 182 False ''false'' ''never reach!'' s) (\<lambda>_ s1. Ok () s1)
           | Yielded f \<Rightarrow> release env f (s\<lparr>fs_running := frs\<rparr>)))"

declare fiber_step.simps [simp del]

fun fiber_run :: "nat \<Rightarrow> fiber_env \<Rightarrow> fiber_sys \<Rightarrow> (unit, fiber_sys) result" where
  "fiber_run 0 env s = Ok () s"
| "fiber_run (Suc n) env s = and_then (fiber_step env s) (\<lambda>_. fiber_run n env)"

text \<open>The states a thread goes through.\<close>

inductive fiber_reach :: "fiber_env \<Rightarrow> fiber_sys \<Rightarrow> fiber_sys \<Rightarrow> bool" for env s where
  reach_start: "fiber_reach env s s"
| reach_step: "fiber_reach env s t \<Longrightarrow> fiber_step env t = Ok () u \<Longrightarrow> fiber_reach env s u"

text \<open>A thread before it runs its first line.\<close>

definition fiber_start :: "code \<Rightarrow> 32 word \<Rightarrow> log_sys \<Rightarrow> fiber_sys" where
  "fiber_start c stacksize l =
     \<lparr>fs_fibers = [], t_fiber = None, t_thread_fiber = None, s_fiber_id = 0, s_fiber_count = 0,
      fs_stacksize = stacksize, fs_running = [Thread_code c], fs_held = [], fs_log = l\<rparr>"

end
