(* ===== verification/Fiber_Facts.thy ===== *)
theory Fiber_Facts
  imports Fiber_System
begin

text \<open>
  What every step of a thread keeps true of its fibers: the use counts cover the pointers that
  exist, the counter counts the objects, the current fiber exists, and contexts hold complete
  stacks of calls.
\<close>

named_theorems fiber_simps "projections of updated fiber systems"

section \<open>Evaluation\<close>

lemma update_fiber_simps [fiber_simps]:
  "t_fiber (update_fiber f g s) = t_fiber s"
  "t_thread_fiber (update_fiber f g s) = t_thread_fiber s"
  "s_fiber_id (update_fiber f g s) = s_fiber_id s"
  "s_fiber_count (update_fiber f g s) = s_fiber_count s"
  "fs_stacksize (update_fiber f g s) = fs_stacksize s"
  "fs_running (update_fiber f g s) = fs_running s"
  "fs_held (update_fiber f g s) = fs_held s"
  "fs_log (update_fiber f g s) = fs_log s"
  "length (fs_fibers (update_fiber f g s)) = length (fs_fibers s)"
  by (simp_all add: update_fiber_def)

lemma nth_update_fiber [fiber_simps]:
  "f < length (fs_fibers s) \<Longrightarrow> fs_fibers (update_fiber f g s) ! h =
    (if h = f then g (fs_fibers s ! f) else fs_fibers s ! h)"
  by (simp add: update_fiber_def nth_list_update)

lemma SetThis_simps [fiber_simps]:
  "t_fiber (SetThis f s) = f" "fs_fibers (SetThis f s) = fs_fibers s"
  "t_thread_fiber (SetThis f s) = t_thread_fiber s" "s_fiber_count (SetThis f s) = s_fiber_count s"
  "fs_running (SetThis f s) = fs_running s" "fs_held (SetThis f s) = fs_held s"
  "s_fiber_id (SetThis f s) = s_fiber_id s" "fs_log (SetThis f s) = fs_log s"
  "fs_stacksize (SetThis f s) = fs_stacksize s"
  by (simp_all add: SetThis_def)

lemma fs_assert_True [simp]:
  "fs_assert env line True t s = Ok () s" "fs_assert2 env line True t w s = Ok () s"
  by (simp_all add: fs_assert_def fs_assert2_def)

lemma fs_assert_Ok:
  "fs_assert env line x t s = Ok u s' \<longleftrightarrow> x \<and> s' = s"
  "fs_assert2 env line x t w s = Ok u s' \<longleftrightarrow> x \<and> s' = s"
  unfolding fs_assert_def fs_assert2_def
  by (cases x; auto simp: ZCS_ASSERT_Ok split: result.splits)+

definition fiber_ready :: "fiber_env \<Rightarrow> fiber_sys \<Rightarrow> bool" where
  "fiber_ready env s \<longleftrightarrow> util_ready (fe_util env) (fs_log s)"

lemma fs_assert_fails:
  assumes "fiber_ready env s"
  shows "fs_assert env line False t s = Crash (AssertFailed t)"
    and "fs_assert2 env line False t w s = Crash (AssertFailed t)"
  using assms
  by (simp_all add: fs_assert_def fs_assert2_def fiber_ready_def ZCS_ASSERT_fails util_ready_def
      fiber_util_def)

section \<open>Owners\<close>

text \<open>How often a call, a context or the whole system holds a shared pointer to the fiber \<open>f\<close>.\<close>

fun frame_owns :: "nat \<Rightarrow> frame \<Rightarrow> nat" where
  "frame_owns f (MainFunc_callback g c) = (if g = f then 1 else 0)"
| "frame_owns f (Yielded g) = (if g = f then 1 else 0)"
| "frame_owns f _ = 0"

definition frames_own :: "nat \<Rightarrow> frame list \<Rightarrow> nat" where
  "frames_own f frs = sum_list (map (frame_owns f) frs)"

fun ctx_owns :: "nat \<Rightarrow> ctx \<Rightarrow> nat" where
  "ctx_owns f (Saved frs) = frames_own f frs"
| "ctx_owns f _ = 0"

definition ctxs_own :: "nat \<Rightarrow> fiber list \<Rightarrow> nat" where
  "ctxs_own f fbs = sum_list (map (\<lambda>fb. ctx_owns f (fb_ctx fb)) fbs)"

definition owners :: "fiber_sys \<Rightarrow> nat \<Rightarrow> nat" where
  "owners s f = count_list (fs_held s) f + (if t_thread_fiber s = Some f then 1 else 0) +
     frames_own f (fs_running s) + ctxs_own f (fs_fibers s)"

definition use_count :: "fiber_sys \<Rightarrow> nat \<Rightarrow> nat" where
  "use_count s f = (if f < length (fs_fibers s) then fb_refs (fs_fibers s ! f) else 0)"

text \<open>\<open>ps\<close> are the pointers that locals of the call in progress hold.\<close>

definition own_inv :: "nat list \<Rightarrow> fiber_sys \<Rightarrow> bool" where
  "own_inv ps s \<longleftrightarrow>
     (\<forall>f. count_list ps f + owners s f \<le> use_count s f) \<and>
     s_fiber_count s = of_nat (length (filter (\<lambda>fb. 0 < fb_refs fb) (fs_fibers s)))"

lemma live_use_count: "live s f \<longleftrightarrow> 0 < use_count s f"
  by (simp add: live_def use_count_def)

lemma frames_own_simps [simp]:
  "frames_own f [] = 0" "frames_own f (fr # frs) = frame_owns f fr + frames_own f frs"
  by (simp_all add: frames_own_def)

lemma ctxs_own_update:
  "g < length fbs \<Longrightarrow>
    ctxs_own f (fbs[g := fb]) + ctx_owns f (fb_ctx (fbs ! g)) = ctxs_own f fbs + ctx_owns f (fb_ctx fb)"
proof (induction fbs arbitrary: g)
  case Nil
  then show ?case by simp
next
  case (Cons b fbs)
  then show ?case by (cases g) (force simp: ctxs_own_def)+
qed

lemma ctxs_own_update_same:
  assumes "fb_ctx fb = fb_ctx (fbs ! g)"
  shows "ctxs_own f (fbs[g := fb]) = ctxs_own f fbs"
proof (cases "g < length fbs")
  case True
  with ctxs_own_update [OF this, of f fb] assms show ?thesis by simp
qed (simp add: list_update_beyond)

lemma ctxs_own_append: "ctxs_own f (fbs @ [fb]) = ctxs_own f fbs + ctx_owns f (fb_ctx fb)"
  by (simp add: ctxs_own_def)

lemma ctx_owns_le: "g < length fbs \<Longrightarrow> ctx_owns f (fb_ctx (fbs ! g)) \<le> ctxs_own f fbs"
  unfolding ctxs_own_def by (rule member_le_sum_list) auto

lemma live_count_update:
  "g < length fbs \<Longrightarrow>
    length (filter P (fbs[g := fb])) + (if P (fbs ! g) then 1 else 0) =
    length (filter P fbs) + (if P fb then 1 else 0)"
proof (induction fbs arbitrary: g)
  case Nil
  then show ?case by simp
next
  case (Cons b fbs)
  then show ?case by (cases g) force+
qed

lemma own_inv_cong:
  assumes "fs_fibers s' = fs_fibers s" "fs_held s' = fs_held s" "t_thread_fiber s' = t_thread_fiber s"
    "fs_running s' = fs_running s" "s_fiber_count s' = s_fiber_count s"
  shows "own_inv ps s' = own_inv ps s"
  using assms by (simp add: own_inv_def owners_def use_count_def)

lemma own_inv_SetThis [simp]: "own_inv ps (SetThis f s) = own_inv ps s"
  by (rule own_inv_cong) (simp_all add: fiber_simps)

lemma own_inv_log [simp]: "own_inv ps (s\<lparr>fs_log := l\<rparr>) = own_inv ps s"
  by (rule own_inv_cong) simp_all

lemma own_inv_live: "own_inv (f # ps) s \<Longrightarrow> live s f"
  unfolding own_inv_def live_use_count by (metis add_gr_0 count_list.simps(2) less_le_trans zero_less_one)

lemma owners_update_fiber:
  assumes "\<And>fb. fb_ctx (g fb) = fb_ctx fb"
  shows "owners (update_fiber f g s) h = owners s h"
  using assms by (simp add: owners_def update_fiber_def ctxs_own_update_same)

lemma own_inv_update_fiber [simp]:
  assumes "\<And>fb. fb_ctx (g fb) = fb_ctx fb" and "\<And>fb. fb_refs (g fb) = fb_refs fb"
  shows "own_inv ps (update_fiber f g s) = own_inv ps s"
proof -
  have "length (filter P ((fs_fibers s)[f := g (fs_fibers s ! f)])) = length (filter P (fs_fibers s))"
    if "\<And>fb. P (g fb) = P fb" for P
    using live_count_update [of f "fs_fibers s" P "g (fs_fibers s ! f)"] that
    by (cases "f < length (fs_fibers s)") (simp_all add: list_update_beyond split: if_splits)
  moreover have "use_count (update_fiber f g s) h = use_count s h" for h
    using assms(2) by (cases "h = f") (simp_all add: use_count_def update_fiber_def)
  ultimately show ?thesis
    using owners_update_fiber [OF assms(1)] assms(2)
    by (simp add: own_inv_def update_fiber_def)
qed
lemma use_count_live: "0 < use_count s f \<Longrightarrow> f < length (fs_fibers s)"
  by (simp add: use_count_def split: if_splits)

lemma own_inv_retain:
  assumes "live s f" and "own_inv ps s"
  shows "own_inv (f # ps) (retain f s)"
proof -
  let ?fb = "(fs_fibers s ! f)\<lparr>fb_refs := Suc (fb_refs (fs_fibers s ! f))\<rparr>"
  have f: "f < length (fs_fibers s)" and pos: "0 < fb_refs (fs_fibers s ! f)"
    using assms(1) by (simp_all add: live_def)
  have "owners (retain f s) h = owners s h" for h
    unfolding retain_def by (rule owners_update_fiber) simp
  moreover have "use_count (retain f s) h = (if h = f then 1 else 0) + use_count s h" for h
    using f by (simp add: use_count_def retain_def fiber_simps)
  moreover have "length (filter (\<lambda>fb. 0 < fb_refs fb) (fs_fibers (retain f s))) =
      length (filter (\<lambda>fb. 0 < fb_refs fb) (fs_fibers s))"
    using live_count_update [OF f, of "\<lambda>fb. 0 < fb_refs fb" ?fb] pos
    by (simp add: retain_def update_fiber_def)
  moreover have "s_fiber_count (retain f s) = s_fiber_count s"
    by (simp add: retain_def fiber_simps)
  ultimately show ?thesis
    using assms(2) by (simp add: own_inv_def)
qed

text \<open>Giving up a pointer that is held never meets a destroyed fiber.\<close>

lemma release_cases:
  assumes "own_inv (f # ps) s"
  obtains (kept) "release env f s = Ok () (update_fiber f (\<lambda>fb. fb\<lparr>fb_refs := fb_refs fb - 1\<rparr>) s)"
      "1 < use_count s f"
    | (destroyed) "release env f s =
        destroy_Fiber env f (update_fiber f (\<lambda>fb. fb\<lparr>fb_refs := fb_refs fb - 1\<rparr>) s)"
      "use_count s f = 1"
proof -
  have live: "live s f" using assms by (rule own_inv_live)
  show thesis
  proof (cases "use_count s f = 1")
    case True
    with live destroyed show ?thesis
      by (simp add: release_def live_def use_count_def)
  next
    case False
    with live kept show ?thesis
      by (simp add: release_def live_def use_count_def Let_def)
  qed
qed

lemma destroy_Ok:
  assumes "destroy_Fiber env f s = Ok u s'"
  obtains s1 where "s' = update_fiber f (\<lambda>fb. fb\<lparr>fb_ctx := Stale\<rparr>) s1"
    and "s1 = s\<lparr>s_fiber_count := s_fiber_count s - 1\<rparr> \<or>
      t_fiber s = Some f \<and> s1 = s\<lparr>s_fiber_count := s_fiber_count s - 1, t_fiber := None\<rparr>"
  using assms
  by (auto simp: destroy_Fiber_def Let_def and_then_Ok_iff fs_assert_Ok SetThis_def split: if_splits)

lemma own_inv_destroyed:
  assumes le: "\<And>h. count_list ps h + owners s h \<le> use_count s h"
    and count: "s_fiber_count s = of_nat (Suc (length (filter (\<lambda>fb. 0 < fb_refs fb) (fs_fibers s))))"
    and f: "f < length (fs_fibers s)" and "destroy_Fiber env f s = Ok u s'"
  shows "own_inv ps s'"
proof -
  obtain s1 where s': "s' = update_fiber f (\<lambda>fb. fb\<lparr>fb_ctx := Stale\<rparr>) s1"
    and s1: "s1 = s\<lparr>s_fiber_count := s_fiber_count s - 1\<rparr> \<or>
      t_fiber s = Some f \<and> s1 = s\<lparr>s_fiber_count := s_fiber_count s - 1, t_fiber := None\<rparr>"
    using assms(4) by (rule destroy_Ok)
  have fibers: "fs_fibers s1 = fs_fibers s" and own1: "owners s1 h = owners s h"
    and count1: "s_fiber_count s1 = of_nat (length (filter (\<lambda>fb. 0 < fb_refs fb) (fs_fibers s)))" for h
    using s1 count by (auto simp: owners_def)
  have "owners s' h \<le> owners s1 h" for h
    using ctxs_own_update [of f "fs_fibers s" h "(fs_fibers s ! f)\<lparr>fb_ctx := Stale\<rparr>"] f
    by (simp add: s' owners_def fiber_simps) (simp add: update_fiber_def fibers)
  moreover have "use_count s' h = use_count s h" for h
    using f by (simp add: s' use_count_def fiber_simps fibers)
  moreover have "length (filter (\<lambda>fb. 0 < fb_refs fb) (fs_fibers s')) =
      length (filter (\<lambda>fb. 0 < fb_refs fb) (fs_fibers s))"
    using live_count_update [OF f, of "\<lambda>fb. 0 < fb_refs fb" "(fs_fibers s ! f)\<lparr>fb_ctx := Stale\<rparr>"]
    by (simp add: s' update_fiber_def fibers)
  ultimately show ?thesis
    using le unfolding own_inv_def own1 count1
    by (metis (no_types, lifting) add_left_mono count1 order_trans own1 s' update_fiber_simps(4))
qed

lemma own_inv_release:
  assumes inv: "own_inv (f # ps) s" and rel: "release env f s = Ok u s'"
  shows "own_inv ps s'"
proof -
  define s1 where "s1 = update_fiber f (\<lambda>fb. fb\<lparr>fb_refs := fb_refs fb - 1\<rparr>) s"
  let ?alive = "\<lambda>s. length (filter (\<lambda>fb. 0 < fb_refs fb) (fs_fibers s))"
  have f: "f < length (fs_fibers s)"
    using own_inv_live [OF inv] by (simp add: live_def)
  have own1: "owners s1 h = owners s h" for h
    unfolding s1_def by (rule owners_update_fiber) simp
  have uc1: "use_count s1 h = use_count s h - (if h = f then 1 else 0)" for h
    using f by (simp add: s1_def use_count_def fiber_simps)
  have le1: "count_list ps h + owners s1 h \<le> use_count s1 h" for h
    using inv own1 uc1 by (auto simp: own_inv_def dest!: spec [of _ h] split: if_splits)
  have count: "s_fiber_count s1 = of_nat (?alive s)"
    using inv by (simp add: own_inv_def s1_def fiber_simps)
  have f1: "f < length (fs_fibers s1)" using f by (simp add: s1_def fiber_simps)
  have alive: "?alive s1 + (if 0 < use_count s f then 1 else 0) =
      ?alive s + (if 1 < use_count s f then 1 else 0)"
    using live_count_update [OF f, of "\<lambda>fb. 0 < fb_refs fb"] f
    by (simp add: s1_def update_fiber_def use_count_def)
  show ?thesis
  proof (rule release_cases [OF inv, of env, folded s1_def])
    assume kept: "release env f s = Ok () s1" "1 < use_count s f"
    with alive have "?alive s1 = ?alive s" by simp
    with kept rel le1 count show ?thesis by (simp add: own_inv_def)
  next
    assume destroyed: "release env f s = destroy_Fiber env f s1" "use_count s f = 1"
    with alive have "?alive s = Suc (?alive s1)" by simp
    with count have "s_fiber_count s1 = of_nat (Suc (?alive s1))" by simp
    moreover have "destroy_Fiber env f s1 = Ok u s'" using destroyed(1) rel by simp
    ultimately show ?thesis by (rule own_inv_destroyed [OF le1 _ f1])
  qed
qed

text \<open>Constructors, calls pushed and calls ended.\<close>

lemma own_inv_new:
  assumes "own_inv ps s" and "fs_fibers s' = fs_fibers s @ [fb]" and "fb_refs fb = 1"
    and "fs_held s' = fs_held s" "t_thread_fiber s' = t_thread_fiber s"
    "fs_running s' = fs_running s" "s_fiber_count s' = s_fiber_count s + 1"
    and ctx: "\<And>h. ctx_owns h (fb_ctx fb) = 0"
  shows "own_inv (length (fs_fibers s) # ps) s'"
proof -
  have le: "count_list ps h + owners s h \<le> use_count s h" for h
    using assms(1) by (simp add: own_inv_def)
  have "owners s' h = owners s h" for h
    using assms by (simp add: owners_def ctxs_own_append)
  moreover have "use_count s' h = use_count s h + (if h = length (fs_fibers s) then 1 else 0)" for h
    using assms(2,3) by (simp add: use_count_def nth_append)
  ultimately have "count_list (length (fs_fibers s) # ps) h + owners s' h \<le> use_count s' h" for h
    using le [of h] by (cases "h = length (fs_fibers s)") simp_all
  with assms(1,2,3,7) show ?thesis by (simp add: own_inv_def)
qed

lemma own_inv_running:
  assumes "own_inv ps s"
    and "\<And>h. frames_own h frs + count_list qs h \<le> frames_own h (fs_running s) + count_list ps h"
  shows "own_inv qs (s\<lparr>fs_running := frs\<rparr>)"
proof -
  have "count_list qs h + owners (s\<lparr>fs_running := frs\<rparr>) h \<le> count_list ps h + owners s h" for h
    using assms(2) [of h] by (simp add: owners_def)
  moreover have "use_count (s\<lparr>fs_running := frs\<rparr>) h = use_count s h" for h
    by (simp add: use_count_def)
  ultimately show ?thesis
    using assms(1) unfolding own_inv_def by (auto intro: order_trans)
qed

lemma own_inv_held:
  assumes "own_inv ps s"
    and "\<And>h. count_list held h + count_list qs h \<le> count_list (fs_held s) h + count_list ps h"
  shows "own_inv qs (s\<lparr>fs_held := held\<rparr>)"
proof -
  have "count_list qs h + owners (s\<lparr>fs_held := held\<rparr>) h \<le> count_list ps h + owners s h" for h
    using assms(2) [of h] by (simp add: owners_def)
  moreover have "use_count (s\<lparr>fs_held := held\<rparr>) h = use_count s h" for h
    by (simp add: use_count_def)
  ultimately show ?thesis
    using assms(1) unfolding own_inv_def by (auto intro: order_trans)
qed

lemma own_inv_thread_fiber:
  assumes "own_inv (m # ps) s" and "t_thread_fiber s = None"
  shows "own_inv ps (s\<lparr>t_thread_fiber := Some m\<rparr>)"
proof -
  have "count_list ps h + owners (s\<lparr>t_thread_fiber := Some m\<rparr>) h = count_list (m # ps) h + owners s h" for h
    using assms(2) by (simp add: owners_def)
  moreover have "use_count (s\<lparr>t_thread_fiber := Some m\<rparr>) h = use_count s h" for h
    by (simp add: use_count_def)
  ultimately show ?thesis
    using assms(1) unfolding own_inv_def by auto
qed

lemma own_inv_swapcontext:
  assumes inv: "own_inv ps s" and bounds: "from < length (fs_fibers s)" "to < length (fs_fibers s)"
    and swap: "swapcontext env from to s = Ok u s'"
  shows "own_inv ps s'"
proof -
  define s1 where "s1 = update_fiber from (\<lambda>fb. fb\<lparr>fb_ctx := Saved (fs_running s)\<rparr>) s"
  define s2 where "s2 = update_fiber to (\<lambda>fb. fb\<lparr>fb_ctx := Stale\<rparr>) s1"
  obtain frs where s': "s' = s2\<lparr>fs_running := frs\<rparr>"
    and frs: "frames_own h frs \<le> ctx_owns h (fb_ctx (fs_fibers s1 ! to))" for h
    using swap unfolding swapcontext_def Let_def s1_def [symmetric] s2_def [symmetric]
    by (auto split: ctx.splits if_splits)
  have len: "length (fs_fibers s1) = length (fs_fibers s)" by (simp add: s1_def fiber_simps)
  have "owners s' h \<le> owners s h" for h
    using ctxs_own_update [of "from" "fs_fibers s" h "(fs_fibers s ! from)\<lparr>fb_ctx := Saved (fs_running s)\<rparr>"]
      ctxs_own_update [of to "fs_fibers s1" h "(fs_fibers s1 ! to)\<lparr>fb_ctx := Stale\<rparr>"]
      frs [of h] bounds len
    by (simp add: s' owners_def s2_def fiber_simps) (simp add: s1_def update_fiber_def)
  moreover have "use_count s' h = use_count s h" for h
    using bounds len by (simp add: s' use_count_def s2_def fiber_simps) (simp add: s1_def fiber_simps)
  moreover have "length (filter (\<lambda>fb. 0 < fb_refs fb) (fs_fibers s')) =
      length (filter (\<lambda>fb. 0 < fb_refs fb) (fs_fibers s))"
    using live_count_update [of "from" "fs_fibers s" "\<lambda>fb. 0 < fb_refs fb"
        "(fs_fibers s ! from)\<lparr>fb_ctx := Saved (fs_running s)\<rparr>"]
      live_count_update [of to "fs_fibers s1" "\<lambda>fb. 0 < fb_refs fb" "(fs_fibers s1 ! to)\<lparr>fb_ctx := Stale\<rparr>"]
      bounds len
    by (simp add: s' s2_def update_fiber_def) (simp add: s1_def update_fiber_def)
  moreover have "s_fiber_count s' = s_fiber_count s"
    by (simp add: s' s2_def s1_def fiber_simps)
  ultimately show ?thesis
    using inv unfolding own_inv_def by (metis (no_types, lifting) add_left_mono order_trans)
qed

section \<open>Contexts\<close>

text \<open>
  Complete stacks of calls: client code, possibly in a yield that has come back, or one of the two
  moments of \<open>MainFunc\<close> outside the callback. \<open>runs f\<close>: the calls are those of the fiber \<open>f\<close>.
\<close>

fun is_code :: "frame \<Rightarrow> bool" where
  "is_code (Thread_code c) = True"
| "is_code (MainFunc_callback f c) = True"
| "is_code _ = False"

fun complete :: "frame list \<Rightarrow> bool" where
  "complete [Yielded f, fr] = is_code fr"
| "complete [MainFunc_start] = True"
| "complete [MainFunc_left] = True"
| "complete [fr] = is_code fr"
| "complete _ = False"

fun runs :: "nat \<Rightarrow> frame list \<Rightarrow> bool" where
  "runs f [] = False"
| "runs f [MainFunc_callback g c] = (g = f)"
| "runs f [MainFunc_start] = True"
| "runs f [MainFunc_left] = True"
| "runs f [fr] = False"
| "runs f (fr # frs) = runs f frs"

definition ctx_ok :: "fiber_sys \<Rightarrow> nat \<Rightarrow> bool" where
  "ctx_ok s g \<longleftrightarrow> (\<forall>frs. fb_ctx (fs_fibers s ! g) = Saved frs \<longrightarrow>
     complete frs \<and> (t_thread_fiber s \<noteq> Some g \<longrightarrow> runs g frs))"

definition switch_inv :: "fiber_sys \<Rightarrow> bool" where
  "switch_inv s \<longleftrightarrow>
     complete (fs_running s) \<and>
     (\<forall>g < length (fs_fibers s). ctx_ok s g) \<and>
     (\<forall>f. t_fiber s = Some f \<longrightarrow>
        live s f \<and> (t_thread_fiber s \<noteq> Some f \<longrightarrow> runs f (fs_running s))) \<and>
     (t_thread_fiber s = None \<longleftrightarrow> t_fiber s = None)"

definition thread_inv :: "fiber_sys \<Rightarrow> bool" where
  "thread_inv s \<longleftrightarrow> own_inv [] s \<and> (fs_running s = [] \<or> switch_inv s)"

lemma complete_cases:
  assumes "complete frs"
  obtains (code) fr where "frs = [fr]" "is_code fr"
    | (yielded) f fr where "frs = [Yielded f, fr]" "is_code fr"
    | (start) "frs = [MainFunc_start]" | (left) "frs = [MainFunc_left]"
  using assms by (cases frs rule: complete.cases) auto

lemma complete_code [simp]: "is_code fr \<Longrightarrow> complete [fr]" "is_code fr \<Longrightarrow> complete [Yielded f, fr]"
  by (cases fr; simp)+

lemma runs_Yielded [simp]: "is_code fr \<Longrightarrow> runs f [Yielded g, fr] = runs f [fr]"
  by (cases fr) simp_all

lemma runs_code: "is_code fr \<Longrightarrow> runs f [fr] \<longleftrightarrow> (\<exists>c. fr = MainFunc_callback f c)"
  by (cases fr) auto

lemma owned_live: "own_inv ps s \<Longrightarrow> 0 < count_list ps f + owners s f \<Longrightarrow> live s f"
  unfolding own_inv_def live_use_count using less_le_trans by blast

text \<open>While client code is active, the current fiber has an owner.\<close>

lemma current_owned:
  assumes "switch_inv s" and "is_code (last (fs_running s))" and "t_fiber s = Some t"
  shows "0 < owners s t"
proof (cases "t_thread_fiber s = Some t")
  case True
  then show ?thesis by (simp add: owners_def)
next
  case False
  with assms have "runs t (fs_running s)" and c: "complete (fs_running s)" by (auto simp: switch_inv_def)
  with c assms(2) have "0 < frames_own t (fs_running s)"
    by (cases rule: complete_cases) (auto simp: runs_code)
  then show ?thesis by (simp add: owners_def)
qed

lemma ctx_ok_mono:
  assumes "ctx_ok s g" and "fb_ctx (fs_fibers s' ! g) = fb_ctx (fs_fibers s ! g) \<or> (\<forall>frs. fb_ctx (fs_fibers s' ! g) \<noteq> Saved frs)"
    and "t_thread_fiber s' = t_thread_fiber s \<or> t_thread_fiber s = None"
  shows "ctx_ok s' g"
  using assms by (auto simp: ctx_ok_def)

lemma release_frame:
  assumes "release env f s = Ok u s'"
  shows "fs_held s' = fs_held s" "t_thread_fiber s' = t_thread_fiber s" "fs_running s' = fs_running s"
    "length (fs_fibers s') = length (fs_fibers s)" "s_fiber_id s' = s_fiber_id s" "fs_log s' = fs_log s"
    "t_fiber s' = t_fiber s \<or> use_count s f = 1 \<and> t_fiber s = Some f"
    "g < length (fs_fibers s) \<Longrightarrow> fb_ctx (fs_fibers s' ! g) = fb_ctx (fs_fibers s ! g) \<or> fb_ctx (fs_fibers s' ! g) = Stale"
    "use_count s' g = use_count s g - (if g = f then 1 else 0)"
proof -
  define s1 where "s1 = update_fiber f (\<lambda>fb. fb\<lparr>fb_refs := fb_refs fb - 1\<rparr>) s"
  have f: "f < length (fs_fibers s)" using assms by (auto simp: release_def live_def split: if_splits)
  have uc1: "use_count s1 g = use_count s g - (if g = f then 1 else 0)" for g
    using f by (simp add: s1_def use_count_def fiber_simps)
  have "live s f" using assms by (auto simp: release_def split: if_splits)
  then have "release env f s = (if use_count s f = 1 then destroy_Fiber env f s1 else Ok () s1)"
    using f by (simp add: release_def s1_def use_count_def)
  with assms consider "s' = s1" | "destroy_Fiber env f s1 = Ok u s'" "use_count s f = 1"
    by (metis result.inject(1))
  then have "fs_held s' = fs_held s \<and> t_thread_fiber s' = t_thread_fiber s \<and> fs_running s' = fs_running s \<and>
      length (fs_fibers s') = length (fs_fibers s) \<and> s_fiber_id s' = s_fiber_id s \<and> fs_log s' = fs_log s \<and>
      (t_fiber s' = t_fiber s \<or> use_count s f = 1 \<and> t_fiber s = Some f) \<and>
      (\<forall>g < length (fs_fibers s). fb_ctx (fs_fibers s' ! g) = fb_ctx (fs_fibers s ! g) \<or> fb_ctx (fs_fibers s' ! g) = Stale) \<and>
      (\<forall>g. use_count s' g = use_count s g - (if g = f then 1 else 0))"
  proof cases
    case 1
    with f uc1 show ?thesis by (simp add: s1_def fiber_simps)
  next
    case 2
    obtain s2 where s': "s' = update_fiber f (\<lambda>fb. fb\<lparr>fb_ctx := Stale\<rparr>) s2"
      and s2: "s2 = s1\<lparr>s_fiber_count := s_fiber_count s1 - 1\<rparr> \<or>
        t_fiber s1 = Some f \<and> s2 = s1\<lparr>s_fiber_count := s_fiber_count s1 - 1, t_fiber := None\<rparr>"
      using 2(1) by (rule destroy_Ok)
    have same: "fs_fibers s2 = fs_fibers s1" "fs_held s2 = fs_held s" "t_thread_fiber s2 = t_thread_fiber s"
      "fs_running s2 = fs_running s" "s_fiber_id s2 = s_fiber_id s" "fs_log s2 = fs_log s"
      "t_fiber s2 = t_fiber s \<or> t_fiber s = Some f"
      using s2 by (auto simp: s1_def fiber_simps)
    have f2: "f < length (fs_fibers s2)" using f same(1) by (simp add: s1_def fiber_simps)
    have "use_count s' h = use_count s1 h" for h
      using f2 by (simp add: s' use_count_def fiber_simps same(1))
    moreover have "fb_ctx (fs_fibers s' ! h) = fb_ctx (fs_fibers s ! h) \<or> fb_ctx (fs_fibers s' ! h) = Stale" for h
      unfolding s' nth_update_fiber [OF f2] using f by (simp add: same(1) s1_def fiber_simps)
    moreover have "length (fs_fibers s') = length (fs_fibers s)"
      by (simp add: s' fiber_simps same(1) s1_def)
    ultimately show ?thesis
      using 2(2) same(2-7) uc1 by (simp add: s' fiber_simps)
  qed
  then show "fs_held s' = fs_held s" "t_thread_fiber s' = t_thread_fiber s" "fs_running s' = fs_running s"
    "length (fs_fibers s') = length (fs_fibers s)" "s_fiber_id s' = s_fiber_id s" "fs_log s' = fs_log s"
    "t_fiber s' = t_fiber s \<or> use_count s f = 1 \<and> t_fiber s = Some f"
    "g < length (fs_fibers s) \<Longrightarrow> fb_ctx (fs_fibers s' ! g) = fb_ctx (fs_fibers s ! g) \<or> fb_ctx (fs_fibers s' ! g) = Stale"
    "use_count s' g = use_count s g - (if g = f then 1 else 0)"
    by blast+
qed

section \<open>Every operation keeps the invariants\<close>

lemma live_frame:
  assumes "fs_fibers s' = fs_fibers s" shows "live s' f = live s f"
  using assms by (simp add: live_def)

lemma switch_inv_same:
  assumes "switch_inv s" and "fs_fibers s' = fs_fibers s" "t_thread_fiber s' = t_thread_fiber s"
    "t_fiber s' = t_fiber s" "fs_running s' = fs_running s"
  shows "switch_inv s'"
  using assms by (simp add: switch_inv_def ctx_ok_def live_def)

lemma switch_inv_update_fiber:
  assumes "switch_inv s" and "\<And>fb. fb_refs fb \<le> fb_refs (g fb)"
    and "\<And>fb. fb_ctx (g fb) = fb_ctx fb \<or> (\<forall>frs. fb_ctx (g fb) \<noteq> Saved frs)"
  shows "switch_inv (update_fiber f g s)"
proof (cases "f < length (fs_fibers s)")
  case True
  have "live (update_fiber f g s) h" if "live s h" for h
    using that assms(2) [of "fs_fibers s ! f"] True by (auto simp: live_def fiber_simps)
  moreover have "ctx_ok (update_fiber f g s) h" if "ctx_ok s h" for h
    using that assms(3) [of "fs_fibers s ! f"] True
    by (intro ctx_ok_mono [OF that]) (auto simp: fiber_simps)
  ultimately show ?thesis
    using assms(1) by (simp add: switch_inv_def fiber_simps)
qed (use assms(1) in \<open>simp add: update_fiber_def list_update_beyond\<close>)

lemma switch_inv_release:
  assumes inv: "own_inv (f # ps) s" "switch_inv s" and code: "is_code (last (fs_running s))"
    and rel: "release env f s = Ok u s'"
  shows "switch_inv s'"
proof -
  note fr = release_frame [OF rel]
  have owned: "live s' t" "t_fiber s' = t_fiber s" if "t_fiber s = Some t" for t
  proof -
    have "0 < owners s t" by (rule current_owned [OF inv(2) code that])
    moreover have "count_list (f # ps) t + owners s t \<le> use_count s t"
      using inv(1) by (simp add: own_inv_def)
    ultimately have uc: "0 < use_count s' t" "t = f \<Longrightarrow> use_count s f \<noteq> 1"
      using fr(9) [of t] by (auto split: if_splits)
    from uc(1) show "live s' t" by (simp add: live_use_count)
    from uc(2) fr(7) that show "t_fiber s' = t_fiber s" by auto
  qed
  have "t_fiber s' = t_fiber s" using fr(7) owned(2) by auto
  moreover have "ctx_ok s' g" if "g < length (fs_fibers s)" for g
  proof (rule ctx_ok_mono)
    show "ctx_ok s g" using inv(2) that by (simp add: switch_inv_def)
    show "t_thread_fiber s' = t_thread_fiber s \<or> t_thread_fiber s = None" using fr(2) by simp
    show "fb_ctx (fs_fibers s' ! g) = fb_ctx (fs_fibers s ! g) \<or> (\<forall>frs. fb_ctx (fs_fibers s' ! g) \<noteq> Saved frs)"
      using fr(8) [OF that] by (elim disjE) simp_all
  qed
  ultimately show ?thesis
    using inv(2) owned(1) by (simp add: switch_inv_def fr(2-4))
qed

lemma GetThis_inv:
  assumes inv: "own_inv ps s" "switch_inv s" and get: "Fiber_GetThis env s = Ok f s'"
  shows "own_inv (f # ps) s'" "switch_inv s'" "t_fiber s' = Some f" "t_thread_fiber s' \<noteq> None"
    "fs_running s' = fs_running s" "fs_held s' = fs_held s" "f < length (fs_fibers s')"
proof -
  have goals: "own_inv (f # ps) s' \<and> switch_inv s' \<and> t_fiber s' = Some f \<and> t_thread_fiber s' \<noteq> None \<and>
    fs_running s' = fs_running s \<and> fs_held s' = fs_held s \<and> f < length (fs_fibers s')"
  proof (cases "t_fiber s")
    case (Some g)
    with get have f: "g = f" "live s f" "s' = retain f s"
      by (auto simp: Fiber_GetThis_def split: if_splits)
    moreover have "switch_inv (retain f s)"
      unfolding retain_def using inv(2) by (rule switch_inv_update_fiber) simp_all
    ultimately show ?thesis
      using own_inv_retain [OF f(2) inv(1)] Some inv(2)
      by (auto simp: retain_def fiber_simps live_def switch_inv_def)
  next
    case None
    with inv(2) have thr: "t_thread_fiber s = None" by (simp add: switch_inv_def)
    let ?fb = "\<lparr>fb_id = 0, fb_stacksize = 0, fb_state = EXEC, fb_ctx = Stale, fb_stack = False,
        fb_cb = None, fb_refs = 1\<rparr>"
    define s1 where "s1 = s\<lparr>fs_fibers := fs_fibers s @ [?fb], t_fiber := Some (length (fs_fibers s)),
        s_fiber_count := s_fiber_count s + 1\<rparr>"
    have f: "f = length (fs_fibers s)" and s': "s' = retain f (s1\<lparr>t_thread_fiber := Some f\<rparr>)"
      using get None thr
      by (auto simp: Fiber_GetThis_def new_main_Fiber_def Let_def and_then_Ok_iff fs_assert_Ok SetThis_def
          s1_def)
    have own: "own_inv (f # ps) s1"
      unfolding f s1_def by (rule own_inv_new [OF inv(1), where fb = ?fb]) simp_all
    then have "own_inv ps (s1\<lparr>t_thread_fiber := Some f\<rparr>)"
      using thr by (intro own_inv_thread_fiber) (simp_all add: s1_def)
    moreover have lv: "live (s1\<lparr>t_thread_fiber := Some f\<rparr>) f"
      by (simp add: live_def s1_def f)
    ultimately have "own_inv (f # ps) s'"
      unfolding s' by (intro own_inv_retain)
    moreover have "ctx_ok (s1\<lparr>t_thread_fiber := Some f\<rparr>) g" if "g < length (fs_fibers s1)" for g
      using inv(2) that thr by (auto simp: ctx_ok_def s1_def nth_append switch_inv_def f)
    then have "switch_inv (s1\<lparr>t_thread_fiber := Some f\<rparr>)"
      using inv(2) lv by (simp add: switch_inv_def) (simp add: s1_def f)
    then have "switch_inv s'"
      unfolding s' retain_def by (rule switch_inv_update_fiber) simp_all
    ultimately show ?thesis
      by (simp add: s' retain_def fiber_simps) (simp add: s1_def f)
  qed
  then show "own_inv (f # ps) s'" "switch_inv s'" "t_fiber s' = Some f" "t_thread_fiber s' \<noteq> None"
    "fs_running s' = fs_running s" "fs_held s' = fs_held s" "f < length (fs_fibers s')" by blast+
qed

definition ctxs_ok :: "fiber_sys \<Rightarrow> bool" where
  "ctxs_ok s \<longleftrightarrow> complete (fs_running s) \<and> (\<forall>g < length (fs_fibers s). ctx_ok s g)"

lemma swapcontext_inv:
  assumes own: "own_inv [] s" and ctxs: "ctxs_ok s"
    and bounds: "from < length (fs_fibers s)" and t: "t_fiber s = Some to" "live s to"
    and thr: "t_thread_fiber s \<noteq> None"
    and runs: "t_thread_fiber s \<noteq> Some from \<longrightarrow> runs from (fs_running s)"
    and swap: "swapcontext env from to s = Ok u s'"
  shows "own_inv [] s'" "switch_inv s'"
proof -
  have to: "to < length (fs_fibers s)" using t(2) by (simp add: live_def)
  show "own_inv [] s'" by (rule own_inv_swapcontext [OF own bounds to swap])
  define s1 where "s1 = update_fiber from (\<lambda>fb. fb\<lparr>fb_ctx := Saved (fs_running s)\<rparr>) s"
  define s2 where "s2 = update_fiber to (\<lambda>fb. fb\<lparr>fb_ctx := Stale\<rparr>) s1"
  have len: "length (fs_fibers s1) = length (fs_fibers s)" by (simp add: s1_def fiber_simps)
  have complete: "complete (fs_running s)" using ctxs by (simp add: ctxs_ok_def)
  have ok1: "ctx_ok s1 g" if "g < length (fs_fibers s)" for g
  proof (cases "g = from")
    case True
    with bounds complete runs show ?thesis by (simp add: ctx_ok_def s1_def fiber_simps)
  next
    case False
    with ctxs that bounds show ?thesis by (simp add: ctx_ok_def s1_def fiber_simps ctxs_ok_def)
  qed
  have ok2: "ctx_ok s2 g" if "g < length (fs_fibers s)" for g
    using ok1 [OF that] to len by (simp add: ctx_ok_def s2_def fiber_simps)
  obtain frs where s': "s' = s2\<lparr>fs_running := frs\<rparr>"
    and frs: "frs = [MainFunc_start] \<or> fb_ctx (fs_fibers s1 ! to) = Saved frs"
    using swap unfolding swapcontext_def Let_def s1_def [symmetric] s2_def [symmetric]
    by (auto split: ctx.splits if_splits)
  have "complete frs" and "t_thread_fiber s \<noteq> Some to \<longrightarrow> runs to frs"
    using frs ok1 [OF to] by (auto simp: ctx_ok_def s1_def fiber_simps)
  moreover have "live s' to"
    using t(2) bounds to len by (simp add: live_def s' s2_def fiber_simps) (auto simp: s1_def fiber_simps)
  moreover have "ctx_ok s' g" if "g < length (fs_fibers s)" for g
    using ok2 [OF that] by (simp add: ctx_ok_def s')
  ultimately show "switch_inv s'"
    using t(1) thr len by (simp add: switch_inv_def) (simp add: s' s2_def s1_def fiber_simps)
qed

lemma switch_inv_ctxs: "switch_inv s \<Longrightarrow> ctxs_ok s"
  by (simp add: switch_inv_def ctxs_ok_def)

lemma thread_fiber_live: "own_inv ps s \<Longrightarrow> t_thread_fiber s = Some m \<Longrightarrow> live s m"
  by (rule owned_live) (auto simp: owners_def)

lemma SwapOut_inv:
  assumes own: "own_inv [] s" and ctxs: "ctxs_ok s"
    and runs: "t_thread_fiber s \<noteq> Some cur \<longrightarrow> runs cur (fs_running s)"
    and out: "Fiber_SwapOut env cur s = Ok u s'"
  shows "own_inv [] s'" "switch_inv s'"
proof -
  obtain m where m: "t_thread_fiber s = Some m" and cur: "live s cur"
    and swap: "swapcontext env cur m (SetThis (Some m) s) = Ok u s'"
    using out by (auto simp: Fiber_SwapOut_def and_then_Ok_iff fs_assert_Ok fiber_simps
        split: if_splits option.splits)
  let ?s = "SetThis (Some m) s"
  have pre: "own_inv [] ?s" "ctxs_ok ?s" "cur < length (fs_fibers ?s)" "t_fiber ?s = Some m" "live ?s m"
    "t_thread_fiber ?s \<noteq> None" "t_thread_fiber ?s \<noteq> Some cur \<longrightarrow> runs cur (fs_running ?s)"
    using own ctxs cur runs m thread_fiber_live [OF own m]
    by (simp_all add: ctxs_ok_def ctx_ok_def live_def fiber_simps)
  show "own_inv [] s'" "switch_inv s'" by (fact swapcontext_inv [OF pre swap])+
qed

lemma SwapIn_inv:
  assumes own: "own_inv [] s" and sw: "switch_inv s"
    and swapin: "Fiber_SwapIn env f s = Ok u s'"
  shows "own_inv [] s'" "switch_inv s'"
proof -
  let ?s = "update_fiber f (\<lambda>fb. fb\<lparr>fb_state := EXEC\<rparr>) (SetThis (Some f) s)"
  obtain m where m: "t_thread_fiber s = Some m" and f: "live s f"
    and swap: "swapcontext env m f ?s = Ok u s'"
    using swapin by (auto simp: Fiber_SwapIn_def and_then_Ok_iff fs_assert_Ok fiber_simps Let_def
        split: if_splits option.splits)
  have len: "f < length (fs_fibers (SetThis (Some f) s))" using f by (simp add: live_def fiber_simps)
  have "ctx_ok ?s g" if "g < length (fs_fibers s)" for g
    using sw that len by (auto simp: ctx_ok_def fiber_simps switch_inv_def)
  moreover have "m < length (fs_fibers s)" using thread_fiber_live [OF own m] by (simp add: live_def)
  ultimately have pre: "own_inv [] ?s" "ctxs_ok ?s" "m < length (fs_fibers ?s)" "t_fiber ?s = Some f" "live ?s f"
    "t_thread_fiber ?s \<noteq> None" "t_thread_fiber ?s \<noteq> Some m \<longrightarrow> runs m (fs_running ?s)"
    using own sw f m len
    by (simp_all add: ctxs_ok_def live_def fiber_simps switch_inv_def)
  show "own_inv [] s'" "switch_inv s'" by (fact swapcontext_inv [OF pre swap])+
qed

lemma on_fs_log_Ok:
  "on_fs_log g s = Ok a s' \<longleftrightarrow> (\<exists>l. g (fs_log s) = Ok a l \<and> s' = s\<lparr>fs_log := l\<rparr>)"
  by (auto split: result.splits)

text \<open>The end of \<open>MainFunc\<close>: \<open>cur\<close> is the only active call and owns the fiber.\<close>

definition leaving :: "nat \<Rightarrow> fiber_sys \<Rightarrow> bool" where
  "leaving cur s \<longleftrightarrow> own_inv [cur] s \<and> fs_running s = [] \<and> (\<forall>g < length (fs_fibers s). ctx_ok s g)"

lemma MainFunc_end_inv:
  assumes "leaving cur s" and fin: "MainFunc_end env cur s = Ok u s'"
  shows "own_inv [] s'" "switch_inv s'"
proof -
  obtain s1 where rel: "release env cur s = Ok () s1"
    and out: "Fiber_SwapOut env cur (s1\<lparr>fs_running := MainFunc_left # fs_running s1\<rparr>) = Ok u s'"
    using fin by (auto simp: MainFunc_end_def and_then_Ok_iff)
  have own: "own_inv [cur] s" and run: "fs_running s = []" and ctx: "g < length (fs_fibers s) \<Longrightarrow> ctx_ok s g" for g
    using assms(1) by (simp_all add: leaving_def)
  note fr = release_frame [OF rel]
  let ?s2 = "s1\<lparr>fs_running := [MainFunc_left]\<rparr>"
  have "ctx_ok ?s2 g" if g: "g < length (fs_fibers s)" for g
    using ctx [OF g]
  proof (rule ctx_ok_mono)
    show "t_thread_fiber ?s2 = t_thread_fiber s \<or> t_thread_fiber s = None" using fr(2) by simp
    show "fb_ctx (fs_fibers ?s2 ! g) = fb_ctx (fs_fibers s ! g) \<or> (\<forall>frs. fb_ctx (fs_fibers ?s2 ! g) \<noteq> Saved frs)"
      using fr(8) [OF g] by (elim disjE) simp_all
  qed
  then have "ctxs_ok ?s2" by (simp add: ctxs_ok_def fr(4))
  moreover have "own_inv [] ?s2"
    by (rule own_inv_running [OF own_inv_release [OF own rel]]) (simp add: fr(3) run)
  moreover have "Fiber_SwapOut env cur ?s2 = Ok u s'" using out by (simp add: fr(3) run)
  ultimately show "own_inv [] s'" "switch_inv s'"
    using SwapOut_inv [of ?s2 cur env u s'] by simp_all
qed

lemma leaving_update:
  assumes "leaving cur s" and "\<And>fb. fb_ctx (g fb) = fb_ctx fb" "\<And>fb. fb_refs (g fb) = fb_refs fb"
  shows "leaving cur (update_fiber f g s)"
proof (cases "f < length (fs_fibers s)")
  case True
  then show ?thesis
    using assms by (simp add: leaving_def fiber_simps ctx_ok_def)
qed (use assms(1) in \<open>simp add: update_fiber_def list_update_beyond\<close>)

lemma leaving_log [simp]: "leaving cur (s\<lparr>fs_log := l\<rparr>) = leaving cur s"
  by (simp add: leaving_def ctx_ok_def)

lemma leaving_code:
  assumes "own_inv [] s" "switch_inv s" "fs_running s = [MainFunc_callback f c]"
  shows "leaving f (s\<lparr>fs_running := []\<rparr>)"
  using assms own_inv_running [OF assms(1), of "[]" "[f]"]
  by (simp add: leaving_def switch_inv_def ctx_ok_def)

lemma MainFunc_catch_inv:
  assumes "leaving cur s" and "MainFunc_catch env cur ex s = Ok u s'"
  shows "own_inv [] s'" "switch_inv s'"
proof -
  define s1 where "s1 = (if is_std_exception ex then s
    else update_fiber cur (\<lambda>fb. fb\<lparr>fb_state := EXECPT\<rparr>) s)"
  have "leaving cur s1" using assms(1) by (simp add: s1_def leaving_update)
  moreover obtain l where "MainFunc_end env cur (s1\<lparr>fs_log := l\<rparr>) = Ok u s'"
    using assms(2) unfolding MainFunc_catch_def Let_def s1_def [symmetric] and_then_Ok_iff on_fs_log_Ok
    by fastforce
  ultimately show "own_inv [] s'" "switch_inv s'"
    using MainFunc_end_inv [of cur "s1\<lparr>fs_log := l\<rparr>" env u s'] by simp_all
qed

lemma MainFunc_return_inv:
  assumes "leaving cur s" and "MainFunc_return env cur s = Ok u s'"
  shows "own_inv [] s'" "switch_inv s'"
proof -
  have "leaving cur (update_fiber cur (\<lambda>fb. fb\<lparr>fb_state := TERM_ST\<rparr>) s)"
    using assms(1) by (rule leaving_update) simp_all
  from MainFunc_end_inv [OF this assms(2) [unfolded MainFunc_return_def]]
  show "own_inv [] s'" "switch_inv s'" .
qed

lemma MainFunc_begin_inv:
  assumes inv: "own_inv [] s" "switch_inv s" and start: "fs_running s = [MainFunc_start]"
    and run: "MainFunc_begin env s = Ok u s'"
  shows "own_inv [] s'" "switch_inv s'"
proof -
  obtain cur s1 where get: "Fiber_GetThis env s = Ok cur s1"
    and rest: "(case fb_cb (fs_fibers s1 ! cur) of
            None \<Rightarrow> MainFunc_catch env cur BadFunctionCall (s1\<lparr>fs_running := tl (fs_running s1)\<rparr>)
          | Some c \<Rightarrow> Ok () (s1\<lparr>fs_running := MainFunc_callback cur c # tl (fs_running s1)\<rparr>)) = Ok u s'"
    using run unfolding MainFunc_begin_def and_then_Ok_iff Let_def by blast
  note g = GetThis_inv [OF inv get]
  show "own_inv [] s'" "switch_inv s'"
  proof (atomize (full), cases "fb_cb (fs_fibers s1 ! cur)")
    case None
    have "leaving cur (s1\<lparr>fs_running := []\<rparr>)"
      using g(2) own_inv_running [OF g(1), of "[]" "[cur]"] start
      by (simp add: leaving_def switch_inv_def ctx_ok_def g(5))
    with None rest g(5) start show "own_inv [] s' \<and> switch_inv s'"
      using MainFunc_catch_inv by simp
  next
    case (Some c)
    with rest g(5) start have s': "s' = s1\<lparr>fs_running := [MainFunc_callback cur c]\<rparr>" by simp
    have "own_inv [] s'"
      unfolding s' by (rule own_inv_running [OF g(1)]) (simp add: g(5) start)
    moreover have "switch_inv s'"
      using g(2,3) by (simp add: s' switch_inv_def ctx_ok_def live_def)
    ultimately show "own_inv [] s' \<and> switch_inv s'" ..
  qed
qed

lemma new_Fiber_inv:
  assumes inv: "own_inv ps s" "switch_inv s" and new: "new_Fiber env cb sz s = Ok f s'"
  shows "own_inv (f # ps) s'" "switch_inv s'" "fs_held s' = fs_held s"
proof -
  define n where "n = (if sz \<noteq> 0 then ucast sz else fs_stacksize s)"
  let ?fb = "\<lparr>fb_id = s_fiber_id s + 1, fb_stacksize = n, fb_state = INIT, fb_ctx = Entry,
      fb_stack = fe_malloc_ok env n, fb_cb = cb, fb_refs = 1\<rparr>"
  have f: "f = length (fs_fibers s)" and s': "s' = s\<lparr>s_fiber_id := s_fiber_id s + 1,
      s_fiber_count := s_fiber_count s + 1, fs_fibers := fs_fibers s @ [?fb]\<rparr>"
    using new unfolding new_Fiber_def Let_def and_then_Ok_iff fs_assert_Ok n_def [symmetric] by auto
  show "own_inv (f # ps) s'"
    unfolding f by (rule own_inv_new [OF inv(1), where fb = ?fb]) (simp_all add: s')
  have "live s' g" if "live s g" for g
    using that by (simp add: live_def s' nth_append)
  moreover have "ctx_ok s' g" if "g < length (fs_fibers s')" for g
    using inv(2) that by (cases "g < length (fs_fibers s)")
      (auto simp: switch_inv_def ctx_ok_def s' nth_append split: if_splits)
  ultimately show "switch_inv s'"
    using inv(2) by (simp add: switch_inv_def) (simp add: s')
  show "fs_held s' = fs_held s" by (simp add: s')
qed

lemma Reset_inv:
  assumes inv: "own_inv [] s" "switch_inv s" and reset: "Fiber_Reset env f cb s = Ok u s'"
  shows "own_inv [] s'" "switch_inv s'"
proof -
  let ?g = "\<lambda>fb. fb\<lparr>fb_cb := cb, fb_ctx := Entry, fb_state := INIT\<rparr>"
  have s': "s' = update_fiber f ?g s" and f: "f < length (fs_fibers s)"
    using reset by (auto simp: Fiber_Reset_def Let_def and_then_Ok_iff fs_assert_Ok live_def split: if_splits)
  have "owners s' h \<le> owners s h" for h
    using ctxs_own_update [OF f, of h "?g (fs_fibers s ! f)"]
    by (simp add: s' owners_def update_fiber_def)
  moreover have "use_count s' h = use_count s h" for h
    using f by (simp add: s' use_count_def fiber_simps)
  moreover have "length (filter (\<lambda>fb. 0 < fb_refs fb) (fs_fibers s')) =
      length (filter (\<lambda>fb. 0 < fb_refs fb) (fs_fibers s))"
    using live_count_update [OF f, of "\<lambda>fb. 0 < fb_refs fb" "?g (fs_fibers s ! f)"]
    by (simp add: s' update_fiber_def)
  moreover have "s_fiber_count s' = s_fiber_count s" by (simp add: s' fiber_simps)
  ultimately show "own_inv [] s'"
    using inv(1) unfolding own_inv_def by (metis (no_types, lifting) add_left_mono order_trans)
  show "switch_inv s'"
    unfolding s' using inv(2) by (rule switch_inv_update_fiber) simp_all
qed

lemma yield_to_inv:
  assumes inv: "own_inv [] s" "switch_inv s" and run: "fs_running s = [fr]" "is_code fr"
    and y: "yield_to env line st s = Ok u s'"
  shows "own_inv [] s'" "switch_inv s'"
proof -
  obtain cur s1 where get: "Fiber_GetThis env s = Ok cur s1"
    and out: "Fiber_SwapOut env cur
      ((update_fiber cur (\<lambda>fb. fb\<lparr>fb_state := st\<rparr>) s1)\<lparr>fs_running := Yielded cur # fs_running s1\<rparr>) = Ok u s'"
    using y by (auto simp: yield_to_def and_then_Ok_iff fs_assert_Ok Let_def fiber_simps)
  note g = GetThis_inv [OF inv get]
  define s2 where "s2 = update_fiber cur (\<lambda>fb. fb\<lparr>fb_state := st\<rparr>) s1"
  let ?s3 = "s2\<lparr>fs_running := [Yielded cur, fr]\<rparr>"
  have r2: "fs_running s2 = [fr]" and t2: "t_fiber s2 = Some cur"
    using g(3,5) run(1) by (simp_all add: s2_def fiber_simps)
  have "own_inv [cur] s2" using g(1) by (simp add: s2_def)
  then have own3: "own_inv [] ?s3" by (rule own_inv_running) (simp add: r2)
  have sw2: "switch_inv s2" unfolding s2_def using g(2) by (rule switch_inv_update_fiber) simp_all
  then have ctxs3: "ctxs_ok ?s3" using run(2) by (simp add: switch_inv_def ctxs_ok_def ctx_ok_def)
  have runs3: "t_thread_fiber ?s3 \<noteq> Some cur \<longrightarrow> runs cur (fs_running ?s3)"
    using sw2 t2 r2 run(2) by (simp add: switch_inv_def)
  have "Fiber_SwapOut env cur ?s3 = Ok u s'" using out g(5) run(1) by (simp add: s2_def)
  from SwapOut_inv [OF own3 ctxs3 runs3 this] show "own_inv [] s'" "switch_inv s'" .
qed

lemma count_erase_first:
  "f \<in> set xs \<Longrightarrow> count_list (erase_first f xs) h + (if h = f then 1 else 0) = count_list xs h"
  by (induction xs) auto

lemma fiber_call_inv:
  assumes inv: "own_inv [] s" "switch_inv s" and run: "fs_running s = [fr]" "is_code fr"
    and call: "fiber_call env cl s = Ok u s'"
  shows "own_inv [] s' \<and> switch_inv s'"
proof (cases cl)
  case (New_fiber cb sz)
  with call obtain f s1 where new: "new_Fiber env cb sz s = Ok f s1" and s': "s' = s1\<lparr>fs_held := fs_held s1 @ [f]\<rparr>"
    by (auto simp: and_then_Ok_iff)
  note n = new_Fiber_inv [OF inv new]
  have "own_inv [] s'" unfolding s' by (rule own_inv_held [OF n(1)]) simp
  moreover have "switch_inv s'" by (rule switch_inv_same [OF n(2)]) (simp_all add: s')
  ultimately show ?thesis ..
next
  case (Reset_fiber f cb)
  with call Reset_inv [OF inv] show ?thesis by simp
next
  case (Swap_in f)
  with call SwapIn_inv [OF inv] show ?thesis by simp
next
  case Yield_to_hold
  with call yield_to_inv [OF inv run] show ?thesis by (simp add: YieldToHold_def)
next
  case Yield_to_ready
  with call yield_to_inv [OF inv run] show ?thesis by (simp add: YieldToReady_def)
next
  case Get_this
  with call obtain f s1 where get: "Fiber_GetThis env s = Ok f s1" and s': "s' = s1\<lparr>fs_held := fs_held s1 @ [f]\<rparr>"
    by (auto simp: and_then_Ok_iff)
  note n = GetThis_inv [OF inv get]
  have "own_inv [] s'" unfolding s' by (rule own_inv_held [OF n(1)]) simp
  moreover have "switch_inv s'" by (rule switch_inv_same [OF n(2)]) (simp_all add: s')
  ultimately show ?thesis ..
next
  case (Drop f)
  let ?s = "s\<lparr>fs_held := erase_first f (fs_held s)\<rparr>"
  from call Drop have held: "f \<in> set (fs_held s)" and rel: "release env f ?s = Ok u s'"
    by (auto split: if_splits)
  have "count_list (erase_first f (fs_held s)) h + count_list [f] h \<le> count_list (fs_held s) h + count_list [] h" for h
    using count_erase_first [OF held, of h] by (auto split: if_splits)
  then have own: "own_inv [f] ?s" by (rule own_inv_held [OF inv(1)])
  have sw: "switch_inv ?s" by (rule switch_inv_same [OF inv(2)]) simp_all
  have "is_code (last (fs_running ?s))" using run by simp
  with own_inv_release [OF own rel] switch_inv_release [OF own sw _ rel] show ?thesis by simp
qed

lemma thread_exit_inv:
  assumes inv: "own_inv [] s" and fin: "thread_exit env s = Ok u s'"
  shows "own_inv [] s' \<and> fs_running s' = []"
proof (cases "t_thread_fiber s")
  case None
  with fin have "s' = s\<lparr>fs_running := []\<rparr>" by (simp add: thread_exit_def)
  with own_inv_running [OF inv, of "[]" "[]"] show ?thesis by simp
next
  case (Some m)
  define s1 where "s1 = s\<lparr>fs_running := [], t_thread_fiber := None\<rparr>"
  have rel: "release env m s1 = Ok u s'"
    using fin Some by (simp add: thread_exit_def s1_def)
  have "count_list [m] h + owners s1 h \<le> use_count s1 h" for h
  proof -
    have "count_list [m] h + owners s1 h \<le> owners s h" using Some by (simp add: owners_def s1_def)
    also have "owners s h \<le> use_count s h" using inv by (simp add: own_inv_def)
    also have "use_count s h = use_count s1 h" by (simp add: use_count_def s1_def)
    finally show ?thesis .
  qed
  moreover have "s_fiber_count s1 = s_fiber_count s" "fs_fibers s1 = fs_fibers s" by (simp_all add: s1_def)
  ultimately have "own_inv [m] s1"
    using inv unfolding own_inv_def by simp
  from own_inv_release [OF this rel] release_frame(3) [OF rel] show ?thesis by (simp add: s1_def)
qed

lemma thread_inv_code:
  assumes "own_inv [] s" "switch_inv s" "fs_running s = [fr]" "is_code fr" "is_code fr'"
    and "\<And>f. frame_owns f fr' = frame_owns f fr" "\<And>f. runs f [fr'] = runs f [fr]"
  shows "own_inv [] (s\<lparr>fs_running := [fr']\<rparr>) \<and> switch_inv (s\<lparr>fs_running := [fr']\<rparr>)"
  using assms own_inv_running [OF assms(1), of "[fr']" "[]"]
  by (simp add: switch_inv_def ctx_ok_def live_def)

lemma step_inv:
  assumes own: "own_inv [] s" and sw: "switch_inv s" and step: "fiber_step env s = Ok u s'"
  shows "own_inv [] s' \<and> (if fs_running s = [Thread_code Finish] then fs_running s' = [] else switch_inv s')"
proof -
  from sw have "complete (fs_running s)" by (simp add: switch_inv_def)
  then show ?thesis
  proof (cases rule: complete_cases)
    case (yielded f fr)
    let ?s = "s\<lparr>fs_running := [fr]\<rparr>"
    have rel: "release env f ?s = Ok u s'" using step yielded by (simp add: fiber_step.simps)
    have own1: "own_inv [f] ?s" by (rule own_inv_running [OF own]) (simp add: yielded)
    have "switch_inv ?s" using sw yielded by (simp add: switch_inv_def ctx_ok_def live_def)
    then have "switch_inv s'" using own1 yielded(2) rel by (auto intro: switch_inv_release)
    with own_inv_release [OF own1 rel] yielded(1) show ?thesis by simp
  next
    case start
    with step have "MainFunc_begin env s = Ok u s'" by (simp add: fiber_step.simps)
    with MainFunc_begin_inv [OF own sw start] start show ?thesis by simp
  next
    case left
    with step show ?thesis by (simp add: fiber_step.simps and_then_Ok_iff fs_assert_Ok)
  next
    case (code fr)
    show ?thesis
    proof (cases fr)
      case (Thread_code c)
      show ?thesis
      proof (cases c)
        case Finish
        with step code Thread_code thread_exit_inv [OF own] show ?thesis
          by (simp add: fiber_step.simps)
      next
        case (Throws ex)
        with step code Thread_code show ?thesis by (simp add: fiber_step.simps)
      next
        case (Do cl c')
        with step code Thread_code have "fiber_call env cl (s\<lparr>fs_running := [Thread_code c']\<rparr>) = Ok u s'"
          by (simp add: fiber_step.simps)
        moreover have "own_inv [] (s\<lparr>fs_running := [Thread_code c']\<rparr>) \<and> switch_inv (s\<lparr>fs_running := [Thread_code c']\<rparr>)"
          by (rule thread_inv_code [OF own sw code(1)]) (simp_all add: Thread_code)
        ultimately show ?thesis
          using fiber_call_inv [of "s\<lparr>fs_running := [Thread_code c']\<rparr>" "Thread_code c'" env cl u s']
            code Thread_code Do
          by simp
      qed
    next
      case (MainFunc_callback f c)
      note run = code(1) [unfolded MainFunc_callback]
      note lv = leaving_code [OF own sw run]
      show ?thesis
      proof (cases c)
        case Finish
        with step run have "MainFunc_return env f (s\<lparr>fs_running := []\<rparr>) = Ok u s'"
          by (simp add: fiber_step.simps)
        with MainFunc_return_inv [OF lv] run show ?thesis by simp
      next
        case (Throws ex)
        with step run have "MainFunc_catch env f ex (s\<lparr>fs_running := []\<rparr>) = Ok u s'"
          by (simp add: fiber_step.simps)
        with MainFunc_catch_inv [OF lv] run show ?thesis by simp
      next
        case (Do cl c')
        let ?s = "s\<lparr>fs_running := [MainFunc_callback f c']\<rparr>"
        from Do step run have "fiber_call env cl ?s = Ok u s'" by (simp add: fiber_step.simps)
        moreover have "own_inv [] ?s \<and> switch_inv ?s"
          by (rule thread_inv_code [OF own sw run]) simp_all
        ultimately show ?thesis
          using fiber_call_inv [of ?s "MainFunc_callback f c'" env cl u s'] run by simp
      qed
    qed (use code in simp_all)
  qed
qed

lemma thread_inv_step:
  assumes inv: "thread_inv s" and step: "fiber_step env s = Ok u s'"
  shows "thread_inv s'"
proof (cases "fs_running s = []")
  case True
  with inv step show ?thesis by (simp add: fiber_step.simps)
next
  case False
  with inv have "own_inv [] s" "switch_inv s" by (simp_all add: thread_inv_def)
  from step_inv [OF this step] show ?thesis by (auto simp: thread_inv_def split: if_splits)
qed

lemma thread_inv_reach:
  "fiber_reach env s t \<Longrightarrow> thread_inv s \<Longrightarrow> thread_inv t"
  by (induction rule: fiber_reach.induct) (auto intro: thread_inv_step)

lemma thread_inv_start: "thread_inv (fiber_start c stacksize l)"
  by (simp add: thread_inv_def fiber_start_def own_inv_def owners_def ctxs_own_def use_count_def
      switch_inv_def)

section \<open>The code of the thread\<close>

text \<open>No active call and no context that could be resumed is one of the thread's own code.\<close>

fun ctx_frames :: "ctx \<Rightarrow> frame set" where
  "ctx_frames (Saved frs) = set frs"
| "ctx_frames _ = {}"

definition thread_lost :: "fiber_sys \<Rightarrow> bool" where
  "thread_lost s \<longleftrightarrow> (\<forall>c. Thread_code c \<notin> set (fs_running s)) \<and>
     (\<forall>g < length (fs_fibers s). \<forall>c. Thread_code c \<notin> ctx_frames (fb_ctx (fs_fibers s ! g)))"

lemma thread_lost_same:
  "fs_fibers s' = fs_fibers s \<Longrightarrow> set (fs_running s') \<subseteq> set (fs_running s) \<Longrightarrow> thread_lost s \<Longrightarrow> thread_lost s'"
  by (auto simp: thread_lost_def)

lemma thread_lost_update_fiber:
  assumes "thread_lost s" and "\<And>c. Thread_code c \<notin> ctx_frames (fb_ctx (fs_fibers s ! f)) \<Longrightarrow>
      Thread_code c \<notin> ctx_frames (fb_ctx (g (fs_fibers s ! f)))"
  shows "thread_lost (update_fiber f g s)"
proof (cases "f < length (fs_fibers s)")
  case True
  with assms show ?thesis by (simp add: thread_lost_def fiber_simps)
qed (use assms(1) in \<open>simp add: update_fiber_def list_update_beyond\<close>)

lemma thread_lost_SetThis: "thread_lost s \<Longrightarrow> thread_lost (SetThis f s)"
  by (erule thread_lost_same [rotated 2]) (simp_all add: fiber_simps)

lemma thread_lost_release:
  assumes "thread_lost s" and rel: "release env f s = Ok u s'"
  shows "thread_lost s'"
proof -
  note fr = release_frame [OF rel]
  have "Thread_code c \<notin> ctx_frames (fb_ctx (fs_fibers s' ! g))" if "g < length (fs_fibers s)" for g c
    using fr(8) [OF that] assms(1) that by (elim disjE) (simp_all add: thread_lost_def)
  then show ?thesis using assms(1) by (simp add: thread_lost_def fr(3,4))
qed

lemma thread_lost_new:
  assumes "thread_lost s" and "fs_fibers s' = fs_fibers s @ [fb]" "ctx_frames (fb_ctx fb) = {}"
    "fs_running s' = fs_running s"
  shows "thread_lost s'"
  using assms by (auto simp: thread_lost_def nth_append less_Suc_eq)

lemma thread_lost_swapcontext:
  assumes "thread_lost s" and "from < length (fs_fibers s)" "to < length (fs_fibers s)"
    and swap: "swapcontext env from to s = Ok u s'"
  shows "thread_lost s'"
proof -
  define s1 where "s1 = update_fiber from (\<lambda>fb. fb\<lparr>fb_ctx := Saved (fs_running s)\<rparr>) s"
  define s2 where "s2 = update_fiber to (\<lambda>fb. fb\<lparr>fb_ctx := Stale\<rparr>) s1"
  have 1: "thread_lost s1"
    unfolding s1_def using assms(1) by (rule thread_lost_update_fiber) (use assms(1) in \<open>simp add: thread_lost_def\<close>)
  have 2: "thread_lost s2"
    unfolding s2_def using 1 by (rule thread_lost_update_fiber) simp
  obtain frs where s': "s' = s2\<lparr>fs_running := frs\<rparr>"
    and frs: "frs = [MainFunc_start] \<or> fb_ctx (fs_fibers s1 ! to) = Saved frs"
    using swap unfolding swapcontext_def Let_def s1_def [symmetric] s2_def [symmetric]
    by (auto split: ctx.splits if_splits)
  have "Thread_code c \<notin> ctx_frames (fb_ctx (fs_fibers s1 ! to))" for c
    using 1 assms(3) by (simp add: thread_lost_def s1_def fiber_simps)
  with frs have "Thread_code c \<notin> set frs" for c by auto
  with 2 show ?thesis by (simp add: thread_lost_def s')
qed

lemma thread_lost_GetThis:
  assumes "thread_lost s" and get: "Fiber_GetThis env s = Ok f s'"
  shows "thread_lost s'"
proof (cases "t_fiber s")
  case (Some g)
  with get have "s' = retain f s" by (auto simp: Fiber_GetThis_def split: if_splits)
  with assms(1) show ?thesis by (simp add: retain_def thread_lost_update_fiber)
next
  case None
  with get obtain s1 s2 where new: "new_main_Fiber env s = Ok f s1"
    and rel: "(case t_thread_fiber s1 of None \<Rightarrow> Ok () s1 | Some m \<Rightarrow> release env m s1) = Ok () s2"
    and s': "s' = retain f (s2\<lparr>t_thread_fiber := Some f\<rparr>)"
    by (auto simp: Fiber_GetThis_def and_then_Ok_iff fs_assert_Ok)
  have "thread_lost s1"
    using new by (intro thread_lost_new [OF assms(1)])
      (auto simp: new_main_Fiber_def Let_def and_then_Ok_iff fs_assert_Ok SetThis_def)
  then have "thread_lost s2" using rel by (auto split: option.splits intro: thread_lost_release)
  then have "thread_lost (s2\<lparr>t_thread_fiber := Some f\<rparr>)" by (rule thread_lost_same [rotated 2]) simp_all
  then show ?thesis unfolding s' retain_def by (rule thread_lost_update_fiber) simp
qed

lemma thread_lost_SwapOut:
  assumes lost: "thread_lost s" and own: "own_inv ps s" and out: "Fiber_SwapOut env cur s = Ok u s'"
  shows "thread_lost s'"
proof -
  obtain m where m: "t_thread_fiber s = Some m" and cur: "live s cur"
    and swap: "swapcontext env cur m (SetThis (Some m) s) = Ok u s'"
    using out by (auto simp: Fiber_SwapOut_def and_then_Ok_iff fs_assert_Ok fiber_simps
        split: if_splits option.splits)
  show ?thesis
    by (rule thread_lost_swapcontext [OF thread_lost_SetThis [OF lost] _ _ swap])
      (use cur thread_fiber_live [OF own m] in \<open>simp_all add: live_def fiber_simps\<close>)
qed

lemma thread_lost_SwapIn:
  assumes lost: "thread_lost s" and own: "own_inv ps s" and swapin: "Fiber_SwapIn env f s = Ok u s'"
  shows "thread_lost s'"
proof -
  let ?s = "update_fiber f (\<lambda>fb. fb\<lparr>fb_state := EXEC\<rparr>) (SetThis (Some f) s)"
  obtain m where m: "t_thread_fiber s = Some m" and f: "live s f" and swap: "swapcontext env m f ?s = Ok u s'"
    using swapin by (auto simp: Fiber_SwapIn_def and_then_Ok_iff fs_assert_Ok fiber_simps Let_def
        split: if_splits option.splits)
  have "thread_lost ?s"
    using thread_lost_SetThis [OF lost] by (rule thread_lost_update_fiber) simp
  then show ?thesis
    by (rule thread_lost_swapcontext [OF _ _ _ swap])
      (use f thread_fiber_live [OF own m] in \<open>simp_all add: live_def fiber_simps\<close>)
qed

lemma thread_lost_yield:
  assumes lost: "thread_lost s" and inv: "own_inv [] s" "switch_inv s"
    and y: "yield_to env line st s = Ok u s'"
  shows "thread_lost s'"
proof -
  obtain cur s1 where get: "Fiber_GetThis env s = Ok cur s1"
    and out: "Fiber_SwapOut env cur
      ((update_fiber cur (\<lambda>fb. fb\<lparr>fb_state := st\<rparr>) s1)\<lparr>fs_running := Yielded cur # fs_running s1\<rparr>) = Ok u s'"
    using y by (auto simp: yield_to_def and_then_Ok_iff fs_assert_Ok Let_def fiber_simps)
  let ?s2 = "update_fiber cur (\<lambda>fb. fb\<lparr>fb_state := st\<rparr>) s1"
  have "own_inv [cur] ?s2" using GetThis_inv(1) [OF inv get] by simp
  then have own: "own_inv [] (?s2\<lparr>fs_running := Yielded cur # fs_running s1\<rparr>)"
    by (rule own_inv_running) (simp add: fiber_simps)
  have "thread_lost ?s2"
    using thread_lost_GetThis [OF lost get] by (rule thread_lost_update_fiber) simp
  then have "thread_lost (?s2\<lparr>fs_running := Yielded cur # fs_running s1\<rparr>)"
    by (simp add: thread_lost_def fiber_simps)
  then show ?thesis using own out by (rule thread_lost_SwapOut)
qed

lemma thread_lost_call:
  assumes lost: "thread_lost s" and inv: "own_inv [] s" "switch_inv s"
    and call: "fiber_call env cl s = Ok u s'"
  shows "thread_lost s'"
proof (cases cl)
  case (New_fiber cb sz)
  with call obtain f s1 where new: "new_Fiber env cb sz s = Ok f s1" and s': "s' = s1\<lparr>fs_held := fs_held s1 @ [f]\<rparr>"
    by (auto simp: and_then_Ok_iff)
  have "thread_lost s1"
    using new unfolding new_Fiber_def Let_def and_then_Ok_iff fs_assert_Ok
    by (intro thread_lost_new [OF lost]) auto
  then show ?thesis by (rule thread_lost_same [rotated 2]) (simp_all add: s')
next
  case (Reset_fiber f cb)
  with call have "s' = update_fiber f (\<lambda>fb. fb\<lparr>fb_cb := cb, fb_ctx := Entry, fb_state := INIT\<rparr>) s"
    by (auto simp: Fiber_Reset_def Let_def and_then_Ok_iff fs_assert_Ok split: if_splits)
  with lost show ?thesis by (simp add: thread_lost_update_fiber)
next
  case (Swap_in f)
  with call thread_lost_SwapIn [OF lost inv(1)] show ?thesis by simp
next
  case Yield_to_hold
  with call thread_lost_yield [OF lost inv] show ?thesis by (simp add: YieldToHold_def)
next
  case Yield_to_ready
  with call thread_lost_yield [OF lost inv] show ?thesis by (simp add: YieldToReady_def)
next
  case Get_this
  with call obtain f s1 where get: "Fiber_GetThis env s = Ok f s1" and s': "s' = s1\<lparr>fs_held := fs_held s1 @ [f]\<rparr>"
    by (auto simp: and_then_Ok_iff)
  show ?thesis
    using thread_lost_GetThis [OF lost get] by (rule thread_lost_same [rotated 2]) (simp_all add: s')
next
  case (Drop f)
  let ?s = "s\<lparr>fs_held := erase_first f (fs_held s)\<rparr>"
  have "thread_lost ?s" using lost by (rule thread_lost_same [rotated 2]) simp_all
  with call Drop show ?thesis by (auto split: if_splits intro: thread_lost_release)
qed

lemma thread_lost_end:
  assumes lost: "thread_lost s" and lv: "leaving cur s" and fin: "MainFunc_end env cur s = Ok u s'"
  shows "thread_lost s'"
proof -
  obtain s1 where rel: "release env cur s = Ok () s1"
    and out: "Fiber_SwapOut env cur (s1\<lparr>fs_running := MainFunc_left # fs_running s1\<rparr>) = Ok u s'"
    using fin by (auto simp: MainFunc_end_def and_then_Ok_iff)
  have "own_inv [cur] s" using lv by (simp add: leaving_def)
  from own_inv_release [OF this rel]
  have own: "own_inv [] (s1\<lparr>fs_running := MainFunc_left # fs_running s1\<rparr>)"
    by (rule own_inv_running) simp
  have "thread_lost (s1\<lparr>fs_running := MainFunc_left # fs_running s1\<rparr>)"
    using thread_lost_release [OF lost rel] by (simp add: thread_lost_def)
  then show ?thesis using own out by (rule thread_lost_SwapOut)
qed

lemma thread_lost_catch:
  assumes lost: "thread_lost s" and lv: "leaving cur s" and c: "MainFunc_catch env cur ex s = Ok u s'"
  shows "thread_lost s'"
proof -
  define s1 where "s1 = (if is_std_exception ex then s
    else update_fiber cur (\<lambda>fb. fb\<lparr>fb_state := EXECPT\<rparr>) s)"
  have lv1: "leaving cur s1" using lv by (simp add: s1_def leaving_update)
  have "thread_lost s1" using lost by (simp add: s1_def thread_lost_update_fiber)
  then have lost1: "thread_lost (s1\<lparr>fs_log := l\<rparr>)" for l
    by (rule thread_lost_same [rotated 2]) simp_all
  obtain l where "MainFunc_end env cur (s1\<lparr>fs_log := l\<rparr>) = Ok u s'"
    using c unfolding MainFunc_catch_def Let_def s1_def [symmetric] and_then_Ok_iff on_fs_log_Ok
    by fastforce
  with thread_lost_end [OF lost1] lv1 show ?thesis by simp
qed

lemma thread_lost_step:
  assumes lost: "thread_lost s" and own: "own_inv [] s" and sw: "switch_inv s"
    and step: "fiber_step env s = Ok u s'"
  shows "thread_lost s'"
proof -
  have frames: "thread_lost (s\<lparr>fs_running := frs\<rparr>)" if "\<And>c. Thread_code c \<notin> set frs" for frs
    using lost that by (simp add: thread_lost_def)
  from sw have "complete (fs_running s)" by (simp add: switch_inv_def)
  then show ?thesis
  proof (cases rule: complete_cases)
    case (yielded f fr)
    with lost have "thread_lost (s\<lparr>fs_running := [fr]\<rparr>)" by (intro frames) (auto simp: thread_lost_def)
    with step yielded show ?thesis by (auto simp: fiber_step.simps intro: thread_lost_release)
  next
    case start
    with step obtain cur s1 where get: "Fiber_GetThis env s = Ok cur s1"
      and rest: "(case fb_cb (fs_fibers s1 ! cur) of
            None \<Rightarrow> MainFunc_catch env cur BadFunctionCall (s1\<lparr>fs_running := tl (fs_running s1)\<rparr>)
          | Some c \<Rightarrow> Ok () (s1\<lparr>fs_running := MainFunc_callback cur c # tl (fs_running s1)\<rparr>)) = Ok u s'"
      by (auto simp: fiber_step.simps MainFunc_begin_def and_then_Ok_iff Let_def)
    note g = GetThis_inv [OF own sw get]
    have run: "tl (fs_running s1) = []" by (simp add: g(5) start)
    have lost1: "thread_lost s1" by (rule thread_lost_GetThis [OF lost get])
    have lv: "leaving cur (s1\<lparr>fs_running := []\<rparr>)"
      using g(2) own_inv_running [OF g(1), of "[]" "[cur]"] start
      by (simp add: leaving_def switch_inv_def ctx_ok_def g(5))
    show ?thesis
    proof (cases "fb_cb (fs_fibers s1 ! cur)")
      case None
      have "thread_lost (s1\<lparr>fs_running := []\<rparr>)" using lost1 by (simp add: thread_lost_def)
      with None rest run lv show ?thesis by (auto intro: thread_lost_catch)
    next
      case (Some c)
      with rest run lost1 show ?thesis by (auto simp: thread_lost_def)
    qed
  next
    case left
    with step show ?thesis by (simp add: fiber_step.simps and_then_Ok_iff fs_assert_Ok)
  next
    case (code fr)
    with lost obtain f c where run: "fs_running s = [MainFunc_callback f c]"
      by (cases fr) (auto simp: thread_lost_def)
    note lv = leaving_code [OF own sw run]
    have lost0: "thread_lost (s\<lparr>fs_running := []\<rparr>)" by (rule frames) simp
    show ?thesis
    proof (cases c)
      case Finish
      let ?s = "update_fiber f (\<lambda>fb. fb\<lparr>fb_state := TERM_ST\<rparr>) (s\<lparr>fs_running := []\<rparr>)"
      have "MainFunc_end env f ?s = Ok u s'"
        using Finish step run by (simp add: fiber_step.simps MainFunc_return_def)
      moreover have "thread_lost ?s" using lost0 by (rule thread_lost_update_fiber) simp
      moreover have "leaving f ?s" using lv by (rule leaving_update) simp_all
      ultimately show ?thesis using thread_lost_end by blast
    next
      case (Throws ex)
      with step run have "MainFunc_catch env f ex (s\<lparr>fs_running := []\<rparr>) = Ok u s'"
        by (simp add: fiber_step.simps)
      with thread_lost_catch [OF lost0 lv] show ?thesis by simp
    next
      case (Do cl c')
      let ?s = "s\<lparr>fs_running := [MainFunc_callback f c']\<rparr>"
      from Do step run have "fiber_call env cl ?s = Ok u s'" by (simp add: fiber_step.simps)
      moreover have "own_inv [] ?s \<and> switch_inv ?s"
        by (rule thread_inv_code [OF own sw run]) simp_all
      moreover have "thread_lost ?s" by (rule frames) simp
      ultimately show ?thesis using thread_lost_call by blast
    qed
  qed
qed

text \<open>Once lost, the code of the thread is never reached again, and the thread never ends.\<close>

lemma thread_lost_reach:
  assumes "fiber_reach env s t" and "own_inv [] s" "switch_inv s" "thread_lost s"
  shows "own_inv [] t \<and> switch_inv t \<and> thread_lost t"
  using assms
proof (induction rule: fiber_reach.induct)
  case reach_start
  then show ?case by simp
next
  case (reach_step t u)
  then have inv: "own_inv [] t" "switch_inv t" "thread_lost t" by simp_all
  then have "fs_running t \<noteq> [Thread_code Finish]" by (auto simp: thread_lost_def)
  with step_inv [OF inv(1,2) reach_step.hyps(2)] thread_lost_step [OF inv(3,1,2) reach_step.hyps(2)]
  show ?case by simp
qed

end
