(* ===== verification/Fiber_Properties.thy ===== *)
theory Fiber_Properties
  imports Fiber_Facts
begin

text \<open>
  Properties of fibers: what every thread keeps true, the life of a callback that yields, and the
  uses of the interface that end the process.
\<close>

section \<open>Every reachable state\<close>

text \<open>
  C14: Whatever code a thread and its callbacks run, in every state it reaches \<open>TotalFibers\<close> is the
  number of fibers that exist, use counts cover all owners, and every fiber that client code, a
  suspended call or the current-fiber pointer names still exists.
\<close>

theorem fibers_well_formed:
  assumes "fiber_reach env (fiber_start c stacksize l) t"
  shows "TotalFibers t = of_nat (card {f. live t f}) \<and>
    (\<forall>f. owners t f \<le> use_count t f) \<and>
    (\<forall>f \<in> set (fs_held t). live t f) \<and>
    (\<forall>f g. f < length (fs_fibers t) \<longrightarrow> 0 < ctx_owns g (fb_ctx (fs_fibers t ! f)) \<longrightarrow> live t g) \<and>
    (fs_running t \<noteq> [] \<longrightarrow> (\<forall>f. t_fiber t = Some f \<longrightarrow> live t f))"
proof -
  have inv: "thread_inv t" using assms thread_inv_start by (rule thread_inv_reach)
  then have own: "own_inv [] t" by (simp add: thread_inv_def)
  have owned: "live t f" if "0 < owners t f" for f
    using owned_live [OF own] that by simp
  have "length (filter (\<lambda>fb. 0 < fb_refs fb) (fs_fibers t)) = card {f. live t f}"
    by (simp add: length_filter_conv_card live_def)
  then have "TotalFibers t = of_nat (card {f. live t f})"
    using own by (simp add: own_inv_def TotalFibers_def)
  moreover have "owners t f \<le> use_count t f" for f
    using own by (simp add: own_inv_def)
  moreover have "live t f" if "f \<in> set (fs_held t)" for f
    by (rule owned) (use that count_list_0_iff [of "fs_held t" f] in \<open>auto simp: owners_def\<close>)
  moreover have "live t g" if "f < length (fs_fibers t)" "0 < ctx_owns g (fb_ctx (fs_fibers t ! f))" for f g
    by (rule owned) (use that ctx_owns_le [OF that(1), of g] in \<open>simp add: owners_def\<close>)
  ultimately show ?thesis
    using inv by (auto simp: thread_inv_def switch_inv_def)
qed

section \<open>The life of a fiber\<close>

text \<open>
  \<open>parked env s f c\<close>: the fiber \<open>f\<close> does not run and goes on with \<open>c\<close>, from the start of its
  callback or from a yield.
\<close>

definition parked :: "fiber_env \<Rightarrow> fiber_sys \<Rightarrow> nat \<Rightarrow> code \<Rightarrow> bool" where
  "parked env s f c \<longleftrightarrow>
     (let fb = fs_fibers s ! f
      in live s f \<and> fb_state fb \<noteq> EXEC \<and>
         (fb_ctx fb = Entry \<and> fb_cb fb = Some c \<and> fb_stack fb \<and> fe_stack_need env \<le> fb_stacksize fb \<or>
          fb_ctx fb = Saved [Yielded f, MainFunc_callback f c] \<and> 3 \<le> fb_refs fb))"

text \<open>The use count without the two pointers of the suspended calls.\<close>

definition outer_refs :: "fiber \<Rightarrow> nat" where
  "outer_refs fb = (if fb_ctx fb = Entry then fb_refs fb else fb_refs fb - 2)"

definition thread_at :: "nat \<Rightarrow> code \<Rightarrow> fiber_sys \<Rightarrow> bool" where
  "thread_at m c s \<longleftrightarrow>
     fs_running s = [Thread_code c] \<and> t_fiber s = Some m \<and> t_thread_fiber s = Some m \<and> live s m"

lemma resume:
  assumes ok: "fe_context_ok env" and at: "thread_at m (Do (Swap_in f) c) s" and ne: "f \<noteq> m"
    and park: "parked env s f c0"
  shows "fiber_run 2 env s = Ok () (s\<lparr>
      fs_fibers := (fs_fibers s)
        [m := (fs_fibers s ! m)\<lparr>fb_ctx := Saved [Thread_code c]\<rparr>,
         f := (fs_fibers s ! f)\<lparr>fb_state := EXEC, fb_ctx := Stale, fb_refs := Suc (outer_refs (fs_fibers s ! f))\<rparr>],
      t_fiber := Some f, fs_running := [MainFunc_callback f c0]\<rparr>)"
proof -
  let ?F = "fs_fibers s ! f"
  have f: "f < length (fs_fibers s)" "0 < fb_refs ?F" and m: "m < length (fs_fibers s)"
    using park at by (auto simp: parked_def Let_def live_def thread_at_def)
  note eval = fiber_step.simps Fiber_SwapIn_def live_def fiber_simps Let_def swapcontext_def
    update_fiber_def nth_list_update list_update_overwrite eval_nat_numeral
  show ?thesis
  proof (cases "fb_ctx ?F = Entry")
    case True
    with assms f m show ?thesis
      by (simp add: eval SetThis_def thread_at_def parked_def outer_refs_def MainFunc_begin_def
          Fiber_GetThis_def retain_def list_update_swap [OF ne] not_less)
  next
    case False
    with park obtain n where "fb_refs ?F = Suc (Suc (Suc n))"
      by (force simp: parked_def Let_def dest: le_Suc_ex)
    with False assms f m show ?thesis
      by (simp add: eval SetThis_def thread_at_def parked_def outer_refs_def release_def
          list_update_swap [OF ne])
  qed
qed

lemma fiber_run_add: "fiber_run (m + n) env s = and_then (fiber_run m env s) (\<lambda>_. fiber_run n env)"
proof (induction m arbitrary: s)
  case (Suc m)
  then show ?case by (cases "fiber_step env s") simp_all
qed simp

text \<open>
  \<open>away m f st cx n s\<close>: the thread is back in its own code \<open>c\<close>, the fiber is in state \<open>st\<close> with
  context \<open>cx\<close> and use count \<open>n\<close>.
\<close>

definition away :: "nat \<Rightarrow> nat \<Rightarrow> fiber_state \<Rightarrow> ctx \<Rightarrow> nat \<Rightarrow> code \<Rightarrow> fiber_sys \<Rightarrow> fiber_sys" where
  "away m f st cx n c s = s\<lparr>
      fs_fibers := (fs_fibers s)
        [m := (fs_fibers s ! m)\<lparr>fb_ctx := Stale\<rparr>,
         f := (fs_fibers s ! f)\<lparr>fb_state := st, fb_ctx := cx, fb_refs := n\<rparr>],
      t_fiber := Some m, fs_running := [Thread_code c]\<rparr>"

text \<open>The updates of a fiber in one order.\<close>

lemma fiber_update_order:
  "fb\<lparr>fb_refs := n, fb_ctx := cx\<rparr> = fb\<lparr>fb_ctx := cx, fb_refs := n\<rparr>"
  "fb\<lparr>fb_refs := n, fb_state := st\<rparr> = fb\<lparr>fb_state := st, fb_refs := n\<rparr>"
  "fb\<lparr>fb_ctx := cx, fb_state := st\<rparr> = fb\<lparr>fb_state := st, fb_ctx := cx\<rparr>"
  for fb :: fiber
  by simp_all

lemma switch_and_stop:
  assumes ok: "fe_context_ok env" and at: "thread_at m (Do (Swap_in f) c) s" and ne: "f \<noteq> m"
    and park: "parked env s f c0"
  shows "c0 = Do Yield_to_hold c1 \<Longrightarrow> fiber_run 3 env s = Ok ()
      (away m f HOLD (Saved [Yielded f, MainFunc_callback f c1]) (outer_refs (fs_fibers s ! f) + 2) c s)"
    and "c0 = Do Yield_to_ready c1 \<Longrightarrow> fiber_run 3 env s = Ok ()
      (away m f READY (Saved [Yielded f, MainFunc_callback f c1]) (outer_refs (fs_fibers s ! f) + 2) c s)"
    and "c0 = Finish \<Longrightarrow> fiber_run 3 env s = Ok ()
      (away m f TERM_ST (Saved [MainFunc_left]) (outer_refs (fs_fibers s ! f)) c s)"
proof -
  let ?F = "fs_fibers s ! f"
  have f: "f < length (fs_fibers s)" and m: "m < length (fs_fibers s)" and thr: "t_thread_fiber s = Some m"
    and mrefs: "0 < fb_refs (fs_fibers s ! m)" and refs: "0 < outer_refs ?F" and t: "t_fiber s = Some m"
    using park at by (auto simp: parked_def Let_def live_def thread_at_def outer_refs_def)
  note run = fiber_run_add [of 2 1 env s, unfolded resume [OF assms]]
  note eval = fiber_step.simps live_def Let_def swapcontext_def update_fiber_def nth_list_update
    YieldToHold_def YieldToReady_def yield_to_def Fiber_GetThis_def Fiber_SwapOut_def SetThis_def retain_def
    MainFunc_return_def MainFunc_end_def release_def away_def
  show "c0 = Do Yield_to_hold c1 \<Longrightarrow> fiber_run 3 env s = Ok ()
      (away m f HOLD (Saved [Yielded f, MainFunc_callback f c1]) (outer_refs (fs_fibers s ! f) + 2) c s)"
    "c0 = Do Yield_to_ready c1 \<Longrightarrow> fiber_run 3 env s = Ok ()
      (away m f READY (Saved [Yielded f, MainFunc_callback f c1]) (outer_refs (fs_fibers s ! f) + 2) c s)"
    "c0 = Finish \<Longrightarrow> fiber_run 3 env s = Ok ()
      (away m f TERM_ST (Saved [MainFunc_left]) (outer_refs (fs_fibers s ! f)) c s)"
    using run f m thr refs ne ok t
    by (simp_all add: eval list_update_swap [OF ne] fiber_update_order)
qed

text \<open>A callback that yields, to ready or to hold, and returns; a thread that resumes it.\<close>

fun yields :: "bool list \<Rightarrow> code" where
  "yields [] = Finish"
| "yields (b # bs) = Do (if b then Yield_to_ready else Yield_to_hold) (yields bs)"

fun swap_ins :: "nat \<Rightarrow> nat \<Rightarrow> code \<Rightarrow> code" where
  "swap_ins 0 f c = c"
| "swap_ins (Suc n) f c = Do (Swap_in f) (swap_ins n f c)"

lemma away_facts:
  assumes "thread_at m c0 s" and "f < length (fs_fibers s)" and "f \<noteq> m"
  shows "thread_at m c (away m f st cx n c s)" "live (away m f st cx n c s) f \<longleftrightarrow> 0 < n"
    "fb_state (fs_fibers (away m f st cx n c s) ! f) = st" "fb_ctx (fs_fibers (away m f st cx n c s) ! f) = cx"
    "fb_refs (fs_fibers (away m f st cx n c s) ! f) = n"
    "away m f st' cx' n' c' (away m f st cx n c s) = away m f st' cx' n' c' s"
proof -
  have m: "m < length (fs_fibers s)" using assms(1) by (simp add: thread_at_def live_def)
  show "away m f st' cx' n' c' (away m f st cx n c s) = away m f st' cx' n' c' s"
    using assms m by (simp add: away_def list_update_swap [OF assms(3)] fiber_update_order)
qed (use assms in \<open>auto simp: away_def thread_at_def live_def nth_list_update\<close>)

lemma yields_run:
  assumes "fe_context_ok env" and "thread_at m (swap_ins (Suc n) f c) s" and "f \<noteq> m"
    and "parked env s f (yields ks)" and "n \<le> length ks"
  shows "fiber_run (3 * Suc n) env s = Ok ()
    (if n < length ks
     then away m f (if ks ! n then READY else HOLD)
            (Saved [Yielded f, MainFunc_callback f (yields (drop (Suc n) ks))])
            (outer_refs (fs_fibers s ! f) + 2) c s
     else away m f TERM_ST (Saved [MainFunc_left]) (outer_refs (fs_fibers s ! f)) c s)"
  using assms(2,4,5)
proof (induction n arbitrary: s ks)
  case 0
  note stop = switch_and_stop [OF assms(1) 0(1) [unfolded swap_ins.simps] assms(3) 0(2)]
  show ?case
  proof (cases ks)
    case Nil
    with stop(3) show ?thesis by simp
  next
    case (Cons b bs)
    with stop(1,2) [of "yields bs"] show ?thesis by (cases b) simp_all
  qed
next
  case (Suc n)
  let ?r = "outer_refs (fs_fibers s ! f)"
  obtain b bs where ks: "ks = b # bs" using Suc.prems(3) by (cases ks) auto
  note at = Suc.prems(1) [unfolded swap_ins.simps(2) [of "Suc n"]]
  note stop = switch_and_stop [OF assms(1) at assms(3) Suc.prems(2)]
  let ?s1 = "away m f (if b then READY else HOLD)
     (Saved [Yielded f, MainFunc_callback f (yields bs)]) (?r + 2) (swap_ins (Suc n) f c) s"
  have run3: "fiber_run 3 env s = Ok () ?s1"
    using stop(1,2) [of "yields bs"] ks by (cases b) simp_all
  have f: "f < length (fs_fibers s)" and r: "0 < ?r"
    using Suc.prems(2) by (auto simp: parked_def Let_def live_def outer_refs_def)
  note aw = away_facts [OF at f assms(3)]
  have "parked env ?s1 f (yields bs)" using r by (simp add: parked_def aw Let_def)
  from Suc.IH [OF aw(1) this] Suc.prems(3) ks
  have "fiber_run (3 * Suc n) env ?s1 = Ok ()
    (if n < length bs
     then away m f (if bs ! n then READY else HOLD)
            (Saved [Yielded f, MainFunc_callback f (yields (drop (Suc n) bs))]) (?r + 2) c s
     else away m f TERM_ST (Saved [MainFunc_left]) ?r c s)"
    by (simp add: aw outer_refs_def)
  moreover have "3 * Suc (Suc n) = 3 + 3 * Suc n" by simp
  then have "fiber_run (3 * Suc (Suc n)) env s = fiber_run (3 * Suc n) env ?s1"
    by (simp only: fiber_run_add run3 and_then.simps)
  ultimately show ?case by (simp add: ks)
qed

text \<open>
  C7: A fiber whose callback yields according to \<open>ks\<close> and then returns is, after \<open>n + 1\<close> calls of
  \<open>SwapIn\<close>, in the state its \<open>n\<close>-th yield sets, or terminated once they are used up. Each time the
  thread goes on behind its \<open>SwapIn\<close>, only that fiber and the context of the thread's own fiber have
  changed, and the callback holds two references to its fiber exactly while it is suspended.
\<close>

theorem yielding_fiber_life:
  assumes "fe_context_ok env" and "thread_at m (swap_ins (Suc n) f c) s" and "f \<noteq> m" and "live s f"
    and "fb_state (fs_fibers s ! f) = INIT" and "fb_ctx (fs_fibers s ! f) = Entry"
    and "fb_cb (fs_fibers s ! f) = Some (yields ks)"
    and "fb_stack (fs_fibers s ! f)" and "fe_stack_need env \<le> fb_stacksize (fs_fibers s ! f)"
    and "n \<le> length ks"
  shows "fiber_run (3 * Suc n) env s = Ok ()
    (if n < length ks
     then away m f (if ks ! n then READY else HOLD)
            (Saved [Yielded f, MainFunc_callback f (yields (drop (Suc n) ks))])
            (fb_refs (fs_fibers s ! f) + 2) c s
     else away m f TERM_ST (Saved [MainFunc_left]) (fb_refs (fs_fibers s ! f)) c s)"
  using yields_run [OF assms(1-3) _ assms(10)] assms(4-9)
  by (simp add: parked_def outer_refs_def)

section \<open>Examples\<close>

text \<open>A logging system with the logger of the sources, and a thread with its own fiber and one other.\<close>

definition example_fiber_log :: log_sys where
  "example_fiber_log = snd (LoggerManager_GetLogger ''system''
     \<lparr>loggers = [(new_Logger ''root'')\<lparr>lg_appenders := [0]\<rparr>],
      appenders = [new_StdoutLogAppender\<lparr>ap_formatter := Some (new_LogFormatter default_pattern)\<rparr>],
      mgr_root = 0, mgr_loggers = [(''root'', 0)], cout = [], files = (\<lambda>_. []), disk = (\<lambda>_. []), ticks = 0\<rparr>)"

definition example_fiber_env :: fiber_env where
  "example_fiber_env =
     \<lparr>fe_util =
        \<lparr>ue_log =
           \<lparr>env_time_text = (\<lambda>fmt t. ''now''), env_open_ok = (\<lambda>n fn. True),
            env_write_ok = (\<lambda>n fn. True), env_close_ok = (\<lambda>n fn. True),
        env_taken = (\<lambda>n fn. 0), env_written = (\<lambda>n fn. 0), env_clock = (\<lambda>n. 7), env_thread_id = 1, env_fiber_id = 0,
            env_thread_name = ''main'', env_file = ''fiber.cpp''\<rparr>,
         ue_system = 1, ue_frames = (\<lambda>n. 3), ue_symbols = (\<lambda>n. Some [''f'', ''g'', ''h''])\<rparr>,
      fe_context_ok = True, fe_malloc_ok = (\<lambda>n. True), fe_stack_need = 1024\<rparr>"

definition example_fibers :: "code option \<Rightarrow> code \<Rightarrow> fiber_sys" where
  "example_fibers cb c =
     \<lparr>fs_fibers =
        [\<lparr>fb_id = 0, fb_stacksize = 0, fb_state = EXEC, fb_ctx = Stale, fb_stack = False,
          fb_cb = None, fb_refs = 2\<rparr>,
         \<lparr>fb_id = 1, fb_stacksize = 4096, fb_state = INIT, fb_ctx = Entry, fb_stack = True,
          fb_cb = cb, fb_refs = 1\<rparr>],
      t_fiber = Some 0, t_thread_fiber = Some 0, s_fiber_id = 1, s_fiber_count = 2,
      fs_stacksize = 4096, fs_running = [Thread_code c], fs_held = [0, 1], fs_log = example_fiber_log\<rparr>"

lemma example_fiber_ready: "util_ready (fe_util example_fiber_env) example_fiber_log"
proof -
  obtain s0 where s0: "new_LoggerManager = Ok () s0"
    "s0 = \<lparr>loggers = [(new_Logger ''root'')\<lparr>lg_appenders := [0]\<rparr>],
      appenders = [new_StdoutLogAppender\<lparr>ap_formatter := Some (new_LogFormatter default_pattern)\<rparr>],
      mgr_root = 0, mgr_loggers = [(''root'', 0)], cout = [], files = (\<lambda>_. []), disk = (\<lambda>_. []), ticks = 0\<rparr>"
    by (simp add: new_LoggerManager_state)
  have log: "example_fiber_log = snd (LoggerManager_GetLogger ''system'' s0)"
    by (simp add: example_fiber_log_def s0(2))
  have "wf_sys example_fiber_log"
    unfolding log by (rule wf_sys_GetLogger [OF wf_sys_initial [OF s0(1)]])
  moreover have "map_find string_lt ''system'' (mgr_loggers example_fiber_log) = Some 1"
    "lg_appenders (loggers example_fiber_log ! mgr_root example_fiber_log) \<noteq> []"
    unfolding log by (simp_all add: s0(2) LoggerManager_GetLogger_def alloc_logger_def string_lt_def)
  ultimately show ?thesis by (simp add: util_ready_def log_ready_def example_fiber_env_def)
qed

lemma fiber_run_reach: "fiber_run n env s = Ok () t \<Longrightarrow> fiber_reach env s t"
proof (induction n arbitrary: t)
  case (Suc n)
  have "fiber_run (n + 1) env s = Ok () t" using Suc.prems by simp
  then obtain u where "fiber_run n env s = Ok () u" "fiber_step env u = Ok () t"
    unfolding fiber_run_add and_then_Ok_iff by (auto simp: and_then_Ok_iff)
  with Suc.IH reach_step show ?case by blast
qed (simp add: reach_start)

lemma example_fibers_run:
  "fiber_run 2 example_fiber_env
     (fiber_start (Do Get_this (Do (New_fiber cb 0) c)) 4096 example_fiber_log) =
   Ok () (example_fibers cb c)"
  by (simp add: eval_nat_numeral fiber_step.simps fiber_start_def Fiber_GetThis_def new_main_Fiber_def
      new_Fiber_def Let_def SetThis_def retain_def update_fiber_def example_fiber_env_def
      example_fibers_def)

lemma example_fibers_parts:
  "thread_at 0 c (example_fibers cb c)" "live (example_fibers cb c) 1" "fe_context_ok example_fiber_env"
  "fb_state (fs_fibers (example_fibers cb c) ! 1) = INIT" "fb_ctx (fs_fibers (example_fibers cb c) ! 1) = Entry"
  "fb_cb (fs_fibers (example_fibers cb c) ! 1) = cb" "fb_stack (fs_fibers (example_fibers cb c) ! 1)"
  "fb_refs (fs_fibers (example_fibers cb c) ! 1) = 1" "fs_log (example_fibers cb c) = example_fiber_log"
  "fe_stack_need example_fiber_env \<le> fb_stacksize (fs_fibers (example_fibers cb c) ! 1)"
  by (simp_all add: example_fibers_def thread_at_def live_def example_fiber_env_def)

theorem fibers_well_formed_witness:
  "\<exists>t. fiber_reach example_fiber_env
       (fiber_start (Do Get_this (Do (New_fiber (Some (yields [True])) 0) (Do (Swap_in 1) Finish))) 4096
         example_fiber_log) t \<and>
     TotalFibers t = of_nat (card {f. live t f}) \<and> fb_state (fs_fibers t ! 1) = READY"
proof -
  let ?c = "Do (Swap_in 1) Finish"
  let ?s = "fiber_start (Do Get_this (Do (New_fiber (Some (yields [True])) 0) ?c)) 4096 example_fiber_log"
  let ?u = "example_fibers (Some (yields [True])) ?c"
  obtain t where "fiber_run 3 example_fiber_env ?u = Ok () t" and st: "fb_state (fs_fibers t ! 1) = READY"
    using yields_run [of example_fiber_env 0 0 1 Finish ?u "[True]"] example_fibers_parts
    by (auto simp: parked_def thread_at_def away_def example_fibers_def)
  then have "fiber_run (2 + 3) example_fiber_env ?s = Ok () t"
    by (simp only: fiber_run_add example_fibers_run and_then.simps)
  then have r: "fiber_reach example_fiber_env ?s t" by (rule fiber_run_reach)
  from r st fibers_well_formed [OF r] show ?thesis by blast
qed

theorem yielding_fiber_life_witness:
  "fiber_run 6 example_fiber_env (example_fibers (Some (yields [False])) (swap_ins 2 1 Finish)) =
     Ok () (away 0 1 TERM_ST (Saved [MainFunc_left]) 1 Finish
       (example_fibers (Some (yields [False])) (swap_ins 2 1 Finish)))"
  using yielding_fiber_life [of example_fiber_env 0 1 1 Finish
      "example_fibers (Some (yields [False])) (swap_ins 2 1 Finish)" "[False]"]
    example_fibers_parts
  by (simp add: numeral_2_eq_2)

section \<open>Callbacks that throw\<close>

lemma catch_logs:
  assumes "util_ready (fe_util env) (fs_log s)"
  obtains l where "MainFunc_catch env cur ex s = MainFunc_end env cur
      ((if is_std_exception ex then s else update_fiber cur (\<lambda>fb. fb\<lparr>fb_state := EXECPT\<rparr>) s)\<lparr>fs_log := l\<rparr>)"
    and "log_frame (fs_log s) l"
proof -
  define s1 where "s1 = (if is_std_exception ex then s
    else update_fiber cur (\<lambda>fb. fb\<lparr>fb_state := EXECPT\<rparr>) s)"
  have log1: "fs_log s1 = fs_log s" by (simp add: s1_def fiber_simps)
  have "util_ready (fiber_util env s1) (fs_log s1)"
    using assms by (simp add: log1 util_ready_def fiber_util_def)
  then obtain trace l1 where tr: "BacktraceToString (fiber_util env s1) 64 2 [] (fs_log s1) = Ok trace l1"
    and fr1: "log_frame (fs_log s1) l1" by (rule BacktraceToString_returns)
  have "util_ready (fe_util env) l1"
    using util_ready_frame [OF fr1] assms by (simp add: log1)
  then have "\<exists>l. ZCS_LEVEL lenv (ue_system (fe_util env)) ERROR line msg l1 = Ok () l \<and> log_frame l1 l"
    for lenv line msg by (rule system_log_returns)
  then obtain l where "ZCS_LEVEL (ue_log (fiber_util env (s1\<lparr>fs_log := l1\<rparr>))) (ue_system (fe_util env)) ERROR
      (if is_std_exception ex then 165 else 171)
      (''Fiber exception: '' @ (if is_std_exception ex then what ex else []) @ '' fiber id= '' @
        dec_nat (unat (fb_id (fs_fibers s1 ! cur))) @ [CHR 0x0A] @ trace) l1 = Ok () l"
    and fr2: "log_frame l1 l" by blast
  then have "MainFunc_catch env cur ex s = MainFunc_end env cur (s1\<lparr>fs_log := l\<rparr>)"
    unfolding MainFunc_catch_def Let_def s1_def [symmetric] by (simp add: tr)
  moreover have "log_frame (fs_log s) l" using log_frame_trans [OF fr1 fr2] by (simp add: log1)
  ultimately show thesis using that by (simp add: s1_def)
qed

lemma switch_and_throw:
  assumes ok: "fe_context_ok env" and at: "thread_at m (Do (Swap_in f) c) s" and ne: "f \<noteq> m"
    and park: "parked env s f (Throws ex)" and log: "util_ready (fe_util env) (fs_log s)"
  obtains l where "fiber_run 3 env s = Ok ()
      ((away m f (if is_std_exception ex then EXEC else EXECPT) (Saved [MainFunc_left])
        (outer_refs (fs_fibers s ! f)) c s)\<lparr>fs_log := l\<rparr>)"
    and "log_frame (fs_log s) l"
proof -
  let ?F = "fs_fibers s ! f"
  have f: "f < length (fs_fibers s)" and m: "m < length (fs_fibers s)" and thr: "t_thread_fiber s = Some m"
    and mrefs: "0 < fb_refs (fs_fibers s ! m)" and refs: "0 < outer_refs ?F" and t: "t_fiber s = Some m"
    using park at by (auto simp: parked_def Let_def live_def thread_at_def outer_refs_def)
  let ?s2 = "s\<lparr>fs_fibers := (fs_fibers s)
        [m := (fs_fibers s ! m)\<lparr>fb_ctx := Saved [Thread_code c]\<rparr>,
         f := ?F\<lparr>fb_state := EXEC, fb_ctx := Stale, fb_refs := Suc (outer_refs ?F)\<rparr>],
      t_fiber := Some f, fs_running := []\<rparr>"
  obtain l where catch: "MainFunc_catch env f ex ?s2 = MainFunc_end env f
      ((if is_std_exception ex then ?s2 else update_fiber f (\<lambda>fb. fb\<lparr>fb_state := EXECPT\<rparr>) ?s2)\<lparr>fs_log := l\<rparr>)"
    and fr: "log_frame (fs_log ?s2) l"
    by (rule catch_logs [of env ?s2 f ex]) (use log in simp)
  note run = fiber_run_add [of 2 1 env s, unfolded resume [OF ok at ne park]]
  note eval = fiber_step.simps live_def Let_def swapcontext_def update_fiber_def nth_list_update
    Fiber_SwapOut_def SetThis_def MainFunc_end_def release_def away_def
  have "fiber_run 3 env s = MainFunc_catch env f ex ?s2"
    using run by (simp add: fiber_step.simps) (cases "MainFunc_catch env f ex ?s2"; simp)
  also have "\<dots> = Ok ()
      ((away m f (if is_std_exception ex then EXEC else EXECPT) (Saved [MainFunc_left])
        (outer_refs ?F) c s)\<lparr>fs_log := l\<rparr>)"
    unfolding catch using f m thr refs ne ok t
    by (cases "is_std_exception ex") (simp_all add: eval list_update_swap [OF ne] fiber_update_order)
  finally show thesis using that fr by simp
qed

text \<open>
  C36: When a callback throws, \<open>SwapIn\<close> returns to the thread and the exception is logged. After a
  standard exception the fiber is left in state \<open>EXEC\<close> although it will never run again, and from
  then on resuming it, resetting it and giving up its last reference each abort the process; after
  any other exception it is in \<open>EXECPT\<close> and can be reset.
\<close>

theorem fiber_after_exception:
  assumes "fe_context_ok env" and "thread_at m (Do (Swap_in f) c) s" and "f \<noteq> m"
    and "parked env s f (Throws ex)" and "fb_stack (fs_fibers s ! f)"
    and "util_ready (fe_util env) (fs_log s)" and "fe_stack_need env \<le> fb_stacksize (fs_fibers s ! f)"
  shows "\<exists>t l. fiber_run 3 env s = Ok () t \<and> log_frame (fs_log s) l \<and>
    t = (away m f (if is_std_exception ex then EXEC else EXECPT) (Saved [MainFunc_left])
          (outer_refs (fs_fibers s ! f)) c s)\<lparr>fs_log := l\<rparr> \<and>
    (if is_std_exception ex then
       Fiber_SwapIn env f t = Crash (AssertFailed ''state_ != EXEC'') \<and>
       Fiber_Reset env f cb t =
         Crash (AssertFailed ''state_ == INIT || state_ == TERM || state_ == EXECPT'') \<and>
       (outer_refs (fs_fibers s ! f) = 1 \<longrightarrow> release env f t =
         Crash (AssertFailed ''state_ == INIT || state_ == TERM || state_ == EXECPT''))
     else
       \<exists>t'. Fiber_Reset env f (Some c') t = Ok () t' \<and> parked env t' f c')"
proof -
  let ?F = "fs_fibers s ! f"
  obtain l where run: "fiber_run 3 env s = Ok ()
      ((away m f (if is_std_exception ex then EXEC else EXECPT) (Saved [MainFunc_left]) (outer_refs ?F) c s)\<lparr>fs_log := l\<rparr>)"
    (is "_ = Ok () ?t") and fr: "log_frame (fs_log s) l"
    by (rule switch_and_throw [OF assms(1-4,6)])
  have f: "f < length (fs_fibers s)" and refs: "0 < outer_refs ?F"
    using assms(4) by (auto simp: parked_def Let_def live_def outer_refs_def)
  have F: "fs_fibers ?t ! f = ?F\<lparr>fb_state := (if is_std_exception ex then EXEC else EXECPT),
      fb_ctx := Saved [MainFunc_left], fb_refs := outer_refs ?F\<rparr>" and lf: "live ?t f"
    using f refs by (simp_all add: away_def live_def)
  have "fiber_ready env (SetThis (Some f) ?t)" "fiber_ready env ?t"
    "fiber_ready env ((update_fiber f g ?t)\<lparr>s_fiber_count := n\<rparr>)" for g n
    using util_ready_frame [OF fr assms(6)] by (simp_all add: fiber_ready_def fiber_simps)
  note fails = this [THEN fs_assert_fails(1)]
  have "Fiber_SwapIn env f ?t = Crash (AssertFailed ''state_ != EXEC'')"
    "Fiber_Reset env f cb ?t = Crash (AssertFailed ''state_ == INIT || state_ == TERM || state_ == EXECPT'')"
    if "is_std_exception ex"
    using that lf F fails assms(5) by (simp_all add: Fiber_SwapIn_def Fiber_Reset_def)
  moreover have "release env f ?t = Crash (AssertFailed ''state_ == INIT || state_ == TERM || state_ == EXECPT'')"
    if "is_std_exception ex" "outer_refs ?F = 1"
    using that lf F fails assms(5) f
    by (simp add: release_def destroy_Fiber_def Let_def fiber_simps away_def)
  moreover have "\<exists>t'. Fiber_Reset env f (Some c') ?t = Ok () t' \<and> parked env t' f c'"
    if "\<not> is_std_exception ex"
    using that lf F assms(1,5,7) f
    by (simp add: Fiber_Reset_def parked_def Let_def fiber_simps live_def away_def)
  ultimately show ?thesis using run fr by auto
qed

theorem fiber_after_exception_witness:
  "\<exists>t. fiber_run 3 example_fiber_env
       (example_fibers (Some (Throws (LogicError ''no''))) (swap_ins 1 1 Finish)) = Ok () t \<and>
     fs_running t = [Thread_code Finish] \<and> fb_state (fs_fibers t ! 1) = EXEC \<and>
     Fiber_SwapIn example_fiber_env 1 t = Crash (AssertFailed ''state_ != EXEC'') \<and>
     release example_fiber_env 1 t =
       Crash (AssertFailed ''state_ == INIT || state_ == TERM || state_ == EXECPT'')"
proof -
  let ?s = "example_fibers (Some (Throws (LogicError ''no''))) (swap_ins 1 1 Finish)"
  have "thread_at 0 (Do (Swap_in 1) Finish) ?s" "parked example_fiber_env ?s 1 (Throws (LogicError ''no''))"
    "outer_refs (fs_fibers ?s ! 1) = 1" "length (fs_fibers ?s) = 2"
    by (simp_all add: example_fibers_def parked_def thread_at_def live_def example_fiber_env_def outer_refs_def)
  with fiber_after_exception [of example_fiber_env 0 1 Finish ?s "LogicError ''no''" None Finish]
    example_fibers_parts example_fiber_ready
  show ?thesis by (auto simp: away_def)
qed

section \<open>Fibers that resume fibers\<close>

lemma runs_no_thread_code: "complete frs \<Longrightarrow> runs f frs \<Longrightarrow> Thread_code c \<notin> set frs"
  by (cases rule: complete_cases) (auto elim: is_code.elims)

lemma nested_swap_loses:
  assumes own: "own_inv [] s" and sw: "switch_inv s" and run: "fs_running s = [MainFunc_callback f c]"
    and swapin: "Fiber_SwapIn env g s = Ok u s1"
  shows "thread_lost s1"
proof -
  obtain m where m: "t_thread_fiber s = Some m"
    using swapin by (auto simp: Fiber_SwapIn_def and_then_Ok_iff fs_assert_Ok fiber_simps Let_def
        split: if_splits option.splits)
  have ml: "m < length (fs_fibers s)" using thread_fiber_live [OF own m] by (simp add: live_def)
  let ?s = "update_fiber m (\<lambda>fb. fb\<lparr>fb_ctx := Stale\<rparr>) s"
  have "Thread_code c' \<notin> ctx_frames (fb_ctx (fs_fibers s ! h))" if "h < length (fs_fibers s)" "h \<noteq> m" for h c'
  proof -
    have "ctx_ok s h" using sw that(1) by (simp add: switch_inv_def)
    with that(2) m show ?thesis
      by (cases "fb_ctx (fs_fibers s ! h)") (auto simp: ctx_ok_def dest: runs_no_thread_code)
  qed
  then have lost: "thread_lost ?s"
    using ml run by (simp add: thread_lost_def fiber_simps)
  let ?t = "update_fiber g (\<lambda>fb. fb\<lparr>fb_state := EXEC\<rparr>) (SetThis (Some g) s)"
  have live: "live s g" and swap: "swapcontext env m g ?t = Ok u s1"
    using swapin m by (auto simp: Fiber_SwapIn_def and_then_Ok_iff fs_assert_Ok fiber_simps Let_def
        split: if_splits)
  let ?t' = "update_fiber g (\<lambda>fb. fb\<lparr>fb_state := EXEC\<rparr>) (SetThis (Some g) ?s)"
  have "update_fiber m (\<lambda>fb. fb\<lparr>fb_ctx := Saved (fs_running ?t)\<rparr>) ?t =
      update_fiber m (\<lambda>fb. fb\<lparr>fb_ctx := Saved (fs_running ?t')\<rparr>) ?t'"
    using ml live by (cases "g = m")
      (auto simp: update_fiber_def SetThis_def live_def nth_list_update list_update_swap)
  then have "swapcontext env m g ?t' = Ok u s1"
    using swap by (simp add: swapcontext_def Let_def)
  moreover have "thread_lost ?t'"
    using thread_lost_SetThis [OF lost] by (rule thread_lost_update_fiber) simp
  ultimately show ?thesis
    using thread_lost_swapcontext [of ?t' m g env u s1] ml live by (simp add: live_def fiber_simps)
qed

text \<open>
  C37: \<open>SwapIn\<close> always saves the caller as the thread's own fiber. So once a callback resumes
  another fiber, the code of the thread itself never runs again, whatever the fibers do, and the
  thread never ends.
\<close>

theorem nested_SwapIn_loses_the_thread:
  assumes "fiber_reach env (fiber_start c0 stacksize l) s"
    and "fs_running s = [MainFunc_callback f (Do (Swap_in g) c)]"
    and "fiber_step env s = Ok () s1" and "fiber_reach env s1 t"
  shows "fs_running t \<noteq> [] \<and> (\<forall>c'. Thread_code c' \<notin> set (fs_running t))"
proof -
  have "thread_inv s" using assms(1) thread_inv_start by (rule thread_inv_reach)
  with assms(2) have own: "own_inv [] s" and sw: "switch_inv s" by (auto simp: thread_inv_def)
  let ?s = "s\<lparr>fs_running := [MainFunc_callback f c]\<rparr>"
  have "Fiber_SwapIn env g ?s = Ok () s1"
    using assms(2,3) by (simp add: fiber_step.simps)
  moreover have "own_inv [] ?s \<and> switch_inv ?s"
    by (rule thread_inv_code [OF own sw assms(2)]) simp_all
  ultimately have "thread_lost s1" by (auto intro: nested_swap_loses)
  moreover have "own_inv [] s1 \<and> switch_inv s1"
    using step_inv [OF own sw assms(3)] assms(2) by simp
  ultimately have "own_inv [] t \<and> switch_inv t \<and> thread_lost t"
    using thread_lost_reach [OF assms(4)] by simp
  then show ?thesis by (auto simp: thread_lost_def switch_inv_def)
qed

lemma list_update_Cons_numeral: "(x # xs)[numeral n := y] = x # xs[pred_numeral n := y]"
  by (simp add: numeral_eq_Suc)

text \<open>A callback that creates a fiber and resumes it: the thread never sees its end.\<close>

theorem nested_SwapIn_loses_the_thread_witness:
  "\<exists>s s1. fs_running s = [MainFunc_callback 1 (Do (Swap_in 2) Finish)] \<and>
     fiber_step example_fiber_env s = Ok () s1 \<and>
     (\<forall>t. fiber_reach example_fiber_env s1 t \<longrightarrow> fs_running t \<noteq> [])"
proof -
  let ?cb = "Do (New_fiber (Some Finish) 0) (Do (Swap_in 2) Finish)"
  let ?u = "example_fibers (Some ?cb) (Do (Swap_in 1) Finish)"
  let ?t = "?u\<lparr>
      fs_fibers := (fs_fibers ?u)
        [0 := (fs_fibers ?u ! 0)\<lparr>fb_ctx := Saved [Thread_code Finish]\<rparr>,
         1 := (fs_fibers ?u ! 1)\<lparr>fb_state := EXEC, fb_ctx := Stale, fb_refs := Suc (outer_refs (fs_fibers ?u ! 1))\<rparr>],
      t_fiber := Some 1, fs_running := [MainFunc_callback 1 ?cb]\<rparr>"
  have resumed: "fiber_run 2 example_fiber_env ?u = Ok () ?t"
    using example_fibers_parts by (intro resume) (simp_all add: parked_def)
  have "\<exists>s s1. fiber_step example_fiber_env ?t = Ok () s \<and>
      fs_running s = [MainFunc_callback 1 (Do (Swap_in 2) Finish)] \<and>
      fiber_step example_fiber_env s = Ok () s1"
    by (simp add: fiber_step.simps new_Fiber_def Let_def example_fiber_env_def example_fibers_def
        Fiber_SwapIn_def live_def fiber_simps swapcontext_def update_fiber_def list_update_Cons_numeral)
  then obtain s s1 where first: "fiber_step example_fiber_env ?t = Ok () s"
    and at: "fs_running s = [MainFunc_callback 1 (Do (Swap_in 2) Finish)]"
    and step: "fiber_step example_fiber_env s = Ok () s1" by blast
  have run: "fiber_run 3 example_fiber_env ?u = Ok () s"
    using fiber_run_add [of 2 1 example_fiber_env ?u, unfolded resumed] first by simp
  have "fiber_run (2 + 3) example_fiber_env
      (fiber_start (Do Get_this (Do (New_fiber (Some ?cb) 0) (Do (Swap_in 1) Finish))) 4096
        example_fiber_log) = Ok () s"
    by (simp only: fiber_run_add example_fibers_run and_then.simps run)
  from nested_SwapIn_loses_the_thread [OF fiber_run_reach [OF this] at step] at step
  show ?thesis by blast
qed

section \<open>Stack sizes\<close>

text \<open>
  C38: The size of a stack is a \<open>size_t\<close> for the caller and kept in 32 bits: a fiber gets its size
  modulo \<open>2 ^ 32\<close>. A size below that is kept; a multiple of it gives an empty stack, and the first
  \<open>SwapIn\<close> runs off it. Ids are given in order, modulo \<open>2 ^ 64\<close>.
\<close>

theorem stack_size_is_truncated:
  assumes "fe_context_ok env" and "fe_malloc_ok env (ucast sz)" and "sz \<noteq> 0"
    and "t_thread_fiber s = Some m" and "m < length (fs_fibers s)"
  shows "\<exists>f s'. new_Fiber env cb sz s = Ok f s' \<and>
    unat (fb_stacksize (fs_fibers s' ! f)) = unat sz mod 2 ^ 32 \<and>
    fb_id (fs_fibers s' ! f) = s_fiber_id s + 1 \<and> s_fiber_id s' = s_fiber_id s + 1 \<and>
    (unat sz < 2 ^ 32 \<longrightarrow> unat (fb_stacksize (fs_fibers s' ! f)) = unat sz) \<and>
    (2 ^ 32 dvd unat sz \<longrightarrow> 0 < fe_stack_need env \<longrightarrow> Fiber_SwapIn env f s' = Crash StackOverflow)"
proof -
  let ?f = "length (fs_fibers s)"
  let ?n = "ucast sz :: 32 word"
  let ?s = "s\<lparr>s_fiber_id := s_fiber_id s + 1, s_fiber_count := s_fiber_count s + 1,
      fs_fibers := fs_fibers s @ [\<lparr>fb_id = s_fiber_id s + 1, fb_stacksize = ?n, fb_state = INIT,
        fb_ctx = Entry, fb_stack = True, fb_cb = cb, fb_refs = 1\<rparr>]\<rparr>"
  have new: "new_Fiber env cb sz s = Ok ?f ?s"
    using assms(1-3) by (simp add: new_Fiber_def Let_def)
  have n: "unat ?n = unat sz mod 2 ^ 32"
    by (simp add: take_bit_eq_mod unsigned_ucast_eq)
  have "Fiber_SwapIn env ?f ?s = Crash StackOverflow"
    if "2 ^ 32 dvd unat sz" "0 < fe_stack_need env"
  proof -
    have "unat ?n = 0" using n that(1) by simp
    then have "?n = 0" by (simp only: unat_eq_zero)
    with that(2) assms(1,4,5) show ?thesis
      by (simp add: Fiber_SwapIn_def live_def fiber_simps swapcontext_def update_fiber_def nth_append
          nth_list_update)
  qed
  with new n show ?thesis by simp
qed

theorem stack_size_is_truncated_witness:
  "\<exists>f s'. new_Fiber example_fiber_env (Some Finish) 0x100000000 (example_fibers None Finish) = Ok f s' \<and>
     unat (fb_stacksize (fs_fibers s' ! f)) = 0 \<and>
     Fiber_SwapIn example_fiber_env f s' = Crash StackOverflow"
proof -
  have "fe_malloc_ok example_fiber_env (ucast (0x100000000 :: 64 word))" "fe_context_ok example_fiber_env"
    "0 < fe_stack_need example_fiber_env" "t_thread_fiber (example_fibers None Finish) = Some 0"
    "0 < length (fs_fibers (example_fibers None Finish))"
    by (simp_all add: example_fiber_env_def example_fibers_def)
  with stack_size_is_truncated [of example_fiber_env "0x100000000" "example_fibers None Finish" 0 "Some Finish"]
  show ?thesis by auto
qed

end
