(* ===== verification/Configured_Logging.thy ===== *)
theory Configured_Logging
  imports Startup Fiber_Properties
begin

text \<open>
  From the start of the library over a document to the records: a logger that a document defines
  writes its records to the files and to standard output as the document says. Further, the round
  trip of the variable \<open>logs\<close> between processes, and the stack size of fibers.
\<close>

section \<open>A configured logger\<close>

text \<open>
  The text of a record for the appender that \<open>d\<close> defines, in a logger with formatter \<open>f\<close>: in the
  format of the definition if it has a valid one, in that of the logger otherwise.
\<close>

definition define_text ::
  "log_env \<Rightarrow> log_sys \<Rightarrow> log_formatter \<Rightarrow> log_event \<Rightarrow> log_appender_define \<Rightarrow> string"
where
  "define_text env t f e d =
     (let g = (if lad_formatter d \<noteq> [] \<and> \<not> fmt_error (new_LogFormatter (lad_formatter d))
               then new_LogFormatter (lad_formatter d) else f)
      in concat (the (item_texts (env_time_text env) (logger_name t) e (fmt_items g))))"

text \<open>What the appenders of the definition \<open>i\<close> write to standard output and to the file \<open>fn\<close>.\<close>

definition defined_cout :: "log_env \<Rightarrow> log_sys \<Rightarrow> log_formatter \<Rightarrow> log_event \<Rightarrow> log_define \<Rightarrow> string" where
  "defined_cout env t f e i =
     concat (map (define_text env t f e) (filter (\<lambda>d. lad_type d = 2) (ld_appenders i)))"

definition defined_file ::
  "log_env \<Rightarrow> log_sys \<Rightarrow> log_formatter \<Rightarrow> log_event \<Rightarrow> log_define \<Rightarrow> string \<Rightarrow> string"
where
  "defined_file env t f e i fn =
     concat (map (define_text env t f e)
       (filter (\<lambda>d. lad_type d = 1 \<and> lad_file d = fn) (ld_appenders i)))"

lemma realizes_file_of:
  "realizes (appenders t ! a) d f \<Longrightarrow> file_of t a = (if lad_type d = 1 then Some (lad_file d) else None)"
  by (auto simp: realizes_def file_of_def split: appender_class.splits)

lemma realizes_text:
  "realizes (appenders t ! a) d (Some f) \<Longrightarrow> record_text env t a e = define_text env t f e d"
  by (simp add: realizes_def record_text_def record_texts_def define_text_def Let_def)

lemma sent_as_defined:
  assumes "list_all2 (\<lambda>a d. a < length (appenders t) \<and> realizes (appenders t ! a) d (Some f)) as ds"
    and "\<forall>d \<in> set ds. known_type d"
  shows "sent_to env t None as e = concat (map (define_text env t f e) (filter (\<lambda>d. lad_type d = 2) ds)) \<and>
    sent_to env t (Some fn) as e =
      concat (map (define_text env t f e) (filter (\<lambda>d. lad_type d = 1 \<and> lad_file d = fn) ds))"
  using assms
proof (induction rule: list_all2_induct)
  case (Cons a as d ds)
  then have r: "realizes (appenders t ! a) d (Some f)" and d: "known_type d" by simp_all
  from Cons d show ?case
    by (auto simp: known_type_def realizes_file_of [OF r] realizes_text [OF r])
qed simp

lemma installed_logger_writes:
  assumes wf: "wf_sys t" and ok: "streams_ok t" and rel: "reliable env" and i: "installed t i"
    and some: "list_ex known_type (ld_appenders i)"
  shows "\<exists>l f. map_find string_lt (ld_name i) (mgr_loggers t) = Some l \<and> lg_level (loggers t ! l) = ld_level i \<and>
    (if ld_formatter i \<noteq> [] \<and> \<not> fmt_error (new_LogFormatter (ld_formatter i))
     then f = new_LogFormatter (ld_formatter i) else lg_formatter (loggers t ! l) = Some f) \<and>
    (\<forall>lvl e. ev_logger e < length (loggers t) \<longrightarrow>
      (\<exists>u. Logger_Log env [] l lvl e t = Ok () u \<and> cout u = cout t @ defined_cout env t f e i \<and>
        (\<forall>fn. files u fn = files t fn @ defined_file env t f e i fn)))"
proof -
  obtain l where l: "map_find string_lt (ld_name i) (mgr_loggers t) = Some l" "logger_realizes t l i"
    using i by (auto simp: installed_def)
  have len: "l < length (loggers t)" using wf_sys_registered(1) [OF wf l(1)] .
  obtain f where f: "lg_formatter (loggers t ! l) = Some f"
    using wf_sys_logger [OF wf len] by (auto simp: logger_ok_def)
  let ?as = "lg_appenders (loggers t ! l)" and ?ds = "filter known_type (ld_appenders i)"
  have all: "list_all2 (\<lambda>a d. a < length (appenders t) \<and> realizes (appenders t ! a) d (Some f)) ?as ?ds"
    using l(2) f by (simp add: logger_realizes_def)
  have "?ds \<noteq> []" using some by (auto simp: list_ex_iff filter_empty_conv)
  then have ne: "?as \<noteq> []" using all by auto
  then have eff: "effective_appenders t l = ?as" by (simp add: effective_appenders_def)
  have types: "known_type d \<and> lad_type d = 2 \<longleftrightarrow> lad_type d = 2"
    "known_type d \<and> lad_type d = 1 \<and> lad_file d = fn \<longleftrightarrow> lad_type d = 1 \<and> lad_file d = fn" for d fn
    by (auto simp: known_type_def)
  have sent: "sent_to env t None ?as e = defined_cout env t f e i"
    "sent_to env t (Some fn) ?as e = defined_file env t f e i fn" for e fn
    using sent_as_defined [OF all, of env e fn] by (simp_all add: types defined_cout_def defined_file_def)
  have "\<exists>u. Logger_Log env [] l lvl e t = Ok () u \<and> cout u = cout t @ defined_cout env t f e i \<and>
      (\<forall>fn. files u fn = files t fn @ defined_file env t f e i fn)" if "ev_logger e < length (loggers t)" for lvl e
    using Logger_Log_deliver [OF wf len that _ ok rel, of lvl] ne by (auto simp: eff sent)
  with l f show ?thesis by (intro exI [of _ l] exI [of _ f]) (auto simp: logger_realizes_def)
qed

text \<open>
  C4: From the start to the file. Start the library, its source files in any order, and load a
  document that has the member \<open>logs\<close> once, with definitions that can be read, and no other
  variable; opening and writing files succeed. Then every logger that the document defines with at
  least one appender is registered, has its level and format, and whatever record is logged to
  it is written once by each of its appenders, in their order and in their formats: to standard
  output, to the streams of the files that the document names, and to nothing else.
\<close>

theorem configured_library_logs:
  assumes order: "distinct order" "set order = UNIV" and rel: "reliable (senv_log env)"
    and doc: "depth_ok lib fuel root" "dotted lib fuel [] root = pre @ (''logs'', node) # post"
    and others: "\<forall>it \<in> set (pre @ post). fst it \<noteq> ''logs'' \<and> fst it \<noteq> ''fiber.stacksize''"
    and node: "\<not> y_is_scalar lib node"
    and defs: "set_from_string lib LogDefine_lt (LogDefine_from_string lib) (y_emit lib node) = (out, Inr new)"
    and i: "i \<in> set new" "list_ex known_type (ld_appenders i)"
  shows "\<exists>p s t l f. start_library (zcs_env env lib) order (before_start l0 g) = Ok () p \<and>
    Config_LoadFromYaml (zcs_env env lib) lib fuel root (pr_cfg p) = Ok () s \<and> t = cfg_log s \<and> wf_sys t \<and>
    map_find string_lt (ld_name i) (mgr_loggers t) = Some l \<and> lg_level (loggers t ! l) = ld_level i \<and>
    (if ld_formatter i \<noteq> [] \<and> \<not> fmt_error (new_LogFormatter (ld_formatter i))
     then f = new_LogFormatter (ld_formatter i) else lg_formatter (loggers t ! l) = Some f) \<and>
    (\<forall>lvl e. ev_logger e < length (loggers t) \<longrightarrow>
      (\<exists>u. Logger_Log (senv_log env) [] l lvl e t = Ok () u \<and>
        cout u = cout t @ defined_cout (senv_log env) t f e i \<and>
        (\<forall>fn. files u fn = files t fn @ defined_file (senv_log env) t f e i fn)))"
proof -
  obtain p where run: "start_library (zcs_env env lib) order (before_start l0 g) = Ok () p"
    and p: "started_files UNIV p"
    using init_files_started [OF started_before order(1), of "zcs_env env lib" l0 g] order(2)
    by (auto simp: start_library_def)
  from started_all(1) [OF p] obtain a b where s: "config_inv zcs_typing (pr_cfg p)" "vars_unlocked (pr_cfg p)"
    "cfg_datas (pr_cfg p) = [''logs'' \<mapsto> a, ''fiber.stacksize'' \<mapsto> b]" "cfg_vars (pr_cfg p) ! a = logs_var" by blast
  have a: "cfg_datas (pr_cfg p) ''logs'' = Some a" "cv_val (cfg_vars (pr_cfg p) ! a) = Logs_value []"
    "cv_cbs (cfg_vars (pr_cfg p) ! a) = [(1, 0)]" "sorted_wrt LogDefine_lt []"
    by (simp_all add: s logs_var_def new_ConfigVar_def)
  have none: "\<forall>it \<in> set (pre @ post). fst it = [] \<or> cfg_datas (pr_cfg p) (fst it) = None"
    using others by (auto simp: s(3))
  from load_document_logs [OF s(1,2) started_registered [OF p] a doc none node defs, of env] rel started_all(3) [OF p]
  obtain t where t: "Config_LoadFromYaml (zcs_env env lib) lib fuel root (pr_cfg p) =
      Ok () ((update_var a (\<lambda>cv. cv\<lparr>cv_val := Logs_value new\<rparr>) (pr_cfg p))\<lparr>cfg_log := t\<rparr>)"
    "reconfigured [] new t" "streams_ok t" by auto
  have "wf_sys t" "installed t i" using t(2) i(1) by (simp_all add: reconfigured_def)
  from installed_logger_writes [OF this(1) t(3) rel this(2) i(2)] run t(1) \<open>wf_sys t\<close> show ?thesis by fastforce
qed


text \<open>The document of \<open>Startup\<close>, and a record for the logger \<open>net\<close>, which has one file appender.\<close>

theorem configured_library_logs_witness:
  "\<exists>p s l f e u. start_library (zcs_env example_start_env tree_lib)
      [Fiber_cpp, Log_cpp, Thread_cpp, Config_cpp, Util_cpp, Thread_pool_cpp] (before_start example_log 7) = Ok () p \<and>
    Config_LoadFromYaml (zcs_env example_start_env tree_lib) tree_lib 3 example_document (pr_cfg p) = Ok () s \<and>
    map_find string_lt ''net'' (mgr_loggers (cfg_log s)) = Some l \<and> ev_ss e = ''hello'' \<and>
    Logger_Log (senv_log example_start_env) [] l WARN e (cfg_log s) = Ok () u \<and>
    cout u = cout (cfg_log s) \<and> files u ''other.log'' = files (cfg_log s) ''other.log'' \<and>
    files u ''net.log'' = files (cfg_log s) ''net.log'' @
      define_text (senv_log example_start_env) (cfg_log s) f e (hd (ld_appenders example_net))"
proof -
  let ?env = "senv_log example_start_env"
  let ?e = "(new_LogEvent ?env 0 WARN 1 7)\<lparr>ev_ss := ''hello''\<rparr>"
  have rel: "reliable ?env" by (simp add: reliable_def example_start_env_def example_env_def)
  have some: "list_ex known_type (ld_appenders example_net)" by (simp add: example_net_def known_type_def)
  have sc: "\<not> y_is_scalar tree_lib (Seq ns)" for ns by (simp add: tree_lib_def)
  from configured_library_logs [OF all_source_files rel conjunct1 [OF example_document_members]
      conjunct2 [OF example_document_members] _ sc example_document_defines [folded tree_lib_fields(2)] _ some,
      of example_log 7]
  obtain p s l f where run: "start_library (zcs_env example_start_env tree_lib)
      [Fiber_cpp, Log_cpp, Thread_cpp, Config_cpp, Util_cpp, Thread_pool_cpp] (before_start example_log 7) = Ok () p"
    "Config_LoadFromYaml (zcs_env example_start_env tree_lib) tree_lib 3 example_document (pr_cfg p) = Ok () s"
    and wf: "wf_sys (cfg_log s)" and l: "map_find string_lt (ld_name example_net) (mgr_loggers (cfg_log s)) = Some l"
    and out: "\<And>lvl e. ev_logger e < length (loggers (cfg_log s)) \<Longrightarrow> \<exists>u. Logger_Log ?env [] l lvl e (cfg_log s) = Ok () u \<and>
      cout u = cout (cfg_log s) @ defined_cout ?env (cfg_log s) f e example_net \<and>
      (\<forall>fn. files u fn = files (cfg_log s) fn @ defined_file ?env (cfg_log s) f e example_net fn)"
    by (simp only: list.set append_Cons append_Nil ball_simps) fastforce
  have "0 < length (loggers (cfg_log s))" using wf_sys_root [OF wf] by linarith
  then have "ev_logger ?e < length (loggers (cfg_log s))" by (simp add: new_LogEvent_def)
  from out [OF this, of WARN] obtain u where u: "Logger_Log ?env [] l WARN ?e (cfg_log s) = Ok () u"
    "cout u = cout (cfg_log s) @ defined_cout ?env (cfg_log s) f ?e example_net"
    "\<forall>fn. files u fn = files (cfg_log s) fn @ defined_file ?env (cfg_log s) f ?e example_net fn" by blast
  have "cout u = cout (cfg_log s)" "files u ''other.log'' = files (cfg_log s) ''other.log''"
    "files u ''net.log'' = files (cfg_log s) ''net.log'' @
      define_text ?env (cfg_log s) f ?e (hd (ld_appenders example_net))"
    using u(2,3) by (simp_all add: defined_cout_def defined_file_def example_net_def)
  moreover have "map_find string_lt ''net'' (mgr_loggers (cfg_log s)) = Some l" using l by (simp add: example_net_def)
  moreover have "ev_ss ?e = ''hello''" by simp
  ultimately show ?thesis using run u(1) by blast
qed


section \<open>The definitions from one process to another\<close>

lemma set_from_string_load:
  assumes "yaml_laws lib" and "y_load lib str = Inr n"
  shows "set_from_string lib lt dec str = set_from_string lib lt dec (y_emit lib n)"
  using assms by (simp add: set_from_string_def seq_from_string_def yaml_load_def yaml_laws_def)

text \<open>
  C33: The logger definitions survive the way through a text. What \<open>ToString\<close> makes of the variable
  \<open>logs\<close> in one process, \<open>FromString\<close> accepts in any process whose library has started: the
  variable there gets the definitions, nothing but the variable and the log changes, and the
  loggers there are brought in line with them. (As in the round trip of the casts, appenders must
  have no settings of their own that the casts do not write.)
\<close>

theorem logs_variable_roundtrip:
  assumes laws: "yaml_laws lib"
    and keeps: "\<forall>ld \<in> set lds. \<forall>i \<in> set (ld_appenders ld). storable_appender i"
    and s: "config_inv zcs_typing s" "cfg_datas s ''logs'' = Some a" "cv_val (cfg_vars s ! a) = Logs_value lds"
      "sorted_wrt LogDefine_lt lds"
    and u: "config_inv zcs_typing u" "vars_unlocked u" "cfg_datas u ''logs'' = Some b"
      "cv_val (cfg_vars u ! b) = Logs_value old" "cv_cbs (cfg_vars u ! b) = [(fid, 0)]" "sorted_wrt LogDefine_lt old"
  shows "\<exists>str l. ConfigVar_ToString (zcs_env env lib) a s = Ok str s \<and>
    ConfigVar_FromString (zcs_env env lib) b str u =
      Ok True ((update_var b (\<lambda>cv. cv\<lparr>cv_val := Logs_value lds\<rparr>) u)\<lparr>cfg_log := l\<rparr>) \<and>
    reconfigured old lds l"
proof -
  obtain str n where str: "set_to_string lib (LogDefine_to_string lib) lds = ([], Inr str)"
    and n: "y_load lib str = Inr n"
      "set_from_string lib LogDefine_lt (LogDefine_from_string lib) (y_emit lib n) = ([], Inr lds)"
    using log_config_roundtrip [OF laws s(4) keeps] by (auto simp: casts_back_def split: prod.splits sum.splits)
  note read = trans [OF set_from_string_load [OF laws n(1)] n(2)]
  have a: "a < length (cfg_vars s)" "cv_type (cfg_vars s ! a) = T_logs"
    using s(1,2) by (auto simp: config_inv_def zcs_typing_def)
  have b: "b < length (cfg_vars u)" "cv_type (cfg_vars u ! b) = T_logs" "log_ready (cfg_log u)"
    using u(1,3) by (auto simp: config_inv_def zcs_typing_def)
  have "cv_readers (cfg_vars u ! b) = 0" using u(2) b(1) by (simp add: vars_unlocked_def list_all_length)
  from SetValue_logs [OF b(3,1,2) u(4,5) this u(6) s(4), of env lib]
  obtain l where "ConfigVar_SetValue (zcs_env env lib) b (Logs_value lds) u =
      Ok () ((update_var b (\<lambda>cv. cv\<lparr>cv_val := Logs_value lds\<rparr>) u)\<lparr>cfg_log := l\<rparr>)" "reconfigured old lds l" by blast
  moreover have "ConfigVar_ToString (zcs_env env lib) a s = Ok str s"
    using a s(3) str by (simp add: ConfigVar_ToString_def zcs_env_def zcs_class_def Let_def)
  ultimately show ?thesis
    using b read by (auto simp: ConfigVar_FromString_def zcs_env_def zcs_class_def Let_def)
qed


text \<open>One process stores what the other, which has just started, then reads.\<close>

theorem logs_variable_roundtrip_witness:
  "\<exists>p s a str l. start_library (zcs_env example_start_env tree_lib)
      [Fiber_cpp, Log_cpp, Thread_cpp, Config_cpp, Util_cpp, Thread_pool_cpp] (before_start example_log 7) = Ok () p \<and>
    s = update_var a (\<lambda>cv. cv\<lparr>cv_val := Logs_value example_defines\<rparr>) (pr_cfg p) \<and>
    cfg_datas s ''logs'' = Some a \<and>
    ConfigVar_ToString (zcs_env example_start_env tree_lib) a s = Ok str s \<and>
    ConfigVar_FromString (zcs_env example_start_env tree_lib) a str (pr_cfg p) = Ok True (s\<lparr>cfg_log := l\<rparr>) \<and>
    reconfigured [] example_defines l"
proof -
  let ?env = "zcs_env example_start_env tree_lib"
  obtain p where p: "start_library ?env [Fiber_cpp, Log_cpp, Thread_cpp, Config_cpp, Util_cpp, Thread_pool_cpp]
      (before_start example_log 7) = Ok () p" "started_files UNIV p"
    using init_files_started [OF started_before all_source_files(1), of ?env example_log 7] all_source_files(2)
    by (auto simp: start_library_def)
  from started_all(1) [OF p(2)] obtain a b where u: "config_inv zcs_typing (pr_cfg p)" "vars_unlocked (pr_cfg p)"
    "cfg_datas (pr_cfg p) = [''logs'' \<mapsto> a, ''fiber.stacksize'' \<mapsto> b]" "cfg_vars (pr_cfg p) ! a = logs_var" by blast
  let ?s = "update_var a (\<lambda>cv. cv\<lparr>cv_val := Logs_value example_defines\<rparr>) (pr_cfg p)"
  have a: "cfg_datas (pr_cfg p) ''logs'' = Some a" "cfg_datas ?s ''logs'' = Some a"
    by (simp_all add: u(3) update_var_def)
  have vars: "cfg_vars ?s = (cfg_vars (pr_cfg p))[a := (cfg_vars (pr_cfg p) ! a)\<lparr>cv_val := Logs_value example_defines\<rparr>]"
    and rest: "cfg_log ?s = cfg_log (pr_cfg p)" "cfg_readers ?s = cfg_readers (pr_cfg p)"
      "cfg_datas ?s = cfg_datas (pr_cfg p)" by (simp_all add: update_var_def)
  have len: "a < length (cfg_vars (pr_cfg p))" using u(1) a(1) by (auto simp: config_inv_def)
  have "cv_name (cfg_vars ?s ! j) = cv_name (cfg_vars (pr_cfg p) ! j)"
    "cv_type (cfg_vars ?s ! j) = cv_type (cfg_vars (pr_cfg p) ! j)" for j
    using len by (cases "j = a"; simp add: vars)+
  then have inv: "config_inv zcs_typing ?s"
    using u(1) by (simp add: config_inv_def rest) (simp add: vars)
  have val: "cv_val (cfg_vars ?s ! a) = Logs_value example_defines" using len by (simp add: vars)
  have now: "cv_val (cfg_vars (pr_cfg p) ! a) = Logs_value []" "cv_cbs (cfg_vars (pr_cfg p) ! a) = [(1, 0)]"
    by (simp_all add: u(4) logs_var_def new_ConfigVar_def)
  have ex: "sorted_wrt LogDefine_lt example_defines"
    "\<forall>ld \<in> set example_defines. \<forall>i \<in> set (ld_appenders ld). storable_appender i"
    by (simp_all add: example_defines_def LogDefine_lt_def string_lt_def storable_appender_def new_lad_def)
  have "sorted_wrt LogDefine_lt []" by simp
  from logs_variable_roundtrip [OF tree_laws ex(2) inv a(2) val ex(1) u(1,2) a(1) now this, of example_start_env]
    p(1) a(2) show ?thesis by blast
qed


section \<open>The stack size of fibers\<close>

text \<open>
  \<open>g_conig_fiber_stacksize->GetValue()\<close> of \<open>fiber.cpp\<close>: the field \<open>fs_stacksize\<close> of the fibers
  of a thread is the value of the variable.
\<close>

definition with_config :: "nat \<Rightarrow> zcs_value config_sys \<Rightarrow> fiber_sys \<Rightarrow> fiber_sys" where
  "with_config b s q =
     (case ConfigVar_GetValue b s of
        Ok (Stacksize_value n) s1 \<Rightarrow> q\<lparr>fs_stacksize := n\<rparr>
      | _ \<Rightarrow> q)"

lemma load_entry_stacksize:
  assumes inv: "config_inv zcs_typing s" and free: "vars_unlocked s"
    and b: "cfg_datas s ''fiber.stacksize'' = Some b" and var: "cv_val (cfg_vars s ! b) = Stacksize_value old"
      "cv_cbs (cfg_vars s ! b) = []"
    and node: "y_is_scalar lib node" "y_scalar lib node = Inr str" and num: "senv_uint32_from env str = Inr n"
  shows "load_entry (zcs_env env lib) lib (''fiber.stacksize'', node) s =
    Ok () (update_var b (\<lambda>cv. cv\<lparr>cv_val := Stacksize_value n\<rparr>) s)"
proof -
  have len: "b < length (cfg_vars s)" and ty: "cv_type (cfg_vars s ! b) = T_uint32"
    using inv b by (auto simp: config_inv_def zcs_typing_def)
  have low: "map tolower_char ''fiber.stacksize'' = ''fiber.stacksize''" by (simp add: tolower_char_def)
  have "cv_readers (cfg_vars s ! b) = 0" using free len by (simp add: vars_unlocked_def list_all_length)
  then have "ConfigVar_SetValue (zcs_env env lib) b (Stacksize_value n) s =
      Ok () (update_var b (\<lambda>cv. cv\<lparr>cv_val := Stacksize_value n\<rparr>) s)"
    using len ty var
    by (auto simp: ConfigVar_SetValue_def zcs_env_def zcs_class_def Let_def cfg_simps with_wrlock_def
        intro: update_var_same [symmetric])
  then show ?thesis
    using b low node num len ty
    by (simp add: load_entry_def Config_LookUpBase_def ConfigVar_FromString_def zcs_env_def zcs_class_def Let_def
        LexicalCast_def)
qed

text \<open>
  C34: The document decides the stack size of fibers. Start the library, its source files in any
  order, and load a document that has the member \<open>fiber.stacksize\<close> once, with a text that
  \<open>boost::lexical_cast\<close> reads as the number \<open>n\<close>, and no other variable. Loading returns, and nothing
  changes but that variable and the log. A fiber that is constructed after that without a size of
  its own has a stack of \<open>n\<close> bytes; before, it would have had 1 MB.
\<close>

theorem document_sets_stacksize:
  assumes order: "distinct order" "set order = UNIV" and ctx: "fe_context_ok fenv"
    and doc: "depth_ok lib fuel root" "dotted lib fuel [] root = pre @ (''fiber.stacksize'', node) # post"
    and others: "\<forall>it \<in> set (pre @ post). fst it \<noteq> ''logs'' \<and> fst it \<noteq> ''fiber.stacksize''"
    and node: "y_is_scalar lib node" "y_scalar lib node = Inr str" and num: "senv_uint32_from env str = Inr n"
  shows "\<exists>p s b l f u v. start_library (zcs_env env lib) order (before_start l0 g) = Ok () p \<and>
    Config_LoadFromYaml (zcs_env env lib) lib fuel root (pr_cfg p) = Ok () s \<and>
    cfg_datas s ''fiber.stacksize'' = Some b \<and>
    s = (update_var b (\<lambda>cv. cv\<lparr>cv_val := Stacksize_value n\<rparr>) (pr_cfg p))\<lparr>cfg_log := l\<rparr> \<and>
    new_Fiber fenv cb 0 (with_config b (pr_cfg p) q) = Ok f u \<and> fb_stacksize (fs_fibers u ! f) = 1024 * 1024 \<and>
    new_Fiber fenv cb 0 (with_config b s q) = Ok f v \<and> fb_stacksize (fs_fibers v ! f) = n"
proof -
  let ?set = "\<lambda>b. update_var b (\<lambda>cv. cv\<lparr>cv_val := Stacksize_value n\<rparr>)"
  obtain p where run: "start_library (zcs_env env lib) order (before_start l0 g) = Ok () p"
    and p: "started_files UNIV p"
    using init_files_started [OF started_before order(1), of "zcs_env env lib" l0 g] order(2)
    by (auto simp: start_library_def)
  from started_all(1) [OF p] obtain a b where s: "config_inv zcs_typing (pr_cfg p)" "vars_unlocked (pr_cfg p)"
    "cfg_datas (pr_cfg p) = [''logs'' \<mapsto> a, ''fiber.stacksize'' \<mapsto> b]" "cfg_vars (pr_cfg p) ! b = stacksize_var" by blast
  have b: "cfg_datas (pr_cfg p) ''fiber.stacksize'' = Some b" by (simp add: s(3))
  have var: "cv_val (cfg_vars (pr_cfg p) ! b) = Stacksize_value (1024 * 1024)" "cv_cbs (cfg_vars (pr_cfg p) ! b) = []"
    by (simp_all add: s(4) stacksize_var_def new_ConfigVar_def)
  have len: "b < length (cfg_vars (pr_cfg p))" using s(1) b by (auto simp: config_inv_def)
  have ready: "log_ready (cfg_log (pr_cfg p))" using s(1) by (simp add: config_inv_def)
  from ListAllMember_dotted [OF doc(1) ready started_registered [OF p], of "zcs_env env lib" "[]" "[]"]
  obtain t where t: "ListAllMember (zcs_env env lib) lib fuel [] root ([], pr_cfg p) =
      Ok () (pre @ (''fiber.stacksize'', node) # post, t)" "log_step (pr_cfg p) t" by (auto simp: doc(2))
  note keep = log_step_fields [OF t(2)]
  have eq: "t = (pr_cfg p)\<lparr>cfg_log := cfg_log t\<rparr>" using t(2) unfolding log_step_def by (rule conjunct1)
  have low: "map tolower_char (fst it) = fst it" if "it \<in> set (pre @ post)" for it
    using dotted_lower [of "fst it" "snd it" lib fuel "[]" root] that by (auto simp: doc(2))
  have loads: "for_each (load_entry (zcs_env env lib) lib) es u = Ok () u"
    if "set es \<subseteq> set (pre @ post)" "cfg_datas u = cfg_datas (pr_cfg p)" for es u
    using that low others by (intro load_unregistered) (auto simp: s(3))
  have "config_inv zcs_typing t" "vars_unlocked t"
    using config_inv_log_step [OF t(2) s(1)] s(2) by (simp_all add: vars_unlocked_def keep)
  from load_entry_stacksize [OF this, unfolded keep, OF b var node num]
  have "load_entry (zcs_env env lib) lib (''fiber.stacksize'', node) t = Ok () (?set b t)" .
  moreover have "for_each (load_entry (zcs_env env lib) lib) pre t = Ok () t"
    "for_each (load_entry (zcs_env env lib) lib) post (?set b t) = Ok () (?set b t)"
    by (intro loads; simp add: keep update_var_def)+
  moreover have set: "?set b t = (?set b (pr_cfg p))\<lparr>cfg_log := cfg_log t\<rparr>"
    by (subst eq) (simp add: update_var_cfg_log)
  ultimately have load: "Config_LoadFromYaml (zcs_env env lib) lib fuel root (pr_cfg p) =
      Ok () ((?set b (pr_cfg p))\<lparr>cfg_log := cfg_log t\<rparr>)"
    by (simp add: Config_LoadFromYaml_def t(1) for_each_append)
  let ?s = "(?set b (pr_cfg p))\<lparr>cfg_log := cfg_log t\<rparr>"
  have now: "cfg_datas ?s ''fiber.stacksize'' = Some b"
    "ConfigVar_GetValue b (pr_cfg p) = Ok (Stacksize_value (1024 * 1024)) (pr_cfg p)"
    "ConfigVar_GetValue b ?s = Ok (Stacksize_value n) ?s"
    using b len var(1) by (simp_all add: ConfigVar_GetValue_def update_var_def)
  have fiber: "\<exists>u. new_Fiber fenv cb 0 (q\<lparr>fs_stacksize := m\<rparr>) = Ok (length (fs_fibers q)) u \<and>
      fb_stacksize (fs_fibers u ! length (fs_fibers q)) = m" for m
    using ctx by (simp add: new_Fiber_def fs_assert2_def Let_def)
  have "with_config b (pr_cfg p) q = q\<lparr>fs_stacksize := 1024 * 1024\<rparr>" "with_config b ?s q = q\<lparr>fs_stacksize := n\<rparr>"
    by (simp_all only: with_config_def now zcs_value.case result.case)
  with fiber [of "1024 * 1024"] fiber [of n] run load now(1) show ?thesis by metis
qed

text \<open>A document that asks for 64 KB.\<close>

theorem document_sets_stacksize_witness:
  "\<exists>p s b f u. start_library (zcs_env (example_start_env\<lparr>senv_uint32_from := (\<lambda>str. Inr 65536)\<rparr>) tree_lib)
      [Fiber_cpp, Log_cpp, Thread_cpp, Config_cpp, Util_cpp, Thread_pool_cpp] (before_start example_log 7) = Ok () p \<and>
    Config_LoadFromYaml (zcs_env (example_start_env\<lparr>senv_uint32_from := (\<lambda>str. Inr 65536)\<rparr>) tree_lib) tree_lib 3
      (Map [(Scalar ''fiber'', Map [(Scalar ''stacksize'', Scalar ''65536'')])]) (pr_cfg p) = Ok () s \<and>
    new_Fiber example_fiber_env None 0 (with_config b s (example_fibers None Finish)) = Ok f u \<and>
    fb_stacksize (fs_fibers u ! f) = 65536"
proof -
  let ?env = "example_start_env\<lparr>senv_uint32_from := (\<lambda>str. Inr 65536)\<rparr>"
  let ?doc = "Map [(Scalar ''fiber'', Map [(Scalar ''stacksize'', Scalar ''65536'')])]"
  have doc: "depth_ok tree_lib 3 ?doc"
    "dotted tree_lib 3 [] ?doc = [([], ?doc), (''fiber'', Map [(Scalar ''stacksize'', Scalar ''65536'')])] @
       (''fiber.stacksize'', Scalar ''65536'') # []"
    by (simp_all add: eval_nat_numeral has_char_not_of_def member_chars_def join_path_def tree_lib_def)
  have node: "y_is_scalar tree_lib (Scalar ''65536'')" "y_scalar tree_lib (Scalar ''65536'') = Inr ''65536''"
    by (simp_all add: tree_lib_def)
  have num: "senv_uint32_from ?env ''65536'' = Inr 65536" and ctx: "fe_context_ok example_fiber_env"
    by (simp_all add: example_fiber_env_def)
  from document_sets_stacksize [OF all_source_files ctx doc _ node num, of example_log 7 None "example_fibers None Finish"]
  show ?thesis by (simp only: list.set append_Cons append_Nil ball_simps) fastforce
qed

end
