(* ===== verification/Lock_Properties.thy ===== *)
theory Lock_Properties
  imports Locks
begin

text \<open>
  What the locks of \<open>src/src/mutex.h\<close> give threads that use them through scoped locks: mutual
  exclusion, and an end of every run.
\<close>

section \<open>Exclusion\<close>

text \<open>
  Whatever the threads call, in any interleaving, the state of the lock stands for the threads
  whose scoped object is locked, and two of them are both readers.
\<close>

definition excludes :: "'m lock_class \<Rightarrow> ('m \<Rightarrow> (nat \<Rightarrow> scope option) \<Rightarrow> bool) \<Rightarrow> bool" where
  "excludes c rep \<longleftrightarrow>
     (\<forall>css m ths. list_all (scoped_calls c False) css \<longrightarrow>
        lock_reach c (lock_threads c css) (m, ths) \<longrightarrow>
        rep m (holders ths) \<and>
        (\<forall>t u j k. t \<noteq> u \<longrightarrow> holders ths t = Some j \<longrightarrow> holders ths u = Some k \<longrightarrow>
           j = Read_scoped \<and> k = Read_scoped))"

text \<open>The contract of the library gives it.\<close>

context lockable
begin

lemma excluded: "excludes c rep"
proof -
  have "lock_inv (m, ths)" if "list_all (scoped_calls c False) css" "lock_reach c (lock_threads c css) (m, ths)"
    for css m ths
    using lock_inv_reach [OF that(2) lock_inv_start [OF that(1)]] .
  then show ?thesis by (force simp: excludes_def lock_inv_def)
qed

end

definition example_calls :: "lock_call list list" where
  "example_calls = [[Enter Scoped, Leave], [Enter Scoped, Release, Relock, Leave]]"

lemma NullMutex_admits_two:
  "lock_reach NullMutex_class (lock_threads NullMutex_class example_calls)
     ((), [\<lparr>lt_calls = [Leave], lt_lock = Some (Scoped, True)\<rparr>,
           \<lparr>lt_calls = [Release, Relock, Leave], lt_lock = Some (Scoped, True)\<rparr>])"
proof -
  let ?t0 = "\<lparr>lt_calls = [Enter Scoped, Leave], lt_lock = None\<rparr>"
  let ?t1 = "\<lparr>lt_calls = [Enter Scoped, Release, Relock, Leave], lt_lock = None\<rparr>"
  let ?u0 = "\<lparr>lt_calls = [Leave], lt_lock = Some (Scoped, True)\<rparr>"
  let ?u1 = "\<lparr>lt_calls = [Release, Relock, Leave], lt_lock = Some (Scoped, True)\<rparr>"
  have start: "lock_threads NullMutex_class example_calls = ((), [?t0, ?t1])"
    by (simp add: lock_threads_def example_calls_def)
  have "lock_step NullMutex_class ((), [?t0, ?t1]) ((), [?u0, ?t1])"
    using lock_stepI [of 0 "[?t0, ?t1]" NullMutex_class "()" "()" ?u0]
    by (simp add: thread_step_def scope_simps acquire_def NullMutex_class_def NullMutex_lock_def)
  moreover have "lock_step NullMutex_class ((), [?u0, ?t1]) ((), [?u0, ?u1])"
    using lock_stepI [of 1 "[?u0, ?t1]" NullMutex_class "()" "()" ?u1]
    by (simp add: thread_step_def scope_simps acquire_def NullMutex_class_def NullMutex_lock_def)
  ultimately show ?thesis
    unfolding start by (intro lock_more [OF lock_more [OF lock_start]])
qed

text \<open>
  C11: \<open>Mutex\<close>, \<open>SpinLock\<close>, \<open>CASLock\<close> and \<open>RWMutex\<close>, used through scoped locks by any number of
  threads in any interleaving, are never held by two threads unless both hold a read lock, and
  their state says who holds them. \<open>NullMutex\<close> admits two threads at once.
\<close>

theorem scoped_locks_exclude:
  "excludes Mutex_class pthread_rep \<and> excludes SpinLock_class pthread_rep \<and>
   excludes CASLock_class flag_rep \<and> excludes RWMutex_class rw_rep \<and>
   (\<forall>rep. \<not> excludes NullMutex_class rep)"
proof -
  have "\<not> excludes NullMutex_class rep" for rep
  proof
    assume "excludes NullMutex_class rep"
    moreover have "list_all (scoped_calls NullMutex_class False) example_calls"
      by (simp add: example_calls_def NullMutex_class_def)
    moreover have "holders [\<lparr>lt_calls = [Leave], lt_lock = Some (Scoped, True)\<rparr>,
        \<lparr>lt_calls = [Release, Relock, Leave], lt_lock = Some (Scoped, True)\<rparr>] n = Some Scoped" if "n < 2" for n
      using that by (cases n) (simp_all add: holders_def)
    ultimately show False
      using NullMutex_admits_two unfolding excludes_def by (metis one_less_numeral_iff scope.distinct(1) semiring_norm(76) zero_less_numeral zero_neq_one)
  qed
  then show ?thesis
    using mutex.excluded spin.excluded cas.excluded rw.excluded by simp
qed

text \<open>While a thread holds the mutex another waits in its constructor.\<close>

theorem scoped_locks_exclude_witness:
  "\<exists>m ths. lock_reach Mutex_class (lock_threads Mutex_class example_calls) (m, ths) \<and>
     holders ths 0 = Some Scoped \<and> holders ths 1 = None \<and> thread_step Mutex_class 1 m (ths ! 1) = None"
proof -
  let ?t0 = "\<lparr>lt_calls = [Enter Scoped, Leave], lt_lock = None\<rparr>"
  let ?t1 = "\<lparr>lt_calls = [Enter Scoped, Release, Relock, Leave], lt_lock = None\<rparr>"
  let ?u0 = "\<lparr>lt_calls = [Leave], lt_lock = Some (Scoped, True)\<rparr>"
  have start: "lock_threads Mutex_class example_calls = (None, [?t0, ?t1])"
    by (simp add: lock_threads_def example_calls_def Mutex_class_def new_Mutex_def)
  have "lock_step Mutex_class (None, [?t0, ?t1]) (Some 0, [?u0, ?t1])"
    using lock_stepI [of 0 "[?t0, ?t1]" Mutex_class None "Some 0" ?u0]
    by (simp add: thread_step_def scope_simps acquire_def Mutex_class_def Mutex_lock_def)
  then have r: "lock_reach Mutex_class (lock_threads Mutex_class example_calls) (Some 0, [?u0, ?t1])"
    unfolding start by (rule lock_more [OF lock_start])
  have "list_all (scoped_calls Mutex_class False) example_calls"
    by (simp add: example_calls_def Mutex_class_def)
  moreover have "excludes Mutex_class pthread_rep" using scoped_locks_exclude by (rule conjunct1)
  ultimately have "pthread_rep (Some 0) (holders [?u0, ?t1])"
    using r by (simp add: excludes_def)
  then have "holders [?u0, ?t1] = (\<lambda>_. None)(0 := Some Scoped)" by (simp add: pthread_rep_def)
  moreover have "thread_step Mutex_class 1 (Some 0) ?t1 = None"
    by (simp add: thread_step_def scope_simps acquire_def Mutex_class_def Mutex_lock_def)
  ultimately show ?thesis using r by (intro exI [of _ "Some 0"] exI [of _ "[?u0, ?t1]"]) simp
qed

section \<open>Every run ends\<close>

text \<open>
  From every state that is reached the threads can be run until they have made all their calls,
  every step makes one of the calls that are left, and when no thread can go on all are done and
  the lock is free again.
\<close>

definition always_ends :: "'m lock_class \<Rightarrow> bool" where
  "always_ends c \<longleftrightarrow>
     (\<forall>css s. list_all (scoped_calls c False) css \<longrightarrow> lock_reach c (lock_threads c css) s \<longrightarrow>
        (\<exists>s'. lock_reach c s s' \<and> calls_left s' = 0) \<and>
        (\<forall>s'. lock_step c s s' \<longrightarrow> Suc (calls_left s') = calls_left s) \<and>
        ((\<nexists>s'. lock_step c s s') \<longrightarrow>
           fst s = lc_new c \<and> (\<forall>th \<in> set (snd s). lt_calls th = [] \<and> lt_lock th = None)))"

context lockable
begin

lemma ends:
  assumes free: "\<And>m. rep m (\<lambda>_. None) \<Longrightarrow> m = lc_new c"
  shows "always_ends c"
proof -
  have inv: "lock_inv s" if "list_all (scoped_calls c False) css" "lock_reach c (lock_threads c css) s" for css s
    using lock_inv_reach [OF that(2) lock_inv_start [OF that(1)]] .
  have stuck: "fst s = lc_new c \<and> (\<forall>th \<in> set (snd s). lt_calls th = [] \<and> lt_lock th = None)"
    if "lock_inv s" "\<nexists>s'. lock_step c s s'" for s
    using stuck_is_done [of "fst s" "snd s"] that free by simp
  have "\<exists>s'. lock_reach c s s' \<and> calls_left s' = 0" if li: "lock_inv s" for s
  proof -
    obtain s' where r: "lock_reach c s s'" and e: "\<nexists>s''. lock_step c s' s''"
      using runs_to_end [OF li] by blast
    have "\<forall>th \<in> set (snd s'). lt_calls th = []"
      using stuck [OF lock_inv_reach [OF r li] e] by blast
    then have "calls_left s' = 0" by (cases s') (simp add: calls_left_def)
    with r show ?thesis by blast
  qed
  then show ?thesis
    unfolding always_ends_def using inv stuck calls_left_step by blast
qed

end

text \<open>
  C12: Threads that use one \<open>Mutex\<close>, \<open>SpinLock\<close>, \<open>CASLock\<close> or \<open>RWMutex\<close> through scoped locks never
  block each other for good: every run is finite, and it only stops when every thread has made all
  its calls and the lock is as new.
\<close>

theorem scoped_locks_always_end:
  "always_ends Mutex_class \<and> always_ends SpinLock_class \<and> always_ends CASLock_class \<and>
   always_ends RWMutex_class"
proof -
  have "m = lc_new Mutex_class" "m = lc_new SpinLock_class" if "pthread_rep m (\<lambda>_. None)" for m
    using that by (auto simp: pthread_rep_def Mutex_class_def new_Mutex_def SpinLock_class_def
        new_SpinLock_def fun_eq_iff split: option.splits if_splits)
  moreover have "m = lc_new CASLock_class" if "flag_rep m (\<lambda>_. None)" for m
    using that by (auto simp: flag_rep_def CASLock_class_def new_CASLock_def fun_eq_iff split: if_splits)
  moreover have "m = lc_new RWMutex_class" if "rw_rep m (\<lambda>_. None)" for m
  proof (cases m)
    case (Readers rs)
    with that show ?thesis by (cases rs) (auto simp: RWMutex_class_def new_RWMutex_def fun_eq_iff split: if_splits)
  next
    case (Writer w)
    with that have "(\<lambda>_. None) = (\<lambda>_. None)(w := Some Write_scoped)" by simp
    then show ?thesis by (metis fun_upd_same option.distinct(1))
  qed
  ultimately show ?thesis
    by (intro conjI mutex.ends spin.ends cas.ends rw.ends) blast+
qed

text \<open>Two threads with the spinning lock: some run ends with both done.\<close>

theorem scoped_locks_always_end_witness:
  "\<exists>s. lock_reach CASLock_class (lock_threads CASLock_class example_calls) s \<and> calls_left s = 0"
proof -
  have "list_all (scoped_calls CASLock_class False) example_calls"
    by (simp add: example_calls_def CASLock_class_def)
  with scoped_locks_always_end lock_start [of CASLock_class "lock_threads CASLock_class example_calls"]
  show ?thesis unfolding always_ends_def by blast
qed

end
