(* ===== verification/Thread_System.thy ===== *)
theory Thread_System
  imports Util
begin

text \<open>
  Threads and the thread pool (\<open>src/src/thread.h\<close>, \<open>src/src/thread.cpp\<close>,
  \<open>src/src/thread_pool.cpp\<close>) and the semaphore of \<open>src/src/mutex.cc\<close>. The constructor of a
  \<open>Thread\<close> and the function \<open>Run\<close> of the new thread run side by side: they are the steps of a
  machine with both.
\<close>

section \<open>The semaphore\<close>

text \<open>
  A semaphore is its count. \<open>Wait\<close> is \<open>None\<close> while it has to wait; \<open>interrupted\<close> says that a
  signal handler interrupts \<open>sem_wait\<close>.
\<close>

definition SEM_VALUE_MAX :: nat where
  "SEM_VALUE_MAX = 2147483647"

definition new_Semaphore :: "32 word \<Rightarrow> exn + nat" where
  "new_Semaphore count =
     (if unat count \<le> SEM_VALUE_MAX then Inr (unat count) else Inl (LogicError ''sem_init error''))"

definition Semaphore_Wait :: "bool \<Rightarrow> nat \<Rightarrow> (exn + nat) option" where
  "Semaphore_Wait interrupted n =
     (if interrupted then Some (Inl (LogicError ''sem_wait error''))
      else if n = 0 then None else Some (Inr (n - 1)))"

definition Semaphore_Notify :: "nat \<Rightarrow> exn + nat" where
  "Semaphore_Notify n =
     (if n < SEM_VALUE_MAX then Inr (n + 1) else Inl (LogicError ''sem_post error''))"

section \<open>Threads\<close>

text \<open>
  A callback is the list of the names it gives its thread with \<open>SetCurName\<close>; \<open>None\<close> is an empty
  \<open>std::function\<close>. \<open>pthread_t\<close> is a number, 0 once it was joined.
\<close>

type_synonym thread_cb = "string list option"

record thread_obj =
  th_id :: "32 word"
  th_thread :: "64 word"
  th_cb :: thread_cb
  th_name :: string
  th_sem :: nat

definition Thread_GetId :: "thread_obj \<Rightarrow> 32 word" where
  "Thread_GetId th = th_id th"

definition Thread_GetName :: "thread_obj \<Rightarrow> string" where
  "Thread_GetName th = th_name th"

text \<open>
  The constructor up to the call of \<open>semaphore_.Wait()\<close>; \<open>pthread_create\<close> fails with a code or
  gives a thread.
\<close>

definition new_Thread ::
  "util_env \<Rightarrow> int + 64 word \<Rightarrow> thread_cb \<Rightarrow> string \<Rightarrow> log_sys \<Rightarrow> (thread_obj, log_sys) result"
where
  "new_Thread env create cb name l =
     (let name1 = (if name = [] then ''UNKONW'' else name)
      in case create of
           Inl ret \<Rightarrow>
             and_then (ZCS_LEVEL (ue_log env) (ue_system env) ERROR 30
                         (''pthread_create thread failed ! ret='' @ dec_int ret @ '' name='' @ name) l)
               (\<lambda>_ l1. Throw (LogicError ''pthread_create error.'') l1)
         | Inr thread \<Rightarrow>
             Ok \<lparr>th_id = - 1, th_thread = thread, th_cb = cb, th_name = name1, th_sem = 0\<rparr> l)"

text \<open>\<open>Join\<close>, given what \<open>pthread_join\<close> returned.\<close>

definition Thread_Join ::
  "util_env \<Rightarrow> int \<Rightarrow> thread_obj \<Rightarrow> log_sys \<Rightarrow> (thread_obj, log_sys) result"
where
  "Thread_Join env ret th l =
     (if th_thread th \<noteq> 0 then
        if ret \<noteq> 0 then
          and_then (ZCS_LEVEL (ue_log env) (ue_system env) ERROR 14
                      (''pthread_join thread failed ! ret='' @ dec_int ret @ '' name='' @ th_name th) l)
            (\<lambda>_ l1. Throw (LogicError ''pthread_join error.'') l1)
        else Ok (th\<lparr>th_thread := 0\<rparr>) l
      else Ok th l)"

text \<open>The destructor: whether it detaches the thread.\<close>

definition destroy_Thread :: "thread_obj \<Rightarrow> bool" where
  "destroy_Thread th = (th_thread th \<noteq> 0)"

section \<open>Constructor and \<open>Run\<close> side by side\<close>

text \<open>
  The creator waits in the constructor, has returned from it, or left it with an exception. The
  runner is at a line of \<open>Run\<close>: its thread-local variables, its local \<open>cb\<close> (\<open>None\<close> before the
  swap) and the name the kernel shows. The object is \<open>None\<close> once it is destroyed.
\<close>

datatype creator = Waiting | Returned | Threw exn

datatype runner = Set_t_thread | Set_t_name | Set_id | Set_os_name | Swap_cb | Notify | Calling | Ended

record thread_sys =
  ts_obj :: "thread_obj option"
  ts_creator :: creator
  ts_runner :: runner
  ts_t_thread :: bool
  ts_t_name :: string
  ts_os_name :: string
  ts_cb :: thread_cb

text \<open>\<open>GetThis\<close>, \<open>GetCurName\<close> and \<open>SetCurName\<close> in the new thread.\<close>

definition Thread_GetThis :: "thread_sys \<Rightarrow> thread_obj option" where
  "Thread_GetThis s = (if ts_t_thread s then ts_obj s else None)"

definition Thread_GetCurName :: "thread_sys \<Rightarrow> string" where
  "Thread_GetCurName s = ts_t_name s"

definition Thread_SetCurName :: "string \<Rightarrow> thread_sys \<Rightarrow> (unit, thread_sys) result" where
  "Thread_SetCurName name s =
     (if name = [] then Ok () s
      else if ts_t_thread s then
        (case ts_obj s of
           None \<Rightarrow> Crash (UndefinedBehaviour ''use after free'')
         | Some th \<Rightarrow> Ok () (s\<lparr>ts_obj := Some (th\<lparr>th_name := name\<rparr>), ts_t_name := name\<rparr>))
      else Ok () (s\<lparr>ts_t_name := name\<rparr>))"

text \<open>Access to the object through the argument of \<open>Run\<close>.\<close>

definition with_obj ::
  "(thread_obj \<Rightarrow> (unit, thread_sys) result) \<Rightarrow> thread_sys \<Rightarrow> (unit, thread_sys) result"
where
  "with_obj f s =
     (case ts_obj s of None \<Rightarrow> Crash (UndefinedBehaviour ''use after free'') | Some th \<Rightarrow> f th)"

text \<open>One line of \<open>Run\<close>, or one call of its callback; \<open>tid\<close> is what \<open>gettid\<close> returns.\<close>

definition Thread_Run :: "32 word \<Rightarrow> thread_sys \<Rightarrow> (unit, thread_sys) result" where
  "Thread_Run tid s =
     (case ts_runner s of
        Set_t_thread \<Rightarrow> Ok () (s\<lparr>ts_t_thread := True, ts_runner := Set_t_name\<rparr>)
      | Set_t_name \<Rightarrow>
          with_obj (\<lambda>th. Ok () (s\<lparr>ts_t_name := th_name th, ts_runner := Set_id\<rparr>)) s
      | Set_id \<Rightarrow>
          with_obj (\<lambda>th. Ok () (s\<lparr>ts_obj := Some (th\<lparr>th_id := tid\<rparr>), ts_runner := Set_os_name\<rparr>)) s
      | Set_os_name \<Rightarrow>
          with_obj (\<lambda>th. Ok () (s\<lparr>ts_os_name := substr (th_name th) 0 15, ts_runner := Swap_cb\<rparr>)) s
      | Swap_cb \<Rightarrow>
          with_obj (\<lambda>th. Ok () (s\<lparr>ts_obj := Some (th\<lparr>th_cb := None\<rparr>), ts_cb := th_cb th,
                                   ts_runner := Notify\<rparr>)) s
      | Notify \<Rightarrow>
          with_obj (\<lambda>th. case Semaphore_Notify (th_sem th) of
                           Inl ex \<Rightarrow> Throw ex s
                         | Inr n \<Rightarrow> Ok () (s\<lparr>ts_obj := Some (th\<lparr>th_sem := n\<rparr>), ts_runner := Calling\<rparr>)) s
      | Calling \<Rightarrow>
          (case ts_cb s of
             None \<Rightarrow> Throw BadFunctionCall s
           | Some [] \<Rightarrow> Ok () (s\<lparr>ts_runner := Ended\<rparr>)
           | Some (name # names) \<Rightarrow> Thread_SetCurName name (s\<lparr>ts_cb := Some names\<rparr>))
      | Ended \<Rightarrow> Ok () s)"

text \<open>
  The steps: the runner's, the end of the creator's wait, and the destruction of the object by its
  owner once the constructor has returned. \<open>signals\<close> says whether a signal may interrupt the wait;
  an exception in the constructor destroys the object.
\<close>

inductive handshake_step :: "bool \<Rightarrow> 32 word \<Rightarrow> thread_sys \<Rightarrow> thread_sys \<Rightarrow> bool" for signals tid where
  run: "Thread_Run tid s = Ok () s' \<Longrightarrow> handshake_step signals tid s s'"
| waited: "ts_creator s = Waiting \<Longrightarrow> ts_obj s = Some th \<Longrightarrow> Semaphore_Wait False (th_sem th) = Some (Inr n) \<Longrightarrow>
    handshake_step signals tid s (s\<lparr>ts_creator := Returned, ts_obj := Some (th\<lparr>th_sem := n\<rparr>)\<rparr>)"
| interrupted: "signals \<Longrightarrow> ts_creator s = Waiting \<Longrightarrow> ts_obj s = Some th \<Longrightarrow>
    Semaphore_Wait True (th_sem th) = Some (Inl ex) \<Longrightarrow>
    handshake_step signals tid s (s\<lparr>ts_creator := Threw ex, ts_obj := None\<rparr>)"
| destroyed: "ts_creator s = Returned \<Longrightarrow> handshake_step signals tid s (s\<lparr>ts_obj := None\<rparr>)"

inductive handshake_reach :: "bool \<Rightarrow> 32 word \<Rightarrow> thread_sys \<Rightarrow> thread_sys \<Rightarrow> bool" for signals tid s where
  handshake_start: "handshake_reach signals tid s s"
| handshake_more: "handshake_reach signals tid s t \<Longrightarrow> handshake_step signals tid t u \<Longrightarrow> handshake_reach signals tid s u"

text \<open>The moment \<open>pthread_create\<close> has made the thread.\<close>

definition thread_created :: "thread_obj \<Rightarrow> thread_sys" where
  "thread_created th =
     \<lparr>ts_obj = Some th, ts_creator = Waiting, ts_runner = Set_t_thread, ts_t_thread = False,
      ts_t_name = ''UNKONW'', ts_os_name = [], ts_cb = None\<rparr>"
section \<open>The thread pool\<close>

text \<open>
  \<open>Worker\<close> never leaves its loop: a round counts, prints the count and logs it. The state is the
  static \<open>test_count\<close> and the logging system; \<open>log_server\<close> is the logger ''thread_pool''.
\<close>

definition worker_round ::
  "log_env \<Rightarrow> nat \<Rightarrow> 64 word \<times> log_sys \<Rightarrow> (unit, 64 word \<times> log_sys) result"
where
  "worker_round env log_server = (\<lambda>(test_count, l).
     let count = test_count + 1;
         l1 = print_cout l (dec_nat (unat count))
     in case ZCS_LEVEL env log_server DEBUG 37
               (''thread pool worker!!!!! count='' @ dec_nat (unat count)) l1 of
          Ok u l2 \<Rightarrow> Ok () (count, l2)
        | Throw ex l2 \<Rightarrow> Throw ex (count, l2)
        | Crash cr \<Rightarrow> Crash cr)"

partial_function (option) ThreadPool_Worker ::
  "log_env \<Rightarrow> nat \<Rightarrow> 64 word \<times> log_sys \<Rightarrow> (unit, 64 word \<times> log_sys) result option"
where
  "ThreadPool_Worker env log_server s =
     (case worker_round env log_server s of
        Ok u s1 \<Rightarrow> ThreadPool_Worker env log_server s1
      | Throw ex s1 \<Rightarrow> Some (Throw ex s1)
      | Crash cr \<Rightarrow> Some (Crash cr))"

text \<open>
  The constructor: the threads are made one after the other, the \<open>i\<close>-th call of \<open>pthread_create\<close>
  gives \<open>create i\<close>. A \<open>Thread\<close> that is made has gone through its handshake.
\<close>

definition server_name :: "nat \<Rightarrow> string" where
  "server_name i = ''SERVER_'' @ dec_nat i"

fun create_threads ::
  "util_env \<Rightarrow> (nat \<Rightarrow> int + 64 word) \<Rightarrow> nat list \<Rightarrow> thread_obj list \<Rightarrow> log_sys
   \<Rightarrow> (thread_obj list, log_sys) result"
where
  "create_threads env create [] threads l = Ok threads l"
| "create_threads env create (i # is) threads l =
     and_then (new_Thread env (create i) (Some []) (server_name i) l)
       (\<lambda>th. create_threads env create is (threads @ [th]))"

text \<open>
  Joining a thread whose function does not return does not return; \<open>ends\<close> says how the thread
  functions end.
\<close>

fun join_threads ::
  "util_env \<Rightarrow> 'w option \<Rightarrow> thread_obj list \<Rightarrow> thread_obj list \<Rightarrow> log_sys
   \<Rightarrow> (thread_obj list, log_sys) result option"
where
  "join_threads env ends joined [] l = Some (Ok joined l)"
| "join_threads env ends joined (th # ths) l =
     (if th_thread th \<noteq> 0 then
        (case ends of
           None \<Rightarrow> None
         | Some r \<Rightarrow>
             (case Thread_Join env 0 th l of
                Ok th1 l1 \<Rightarrow> join_threads env ends (joined @ [th1]) ths l1
              | Throw ex l1 \<Rightarrow> Some (Throw ex l1)
              | Crash cr \<Rightarrow> Some (Crash cr)))
      else join_threads env ends (joined @ [th]) ths l)"

definition new_ThreadPool ::
  "util_env \<Rightarrow> nat \<Rightarrow> (nat \<Rightarrow> int + 64 word) \<Rightarrow> 64 word \<Rightarrow> 32 word \<Rightarrow> 32 word \<Rightarrow> log_sys
   \<Rightarrow> (thread_obj list, log_sys) result option"
where
  "new_ThreadPool env log_server create test_count thread_number max_request l =
     (if thread_number = 0 \<or> max_request = 0
      then Some (Throw (LogicError ''thread_pool config error.'') l)
      else
        (case create_threads env create [0..<unat thread_number] [] l of
           Ok threads l1 \<Rightarrow>
             join_threads env (ThreadPool_Worker (ue_log env) log_server (test_count, l1)) [] threads l1
         | Throw ex l1 \<Rightarrow> Some (Throw ex l1)
         | Crash cr \<Rightarrow> Some (Crash cr)))"

end
