(* ===== verification/Thread_Properties.thy ===== *)
theory Thread_Properties
  imports Thread_System Fiber_Properties
begin

text \<open>
  What the constructor of a \<open>Thread\<close> guarantees when it returns, how its object can be used after
  its end, and what the constructor of a \<open>ThreadPool\<close> does.
\<close>

section \<open>The handshake\<close>

definition past :: "runner list \<Rightarrow> thread_sys \<Rightarrow> bool" where
  "past rs s \<longleftrightarrow> ts_runner s \<in> set rs"

definition handshake_inv :: "32 word \<Rightarrow> thread_obj \<Rightarrow> thread_sys \<Rightarrow> bool" where
  "handshake_inv tid th0 s \<longleftrightarrow>
     (case ts_creator s of
        Waiting \<Rightarrow> \<exists>th. ts_obj s = Some th \<and> th_sem th = (if past [Calling, Ended] s then 1 else 0)
      | Returned \<Rightarrow> past [Calling, Ended] s
      | Threw ex \<Rightarrow> False) \<and>
     (ts_t_thread s \<longleftrightarrow> ts_runner s \<noteq> Set_t_thread) \<and>
     (\<forall>th. ts_obj s = Some th \<longrightarrow>
        (past [Set_os_name, Swap_cb, Notify, Calling, Ended] s \<longrightarrow> th_id th = tid) \<and>
        th_cb th = (if past [Notify, Calling, Ended] s then None else th_cb th0) \<and>
        (\<not> past [Calling, Ended] s \<longrightarrow> th_name th = th_name th0) \<and>
        (\<not> past [Set_t_thread, Set_t_name] s \<longrightarrow> ts_t_name s = th_name th)) \<and>
     (ts_runner s = Notify \<longrightarrow> ts_cb s = th_cb th0) \<and>
     (past [Swap_cb, Notify, Calling, Ended] s \<longrightarrow> ts_os_name s = take 15 (th_name th0))"

lemma handshake_inv_run:
  assumes "handshake_inv tid th0 s" and "Thread_Run tid s = Ok u s'"
  shows "handshake_inv tid th0 s'"
proof (cases "ts_runner s")
  case Calling
  show ?thesis
  proof (cases "ts_cb s")
    case None
    with assms Calling show ?thesis by (simp add: Thread_Run_def)
  next
    case (Some names)
    with assms Calling show ?thesis
      by (cases names) (auto simp: Thread_Run_def Thread_SetCurName_def handshake_inv_def past_def
          split: if_splits option.splits creator.splits)
  qed
next
  case Notify
  with assms show ?thesis
    by (cases "ts_creator s") (auto simp: Thread_Run_def with_obj_def handshake_inv_def past_def
        Semaphore_Notify_def SEM_VALUE_MAX_def split: option.splits)
qed (use assms in \<open>auto simp: Thread_Run_def with_obj_def handshake_inv_def past_def substr_def
      split: option.splits creator.splits\<close>)

lemma handshake_inv_step:
  assumes "handshake_step False tid s s'" and "handshake_inv tid th0 s"
  shows "handshake_inv tid th0 s'"
  using assms
proof (induction rule: handshake_step.induct)
  case (run s s')
  then show ?case by (blast intro: handshake_inv_run)
next
  case (waited s th n)
  then show ?case
    by (auto simp: handshake_inv_def past_def Semaphore_Wait_def split: if_splits)
next
  case (destroyed s)
  then show ?case by (auto simp: handshake_inv_def past_def)
qed simp

lemma handshake_inv_start:
  "th_sem th = 0 \<Longrightarrow> handshake_inv tid th (thread_created th)"
  by (simp add: handshake_inv_def thread_created_def past_def)

lemma handshake_inv_reach:
  "handshake_reach False tid s t \<Longrightarrow> handshake_inv tid th0 s \<Longrightarrow> handshake_inv tid th0 t"
  by (induction rule: handshake_reach.induct) (auto intro: handshake_inv_step)

text \<open>What happens while the constructor waits cannot stop it from returning.\<close>

fun lines_left :: "runner \<Rightarrow> nat" where
  "lines_left Set_t_thread = 6"
| "lines_left Set_t_name = 5"
| "lines_left Set_id = 4"
| "lines_left Set_os_name = 3"
| "lines_left Swap_cb = 2"
| "lines_left Notify = 1"
| "lines_left Calling = 0"
| "lines_left Ended = 0"

lemma handshake_reach_trans:
  "handshake_reach sg tid t u \<Longrightarrow> handshake_reach sg tid s t \<Longrightarrow> handshake_reach sg tid s u"
  by (induction rule: handshake_reach.induct) (auto intro: handshake_more)

lemma handshake_returns:
  assumes "handshake_inv tid th0 s" and "ts_creator s = Waiting"
  shows "\<exists>t. handshake_reach False tid s t \<and> ts_creator t = Returned"
  using assms
proof (induction "lines_left (ts_runner s)" arbitrary: s rule: less_induct)
  case less
  from less.prems obtain th where th: "ts_obj s = Some th" "th_sem th = (if past [Calling, Ended] s then 1 else 0)"
    by (auto simp: handshake_inv_def)
  show ?case
  proof (cases "past [Calling, Ended] s")
    case True
    with th less.prems(2) have "handshake_step False tid s (s\<lparr>ts_creator := Returned, ts_obj := Some (th\<lparr>th_sem := 0\<rparr>)\<rparr>)"
      by (intro handshake_step.waited) (simp_all add: Semaphore_Wait_def)
    then show ?thesis using handshake_more [OF handshake_start] by fastforce
  next
    case False
    then obtain s1 where run: "Thread_Run tid s = Ok () s1" and dec: "lines_left (ts_runner s1) < lines_left (ts_runner s)"
      and cr: "ts_creator s1 = Waiting"
      using th less.prems(2)
      by (cases "ts_runner s") (auto simp: past_def Thread_Run_def with_obj_def Semaphore_Notify_def SEM_VALUE_MAX_def)
    from less.hyps [OF dec handshake_inv_run [OF less.prems(1) run] cr]
    obtain t where "handshake_reach False tid s1 t" "ts_creator t = Returned" by blast
    moreover have "handshake_reach False tid s s1"
      using handshake_more [OF handshake_start handshake_step.run [OF run]] .
    ultimately show ?thesis using handshake_reach_trans by blast
  qed
qed

text \<open>
  C16: Unless a signal interrupts the wait, the constructor of a \<open>Thread\<close> can always return; once
  it has, the new thread has set the id and its names, has taken over the callback unchanged, and
  is past every access to the object that \<open>Run\<close> itself makes. Only \<open>SetCurName\<close> in the callback,
  after the owner has destroyed the object, can still use it.
\<close>

theorem constructed_thread:
  assumes "new_Thread env create cb name l = Ok th l'"
    and "handshake_reach False tid (thread_created th) s"
  shows "(ts_creator s = Waiting \<longrightarrow> (\<exists>t. handshake_reach False tid s t \<and> ts_creator t = Returned)) \<and>
    (ts_runner s = Notify \<longrightarrow> ts_cb s = cb) \<and>
    (ts_creator s = Returned \<longrightarrow>
       ts_runner s \<in> {Calling, Ended} \<and>
       ts_os_name s = take 15 (if name = [] then ''UNKONW'' else name) \<and>
       (\<forall>o1. Thread_GetThis s = Some o1 \<longrightarrow>
          th_id o1 = tid \<and> th_cb o1 = None \<and> th_name o1 = Thread_GetCurName s)) \<and>
    (\<forall>cr. Thread_Run tid s = Crash cr \<longrightarrow> ts_runner s = Calling \<and> ts_obj s = None)"
proof -
  have th: "th_sem th = 0" "th_cb th = cb" "th_name th = (if name = [] then ''UNKONW'' else name)"
    using assms(1) by (auto simp: new_Thread_def Let_def and_then_Ok_iff split: sum.splits)
  have inv: "handshake_inv tid th s"
    using assms(2) handshake_inv_start [OF th(1)] by (rule handshake_inv_reach)
  have crash: "ts_runner s = Calling \<and> ts_obj s = None" if "Thread_Run tid s = Crash cr" for cr
  proof (cases "ts_obj s")
    case None
    with inv have "past [Calling, Ended] s" by (cases "ts_creator s") (auto simp: handshake_inv_def)
    with None that show ?thesis by (auto simp: past_def Thread_Run_def)
  next
    case (Some o1)
    with that show ?thesis
      by (auto simp: Thread_Run_def with_obj_def Thread_SetCurName_def
          split: runner.splits option.splits list.splits sum.splits if_splits)
  qed
  have returned: "ts_runner s \<in> {Calling, Ended} \<and> ts_os_name s = take 15 (th_name th) \<and>
      (\<forall>o1. Thread_GetThis s = Some o1 \<longrightarrow> th_id o1 = tid \<and> th_cb o1 = None \<and> th_name o1 = Thread_GetCurName s)"
    if ret: "ts_creator s = Returned"
  proof -
    have "past [Calling, Ended] s" using inv ret by (simp add: handshake_inv_def)
    then have "ts_runner s = Calling \<or> ts_runner s = Ended" by (auto simp: past_def)
    with inv ret show ?thesis
      by (elim disjE) (simp_all add: handshake_inv_def past_def Thread_GetThis_def Thread_GetCurName_def)
  qed
  have "ts_runner s = Notify \<longrightarrow> ts_cb s = cb" using inv th(2) by (simp add: handshake_inv_def)
  with crash returned handshake_returns [OF inv] show ?thesis
    unfolding th(3) by (intro conjI impI allI) simp_all
qed

definition example_thread :: thread_obj where
  "example_thread = \<lparr>th_id = - 1, th_thread = 9, th_cb = Some [''io'', ''idle''],
     th_name = ''a name of more than fifteen'', th_sem = 0\<rparr>"

text \<open>The states of the new thread up to the end of its handshake, nobody disturbing it.\<close>

definition after_handshake :: "32 word \<Rightarrow> thread_obj \<Rightarrow> thread_sys" where
  "after_handshake tid th =
     \<lparr>ts_obj = Some (th\<lparr>th_id := tid, th_cb := None, th_sem := 0\<rparr>), ts_creator = Returned,
      ts_runner = Calling, ts_t_thread = True, ts_t_name = th_name th,
      ts_os_name = take 15 (th_name th), ts_cb = th_cb th\<rparr>"

lemma run_more:
  "handshake_reach sg tid s t \<Longrightarrow> Thread_Run tid t = Ok () u \<Longrightarrow> handshake_reach sg tid s u"
  by (blast intro: handshake_more handshake_step.run)

lemma after_handshake_reached:
  assumes "th_sem th = 0"
  shows "handshake_reach sg tid (thread_created th) (after_handshake tid th)"
proof -
  let ?s0 = "thread_created th"
  let ?s1 = "?s0\<lparr>ts_t_thread := True, ts_runner := Set_t_name\<rparr>"
  let ?s2 = "?s1\<lparr>ts_t_name := th_name th, ts_runner := Set_id\<rparr>"
  let ?s3 = "?s2\<lparr>ts_obj := Some (th\<lparr>th_id := tid\<rparr>), ts_runner := Set_os_name\<rparr>"
  let ?s4 = "?s3\<lparr>ts_os_name := take 15 (th_name th), ts_runner := Swap_cb\<rparr>"
  let ?s5 = "?s4\<lparr>ts_obj := Some (th\<lparr>th_id := tid, th_cb := None\<rparr>), ts_cb := th_cb th, ts_runner := Notify\<rparr>"
  let ?s6 = "?s5\<lparr>ts_obj := Some (th\<lparr>th_id := tid, th_cb := None, th_sem := 1\<rparr>), ts_runner := Calling\<rparr>"
  note eval = Thread_Run_def with_obj_def thread_created_def substr_def
  have "handshake_reach sg tid ?s0 ?s1" by (rule run_more [OF handshake_start]) (simp add: eval)
  then have "handshake_reach sg tid ?s0 ?s2" by (rule run_more) (simp add: eval)
  then have "handshake_reach sg tid ?s0 ?s3" by (rule run_more) (simp add: eval)
  then have "handshake_reach sg tid ?s0 ?s4" by (rule run_more) (simp add: eval)
  then have "handshake_reach sg tid ?s0 ?s5" by (rule run_more) (simp add: eval)
  then have r: "handshake_reach sg tid ?s0 ?s6"
    by (rule run_more) (simp add: eval Semaphore_Notify_def SEM_VALUE_MAX_def assms)
  have "handshake_step sg tid ?s6
      (?s6\<lparr>ts_creator := Returned, ts_obj := Some (th\<lparr>th_id := tid, th_cb := None, th_sem := 1\<rparr>\<lparr>th_sem := 0\<rparr>)\<rparr>)"
    by (rule handshake_step.waited) (simp_all add: thread_created_def Semaphore_Wait_def)
  with r have "handshake_reach sg tid ?s0
      (?s6\<lparr>ts_creator := Returned, ts_obj := Some (th\<lparr>th_id := tid, th_cb := None, th_sem := 1\<rparr>\<lparr>th_sem := 0\<rparr>)\<rparr>)"
    by (rule handshake_more)
  then show ?thesis by (simp add: after_handshake_def thread_created_def)
qed

text \<open>A thread gets the first fifteen characters of its name from the kernel.\<close>

theorem constructed_thread_witness:
  "\<exists>s l. new_Thread (fe_util example_fiber_env) (Inr 9) (Some [''io'', ''idle''])
        ''a name of more than fifteen'' example_fiber_log = Ok example_thread l \<and>
     handshake_reach False 77 (thread_created example_thread) s \<and> ts_creator s = Returned \<and>
     ts_os_name s = ''a name of more '' \<and> Thread_Run 77 s \<noteq> Crash NullDeref"
proof -
  have new: "new_Thread (fe_util example_fiber_env) (Inr 9) (Some [''io'', ''idle''])
      ''a name of more than fifteen'' example_fiber_log = Ok example_thread example_fiber_log"
    by (simp add: new_Thread_def example_thread_def)
  have r: "handshake_reach False 77 (thread_created example_thread) (after_handshake 77 example_thread)"
    by (rule after_handshake_reached) (simp add: example_thread_def)
  have ret: "ts_creator (after_handshake 77 example_thread) = Returned"
    "ts_obj (after_handshake 77 example_thread) \<noteq> None" by (simp_all add: after_handshake_def)
  note facts = constructed_thread [OF new r]
  from facts ret(1) have "ts_os_name (after_handshake 77 example_thread) = ''a name of more ''" by simp
  moreover have "Thread_Run 77 (after_handshake 77 example_thread) \<noteq> Crash NullDeref"
    using facts [THEN conjunct2, THEN conjunct2, THEN conjunct2] ret(2) by auto
  ultimately show ?thesis using new r ret(1) by (intro exI conjI)
qed

section \<open>Uses of a destroyed object\<close>

text \<open>
  C39: A signal that interrupts the wait makes the constructor throw and destroy the object while
  the new thread still runs through \<open>Run\<close>, which then uses the destroyed object. And a thread that
  was detached by the destruction of its \<open>Thread\<close> uses it when its callback calls \<open>SetCurName\<close>:
  \<open>t_thread\<close> still points to it.
\<close>

theorem destroyed_thread_is_used:
  assumes "th_sem th = 0" and "th_cb th = Some (new_name # names)" and "new_name \<noteq> []"
  shows "(\<exists>s. handshake_reach True tid (thread_created th) s \<and>
      ts_creator s = Threw (LogicError ''sem_wait error'') \<and>
      Thread_Run tid s = Crash (UndefinedBehaviour ''use after free'')) \<and>
    (\<exists>s. handshake_reach False tid (thread_created th) s \<and>
      ts_creator s = Returned \<and> ts_obj s = None \<and>
      Thread_Run tid s = Crash (UndefinedBehaviour ''use after free''))"
proof (intro conjI exI)
  let ?s1 = "(thread_created th)\<lparr>ts_t_thread := True, ts_runner := Set_t_name\<rparr>"
  let ?s2 = "?s1\<lparr>ts_creator := Threw (LogicError ''sem_wait error''), ts_obj := None\<rparr>"
  have "handshake_reach True tid (thread_created th) ?s1"
    by (rule run_more [OF handshake_start]) (simp add: Thread_Run_def thread_created_def)
  moreover have "handshake_step True tid ?s1 ?s2"
    by (rule handshake_step.interrupted) (simp_all add: thread_created_def Semaphore_Wait_def)
  ultimately show "handshake_reach True tid (thread_created th) ?s2" by (rule handshake_more)
  show "ts_creator ?s2 = Threw (LogicError ''sem_wait error'')" by simp
  show "Thread_Run tid ?s2 = Crash (UndefinedBehaviour ''use after free'')"
    by (simp add: Thread_Run_def with_obj_def)
next
  let ?s = "(after_handshake tid th)\<lparr>ts_obj := None\<rparr>"
  have "handshake_step False tid (after_handshake tid th) ?s"
    by (rule handshake_step.destroyed) (simp add: after_handshake_def)
  then show "handshake_reach False tid (thread_created th) ?s"
    by (rule handshake_more [OF after_handshake_reached [OF assms(1)]])
  show "ts_creator ?s = Returned" "ts_obj ?s = None" by (simp_all add: after_handshake_def)
  show "Thread_Run tid ?s = Crash (UndefinedBehaviour ''use after free'')"
    using assms(2,3) by (simp add: Thread_Run_def after_handshake_def Thread_SetCurName_def)
qed

theorem destroyed_thread_is_used_witness:
  "(\<exists>s. handshake_reach True 77 (thread_created example_thread) s \<and>
      Thread_Run 77 s = Crash (UndefinedBehaviour ''use after free'')) \<and>
    (\<exists>s. handshake_reach False 77 (thread_created example_thread) s \<and>
      Thread_Run 77 s = Crash (UndefinedBehaviour ''use after free''))"
  using destroyed_thread_is_used [of example_thread "''io''" "[''idle'']" 77]
  by (auto simp: example_thread_def)

section \<open>The thread pool\<close>

lemma worker_round_returns:
  assumes "log_ready l" and "map_find string_lt ''thread_pool'' (mgr_loggers l) = Some k"
  shows "\<exists>l'. worker_round env k (n, l) = Ok () (n + 1, l') \<and> log_ready l' \<and>
    map_find string_lt ''thread_pool'' (mgr_loggers l') = Some k"
proof -
  let ?l1 = "print_cout l (dec_nat (unat (n + 1)))"
  have fr1: "log_frame l ?l1" by simp
  then have "log_ready ?l1" "map_find string_lt ''thread_pool'' (mgr_loggers ?l1) = Some k"
    using assms log_ready_frame by (auto simp: log_frame_def)
  then obtain l2 where "ZCS_LEVEL env k DEBUG 37
      (''thread pool worker!!!!! count='' @ dec_nat (unat (n + 1))) ?l1 = Ok () l2"
    and fr2: "log_frame ?l1 l2" using registered_log_returns by blast
  moreover have "log_ready l2" "map_find string_lt ''thread_pool'' (mgr_loggers l2) = Some k"
    using log_frame_trans [OF fr1 fr2] assms log_ready_frame by (auto simp: log_frame_def)
  ultimately show ?thesis by (simp add: worker_round_def Let_def)
qed

text \<open>The loop of \<open>Worker\<close> does not return.\<close>

lemma Worker_loops:
  assumes "log_ready l" and "map_find string_lt ''thread_pool'' (mgr_loggers l) = Some k"
  shows "ThreadPool_Worker env k (n, l) = None"
proof (cases "ThreadPool_Worker env k (n, l)")
  case (Some r)
  have "\<not> (log_ready (snd (n, l)) \<and> map_find string_lt ''thread_pool'' (mgr_loggers (snd (n, l))) = Some k)"
  proof (rule ThreadPool_Worker.raw_induct [where P = "\<lambda>env k s r.
      \<not> (log_ready (snd s) \<and> map_find string_lt ''thread_pool'' (mgr_loggers (snd s)) = Some k)", OF _ Some])
    fix worker :: "log_env \<Rightarrow> nat \<Rightarrow> 64 word \<times> log_sys \<Rightarrow> (unit, 64 word \<times> log_sys) result option"
    fix env k s r
    assume IH: "\<And>env k s r. worker env k s = Some r \<Longrightarrow>
        \<not> (log_ready (snd s) \<and> map_find string_lt ''thread_pool'' (mgr_loggers (snd s)) = Some k)"
      and body: "(case worker_round env k s of Ok u s1 \<Rightarrow> worker env k s1
        | Throw ex s1 \<Rightarrow> Some (Throw ex s1) | Crash cr \<Rightarrow> Some (Crash cr)) = Some r"
    show "\<not> (log_ready (snd s) \<and> map_find string_lt ''thread_pool'' (mgr_loggers (snd s)) = Some k)"
    proof
      assume "log_ready (snd s) \<and> map_find string_lt ''thread_pool'' (mgr_loggers (snd s)) = Some k"
      then obtain l' where "worker_round env k s = Ok () (fst s + 1, l')"
        and "log_ready l' \<and> map_find string_lt ''thread_pool'' (mgr_loggers l') = Some k"
        using worker_round_returns [of "snd s" k env "fst s"] by auto
      with body IH [of env k "(fst s + 1, l')" r] show False by simp
    qed
  qed
  with assms show ?thesis by simp
qed simp

definition server_thread :: "nat \<Rightarrow> 64 word \<Rightarrow> thread_obj" where
  "server_thread i h = \<lparr>th_id = - 1, th_thread = h, th_cb = Some [], th_name = server_name i, th_sem = 0\<rparr>"

lemma new_server_thread:
  "new_Thread env (Inr h) (Some []) (server_name i) l = Ok (server_thread i h) l"
  by (simp add: new_Thread_def server_name_def server_thread_def)

lemma create_threads_append:
  "create_threads env create (is @ js) ths l =
    and_then (create_threads env create is ths l) (create_threads env create js)"
proof (induction "is" arbitrary: ths l)
  case (Cons i "is")
  then show ?case by (cases "new_Thread env (create i) (Some []) (server_name i) l") simp_all
qed simp

lemma create_threads_all:
  "(\<And>i. i \<in> set is \<Longrightarrow> create i = Inr (h i)) \<Longrightarrow>
    create_threads env create is ths l = Ok (ths @ map (\<lambda>i. server_thread i (h i)) is) l"
  by (induction "is" arbitrary: ths) (simp_all add: new_server_thread)

lemma create_threads_fails:
  assumes "util_ready env l" and "\<And>j. j < i \<Longrightarrow> create j = Inr (h j)" and "create i = Inl ret" and "i < n"
  shows "\<exists>l'. create_threads env create [0..<n] [] l = Throw (LogicError ''pthread_create error.'') l' \<and>
    log_frame l l'"
proof -
  have "[0..<n] = [0..<i] @ i # [Suc i..<n]"
    using assms(4) by (metis le_add_same_cancel1 less_imp_add_positive upt_add_eq_append upt_conv_Cons zero_le)
  moreover have "create_threads env create [0..<i] [] l = Ok (map (\<lambda>i. server_thread i (h i)) [0..<i]) l"
    using create_threads_all [of "[0..<i]" create h env "[]" l] assms(2) by simp
  moreover obtain l' where "ZCS_LEVEL (ue_log env) (ue_system env) ERROR 30
      (''pthread_create thread failed ! ret='' @ dec_int ret @ '' name='' @ server_name i) l = Ok () l'"
    and "log_frame l l'" using system_log_returns [OF assms(1)] by blast
  ultimately show ?thesis
    using assms(3) by (simp add: create_threads_append new_Thread_def)
qed

text \<open>
  C40: The constructor of a \<open>ThreadPool\<close> refuses a number of threads or requests of zero, and
  throws when a thread cannot be created. Otherwise it names its threads SERVER_0, SERVER_1 and so
  on, all different, and never returns: it joins workers whose loop has no end.
\<close>

theorem thread_pool_constructor:
  assumes "util_ready env l" and "map_find string_lt ''thread_pool'' (mgr_loggers l) = Some k"
  shows "(n = 0 \<or> max_request = 0 \<longrightarrow> new_ThreadPool env k create count n max_request l =
      Some (Throw (LogicError ''thread_pool config error.'') l)) \<and>
    (n \<noteq> 0 \<longrightarrow> max_request \<noteq> 0 \<longrightarrow>
      (\<forall>i ret. i < unat n \<longrightarrow> create i = Inl ret \<longrightarrow> (\<forall>j < i. create j = Inr (h j)) \<longrightarrow>
         (\<exists>l'. new_ThreadPool env k create count n max_request l =
            Some (Throw (LogicError ''pthread_create error.'') l') \<and> log_frame l l')) \<and>
      ((\<forall>i < unat n. create i = Inr (h i) \<and> h i \<noteq> 0) \<longrightarrow>
         (\<exists>threads. create_threads env create [0..<unat n] [] l = Ok threads l \<and>
            map th_name threads = map server_name [0..<unat n] \<and> distinct (map th_name threads)) \<and>
         new_ThreadPool env k create count n max_request l = None))"
proof (intro conjI impI allI)
  show "new_ThreadPool env k create count n max_request l =
      Some (Throw (LogicError ''thread_pool config error.'') l)" if "n = 0 \<or> max_request = 0"
    using that by (simp add: new_ThreadPool_def)
next
  fix i ret
  assume ok: "n \<noteq> 0" "max_request \<noteq> 0"
    and i: "i < unat n" "create i = Inl ret" "\<forall>j < i. create j = Inr (h j)"
  obtain l' where "create_threads env create [0..<unat n] [] l = Throw (LogicError ''pthread_create error.'') l'"
    "log_frame l l'"
    using create_threads_fails [where create = create and h = h, OF assms(1) _ i(2,1)] i(3) by auto
  with ok show "\<exists>l'. new_ThreadPool env k create count n max_request l =
      Some (Throw (LogicError ''pthread_create error.'') l') \<and> log_frame l l'"
    by (simp add: new_ThreadPool_def)
next
  assume ok: "n \<noteq> 0" "max_request \<noteq> 0" and all: "\<forall>i < unat n. create i = Inr (h i) \<and> h i \<noteq> 0"
  let ?threads = "map (\<lambda>i. server_thread i (h i)) [0..<unat n]"
  have created: "create_threads env create [0..<unat n] [] l = Ok ?threads l"
    using create_threads_all [of "[0..<unat n]" create h env "[]" l] all by simp
  have names: "map th_name ?threads = map server_name [0..<unat n]"
    by (simp add: server_thread_def)
  have "distinct (map server_name [0..<unat n])"
    by (simp add: distinct_map inj_on_def server_name_def)
  then have "distinct (map th_name ?threads)" by (simp only: names)
  with created names show "\<exists>threads. create_threads env create [0..<unat n] [] l = Ok threads l \<and>
      map th_name threads = map server_name [0..<unat n] \<and> distinct (map th_name threads)" by blast
  have "0 < unat n" using ok(1) by (simp add: unat_gt_0)
  then obtain ths where "?threads = server_thread 0 (h 0) # ths" "h 0 \<noteq> 0"
    using all by (simp add: upt_conv_Cons)
  moreover have "log_ready l" using assms(1) by (simp add: util_ready_def)
  ultimately show "new_ThreadPool env k create count n max_request l = None"
    using ok created Worker_loops [OF _ assms(2)] by (simp add: new_ThreadPool_def server_thread_def)
qed

definition example_pool_log :: log_sys where
  "example_pool_log = snd (LoggerManager_GetLogger ''thread_pool'' example_fiber_log)"

theorem thread_pool_constructor_witness:
  "new_ThreadPool (fe_util example_fiber_env) 2 (\<lambda>i. Inr (of_nat i + 1)) 0 2 100 example_pool_log = None"
proof -
  have log: "util_ready (fe_util example_fiber_env) example_pool_log"
    "map_find string_lt ''thread_pool'' (mgr_loggers example_pool_log) = Some 2"
  proof -
    have wf: "wf_sys example_fiber_log" using example_fiber_ready by (simp add: util_ready_def log_ready_def)
    have "wf_sys example_pool_log"
      unfolding example_pool_log_def using wf by (rule wf_sys_GetLogger)
    moreover have "map_find string_lt ''system'' (mgr_loggers example_pool_log) = Some 1"
      "map_find string_lt ''thread_pool'' (mgr_loggers example_pool_log) = Some 2"
      "lg_appenders (loggers example_pool_log ! mgr_root example_pool_log) \<noteq> []"
      by (simp_all add: example_pool_log_def example_fiber_log_def LoggerManager_GetLogger_def
          alloc_logger_def string_lt_def)
    ultimately show "util_ready (fe_util example_fiber_env) example_pool_log"
      "map_find string_lt ''thread_pool'' (mgr_loggers example_pool_log) = Some 2"
      by (simp_all add: util_ready_def log_ready_def example_fiber_env_def)
  qed
  have "(of_nat i + 1 :: 64 word) \<noteq> 0" if "i < unat (2 :: 32 word)" for i
  proof -
    from that have "i = 0 \<or> i = 1" by auto
    then show ?thesis by auto
  qed
  with thread_pool_constructor [OF log, of 2 100 "\<lambda>i. Inr (of_nat i + 1)" 0 "\<lambda>i. of_nat i + 1"]
  show ?thesis by simp
qed

end
