(* ===== verification/Scheduler_Tasks.thy ===== *)
theory Scheduler_Tasks
  imports Fiber_Facts Thread_System
begin

text \<open>
  \<open>src/src/scheduler.h\<close>: the tasks, a fiber or a callback and the thread it wants to run on; and the
  scheduler, whose templates are there with a body that says only \<open>TODO\<close>. Its other operations
  are declared and have no body in the sources.
\<close>

text \<open>A \<open>Fiber::ptr\<close> is an address or null; an empty \<open>std::function\<close> is \<open>None\<close>.\<close>

record task =
  tk_fiber :: "nat option"
  tk_cb :: "code option"
  tk_thread :: int

definition Task_fiber :: "nat option \<Rightarrow> int \<Rightarrow> task" where
  "Task_fiber f thr = \<lparr>tk_fiber = f, tk_cb = None, tk_thread = thr\<rparr>"

text \<open>The constructors from pointers swap: what they point to is empty afterwards.\<close>

definition Task_fiber_swap :: "nat option \<Rightarrow> int \<Rightarrow> task \<times> nat option" where
  "Task_fiber_swap f thr =
     (let t = \<lparr>tk_fiber = None, tk_cb = None, tk_thread = thr\<rparr>
      in (t\<lparr>tk_fiber := f\<rparr>, tk_fiber t))"

definition Task_cb :: "code option \<Rightarrow> int \<Rightarrow> task" where
  "Task_cb f thr = \<lparr>tk_fiber = None, tk_cb = f, tk_thread = thr\<rparr>"

definition Task_cb_swap :: "code option \<Rightarrow> int \<Rightarrow> task \<times> code option" where
  "Task_cb_swap f thr =
     (let t = \<lparr>tk_fiber = None, tk_cb = None, tk_thread = thr\<rparr>
      in (t\<lparr>tk_cb := f\<rparr>, tk_cb t))"

definition new_Task :: task where
  "new_Task = \<lparr>tk_fiber = None, tk_cb = None, tk_thread = - 1\<rparr>"

definition Task_Reset :: "task \<Rightarrow> task" where
  "Task_Reset t = t\<lparr>tk_fiber := None, tk_cb := None, tk_thread := - 1\<rparr>"

text \<open>
  In the system of fibers, a task that is made by copying a pointer adds an owner, one made by
  swapping takes the owner over, and resetting a task gives its owner up.
\<close>

definition schedule_copy :: "nat \<Rightarrow> int \<Rightarrow> fiber_sys \<Rightarrow> task \<times> fiber_sys" where
  "schedule_copy f thr s = (Task_fiber (Some f) thr, retain f s)"

definition reset_in :: "fiber_env \<Rightarrow> task \<Rightarrow> fiber_sys \<Rightarrow> (task, fiber_sys) result" where
  "reset_in env t s =
     (case tk_fiber t of
        None \<Rightarrow> Ok (Task_Reset t) s
      | Some f \<Rightarrow> and_then (release env f s) (\<lambda>_ s1. Ok (Task_Reset t) s1))"

lemma Task_swap_moves:
  "Task_fiber_swap f thr = (Task_fiber f thr, None)" "Task_cb_swap cb thr = (Task_cb cb thr, None)"
  by (simp_all add: Task_fiber_swap_def Task_fiber_def Task_cb_swap_def Task_cb_def Let_def)

lemma Task_Reset_new: "Task_Reset t = new_Task"
  by (simp add: Task_Reset_def new_Task_def)

text \<open>Scheduling a copy and resetting the task leaves the fibers as they were.\<close>

lemma schedule_copy_reset:
  assumes "live s f"
  shows "reset_in env (fst (schedule_copy f thr s)) (snd (schedule_copy f thr s)) = Ok new_Task s"
proof -
  have f: "f < length (fs_fibers s)" and pos: "0 < fb_refs (fs_fibers s ! f)"
    using assms by (simp_all add: live_def)
  have "(fs_fibers s ! f)\<lparr>fb_refs := fb_refs (fs_fibers s ! f)\<rparr> = fs_fibers s ! f" by simp
  with f pos show ?thesis
    by (simp add: schedule_copy_def reset_in_def Task_fiber_def release_def live_def retain_def
        fiber_simps Task_Reset_new update_fiber_def)
qed

section \<open>The scheduler\<close>

text \<open>The members of \<open>Scheduler\<close>; its mutex is the caller's while one of the operations runs.\<close>

record scheduler =
  sch_threads :: "thread_obj list"
  sch_tasks :: "task list"
  sch_root_fiber :: "nat option"
  sch_name :: string
  sch_thread_ids :: "32 word list"
  sch_thread_count :: "64 word"
  sch_active_thread_count :: "64 word"
  sch_idle_thread_count :: "64 word"
  sch_stopping :: bool
  sch_auto_stop :: bool
  sch_root_thread :: "32 word"

definition Scheduler_GetName :: "scheduler \<Rightarrow> string" where
  "Scheduler_GetName s = sch_name s"

text \<open>The bodies of the templates are empty: whatever a task is, it is not stored.\<close>

definition Scheduler_ScheduleNoLock :: "'t \<Rightarrow> int \<Rightarrow> scheduler \<Rightarrow> scheduler" where
  "Scheduler_ScheduleNoLock t thread s = s"

definition Scheduler_Schedule :: "'t \<Rightarrow> int \<Rightarrow> scheduler \<Rightarrow> scheduler" where
  "Scheduler_Schedule t thread s = s"

definition Scheduler_Schedule_range :: "'t list \<Rightarrow> scheduler \<Rightarrow> scheduler" where
  "Scheduler_Schedule_range ts s = s"

end
