(* ===== verification/Sockets.thy ===== *)
theory Sockets
  imports Zcs_Prelude
begin

text \<open>
  \<open>src/src/socket.h\<close> and \<open>src/src/socket.cpp\<close>. The functions of the class have empty bodies. The
  constructor initialises no member, so every member of a new socket is indeterminate; the
  factories are declared to return a pointer and flow off their end, which is undefined behaviour.
\<close>

text \<open>\<open>Socket::Type\<close> and \<open>Socket::Family\<close>, whose values are those of the system's headers.\<close>

datatype socket_type = TCP | UDP

datatype socket_family = IPv4 | IPv6 | UNIX

text \<open>A member is \<open>None\<close> while its value is indeterminate.\<close>

record socket =
  sk_sock :: "32 word option"
  sk_family :: "32 word option"
  sk_type :: "32 word option"
  sk_protocol :: "32 word option"
  sk_is_connected :: "32 word option"

definition new_Socket :: "32 word \<Rightarrow> 32 word \<Rightarrow> 32 word \<Rightarrow> socket" where
  "new_Socket family type protocol =
     \<lparr>sk_sock = None, sk_family = None, sk_type = None, sk_protocol = None, sk_is_connected = None\<rparr>"

text \<open>The end of a function that has to return a value and does not.\<close>

abbreviation no_return :: "(socket option, 's) result" where
  "no_return \<equiv> Crash (UndefinedBehaviour ''no return value'')"

definition Socket_CreateTCP :: "'s \<Rightarrow> (socket option, 's) result" where
  "Socket_CreateTCP s = no_return"

definition Socket_CreateUDP :: "'s \<Rightarrow> (socket option, 's) result" where
  "Socket_CreateUDP s = no_return"

definition Socket_CreateTCPSocket :: "'s \<Rightarrow> (socket option, 's) result" where
  "Socket_CreateTCPSocket s = no_return"

definition Socket_CreateUDPSocket :: "'s \<Rightarrow> (socket option, 's) result" where
  "Socket_CreateUDPSocket s = no_return"

definition Socket_CreateTCPSocket6 :: "'s \<Rightarrow> (socket option, 's) result" where
  "Socket_CreateTCPSocket6 s = no_return"

definition Socket_CreateUDPSocket6 :: "'s \<Rightarrow> (socket option, 's) result" where
  "Socket_CreateUDPSocket6 s = no_return"

definition Socket_CreateTCPUnix :: "'s \<Rightarrow> (socket option, 's) result" where
  "Socket_CreateTCPUnix s = no_return"

definition Socket_CreateUDPUnix :: "'s \<Rightarrow> (socket option, 's) result" where
  "Socket_CreateUDPUnix s = no_return"

end
