(* ===== verification/Spec2Isabelle.thy ===== *)
theory Spec2Isabelle
  imports Log_Properties Cast_Properties Config_Properties Log_Config_Properties
    Log_Threads_Properties Config_Locking Configured_Logging
    Fiber_Properties Lock_Properties Thread_Properties Scheduler_Tasks Sockets
begin

text \<open>
  A verification development of the server library \<open>zcs\<close> (sources under \<open>src/src\<close>).

  \<^bold>\<open>The program.\<close> A logging module (\<open>log.h\<close>, \<open>log.cpp\<close>): loggers with appenders, a pattern
  formatter, a manager that is the registry of all loggers. A configuration module (\<open>config.h\<close>,
  \<open>config.cpp\<close>): typed variables in a registry, converted from and to yaml text, with listeners;
  one of them, for the variable \<open>logs\<close>, rebuilds the loggers. Fibers (\<open>fiber.h\<close>, \<open>fiber.cpp\<close>) on
  top of \<open>ucontext\<close>, assertions and stack traces (\<open>macro.h\<close>, \<open>util.cpp\<close>) that they use and that
  log. Locks and a semaphore (\<open>mutex.h\<close>, \<open>mutex.cc\<close>), threads (\<open>thread.h\<close>, \<open>thread.cpp\<close>) and a
  thread pool (\<open>thread_pool.cpp\<close>). A scheduler (\<open>scheduler.h\<close>) and sockets (\<open>socket.h\<close>, \<open>socket.cpp\<close>)
  that are hardly begun.

  \<^bold>\<open>Conventions\<close> (\<open>Zcs_Prelude\<close>). A call ends with a value, an exception (and the state reached) or
  a crash: a null pointer, a failed assertion, a deadlock, an exhausted stack, undefined behaviour.
  Objects shared through pointers live in stores, lists indexed by address; allocation appends.
  Integers keep their width as words. \<open>std::map\<close> and \<open>std::set\<close> are the sorted lists of
  \<open>Ordered_Containers\<close>, whose laws hold for every strict weak order. What the sources take from
  the clock, the file system, \<open>strftime\<close>, yaml-cpp, \<open>boost::lexical_cast\<close>, \<open>pthread_create\<close> and
  \<open>backtrace\<close> is a parameter: a field of an environment record or an argument.

  \<^bold>\<open>Logging.\<close> \<open>Log_Format\<close>: levels, events, format items and \<open>LogFormatter::Init\<close>, as the index
  loop of the code and as a parser on the remaining text, proved equal; which patterns are in
  error, what is read back, what is lost. \<open>Log_System\<close>: appenders, loggers, manager and
  macros, one definition per member function. \<open>Log_Facts\<close>: what logging leaves alone, the
  invariant of the system and that every operation keeps it. \<open>Log_Delivery\<close>: the streams, and what
  arrives in them. \<open>Log_Properties\<close>: who gets a record, what a file holds after errors, what levels
  and formats do. A file stream has a buffer: \<open>files\<close> is what the streams of a file have taken, \<open>disk\<close>
  what they have written to it; when they write, what of an item a failing \<open><<\<close> takes, and whether
  \<open>close\<close> can write the rest is up to the environment. \<open>file_record_prefix\<close> relates the two.

  \<^bold>\<open>Logging from several threads.\<close> \<open>Log_Threads\<close>: every call as the instructions of its body, with its
  scoped locks, the calls inside it and the lines that read or write shared members; a step of the
  system is one instruction of one thread. \<open>Log_Serial\<close>: the instructions of a call, run alone, do
  what the function of \<open>Log_System\<close> for it does; and the calls on one logger are atomic.
  \<open>Log_Progress\<close>: the order in which threads take the locks, and a measure that every step lowers.
  An assignment to \<open>formatter_\<close> of an appender while another thread is inside \<open>Format\<close> of it is undefined
  behaviour; the proof of progress excludes it when every appender is used through one logger.
  \<open>Log_Threads_Properties\<close>: one logger is serializable, so its records stay whole, and threads always
  end; but the lock of an appender protects neither \<open>std::cout\<close> nor, from its logger, its formatter,
  and a thread that logs while another configures the root logger crashes.

  \<^bold>\<open>Configuration.\<close> \<open>Yaml_Casts\<close>: the casts of the containers over an abstract yaml library with
  named laws; \<open>Yaml_Tree\<close> is a concrete library that satisfies the laws, so they can hold.
  \<open>Config_System\<close>: variables, listeners, registry, loading of documents, with the read and write
  locks the code takes. \<open>Config_Facts\<close>, \<open>Config_Properties\<close> and \<open>Cast_Properties\<close>: the contract of
  the registry, what listeners see, what a document does, and the round trips of the casts. The
  recursion over a document has the depth of the stack as fuel; \<open>ListAllMember_lists_dotted_paths\<close>
  shows that a document nested less deep is listed completely. \<open>Log_Config\<close>, \<open>Log_Config_Facts\<close>, \<open>Log_Config_Properties\<close>: the
  configuration of the logging system and its listener, which is composed of the operations of
  \<open>Log_System\<close>. \<open>Config_Threads\<close>: one variable, or two of one type, used by several threads, as
  instructions like those of the loggers; a listener runs in one step there, and one that throws
  ends the program. \<open>Config_Locking\<close>: the read and write locks exclude what they should and nobody
  waits for good, although a value and its notifications can part. The locale \<open>get_or_create\<close> is the contract of both registries and is
  interpreted on each; \<open>rebuilt_container\<close> and \<open>keyed_container\<close> are those of the casts.

  \<^bold>\<open>Start.\<close> \<open>Startup\<close> puts these together: the values of the two variables of the library, the casts and
  the listener that \<open>logs\<close> really has, and the initialisers of the six source files that have some,
  run in any order of the files. Its properties: every order starts the library in the same way,
  and a document that is loaded then brings the loggers in line with it. \<open>Log_Streams\<close>: the listener
  opens streams and leaves all of them in order. \<open>Configured_Logging\<close> follows documents to their effects: from the
  start of the library over the document to the records in the files it names; from the text of
  \<open>logs\<close> in one process to the loggers of another; from \<open>fiber.stacksize\<close> to the stack of a fiber.

  \<^bold>\<open>Fibers.\<close> \<open>Util\<close>: assertions and stack traces over the logging system. \<open>Fiber_System\<close>: one thread
  as a machine. Client code, that of the thread and the callbacks, is data: the calls it makes in
  order. A saved context is the stack of the calls that were active; a context that was resumed, or
  was taken in a call that has returned, cannot be resumed. The use counts of the shared pointers
  are part of the state, including those that the locals of \<open>MainFunc\<close> and of the yields hold.
  \<open>Fiber_Facts\<close>: an invariant of pointers and of contexts, kept by every step; and that code of
  the thread, once no context holds it, is never reached again. \<open>Fiber_Properties\<close>: the life of a
  fiber, and the calls after which it cannot be used any more.
  There is no fuel in the statements: \<open>fiber_run n\<close> is exactly \<open>n\<close> steps and the properties say
  how many are made, or speak of all reachable states.

  \<^bold>\<open>Locks.\<close> \<open>Locks\<close>: the lock classes and the three scoped lock templates over the member functions
  of their parameter, and threads that use one lock in any interleaving. The locale \<open>lockable\<close> is
  the contract of a lock, a relation between its state and the threads that hold it; exclusion
  and termination are proved from it once and it is interpreted on \<open>Mutex\<close>, \<open>SpinLock\<close>,
  \<open>CASLock\<close> and \<open>RWMutex\<close>. \<open>Lock_Properties\<close>: both for the scoped locks of the code. The spin loop of \<open>CASLock\<close> is a partial
  function: it has a value exactly when the flag is clear.

  \<^bold>\<open>Threads.\<close> \<open>Thread_System\<close>: the constructor of \<open>Thread\<close> and the new thread in \<open>Run\<close>, line by line,
  interleaved with the destruction of the object; the thread pool, whose workers are a partial
  function without a value. \<open>Thread_Properties\<close>: what holds when a constructor has returned, and how
  a destroyed thread is used. \<open>Scheduler_Tasks\<close>: the scheduler and its tasks, and what they do to
  the use counts of fibers. \<open>Sockets\<close>: the constructor and the factories, which return nothing.

  \<^bold>\<open>Not modelled.\<close> \<open>timer.h\<close> is empty, \<open>zcs.h\<close> includes the other headers and \<open>nocopyable.h\<close>
  forbids copies. Memory orders and fairness of waiting threads are left out: each call of a lock
  and each line is one step, in an order all threads agree on, also where the language calls
  unlocked accesses a data race, save for \<open>formatter_\<close> as above. What the destructor of a file
  appender writes is not in \<open>disk\<close>, and standard output never fails. In \<open>Log_Threads\<close> threads neither construct appenders nor dump
  loggers; in \<open>Config_Threads\<close> the registry is not used. The fibers are those of one thread, and so
  are the two atomic counters. The programs under \<open>src/tests\<close> are drivers and are not modelled.
\<close>

end
